(* ===== verification/Prelude.thy ===== *)
theory Prelude
  imports Complex_Main "HOL-Library.Word" "HOL-Library.Multiset"
begin

text \<open>
  What every component of the emulator shares: the errors the code can raise and the
  sequencing of fallible steps, the fixed-width conversions C++ inserts between
  \<open>int\<close>, \<open>uint64_t\<close> and \<open>size_t\<close>, and the standard containers. A
  \<open>std::set<int>\<close> is a strictly increasing list, a \<open>std::map\<close> an association list
  with strictly increasing keys (so that iterating it visits the keys in the order of the
  C++ iterator), and a \<open>boost::unordered_map\<close> an association list with distinct keys in
  an order nothing may depend on. The locale \<open>kv_container\<close> is the contract both maps
  keep; the components reason about their tables through it.
\<close>

named_theorems kv_simps "lookups in tables after insertions, erasures and filtering"
named_theorems inv_intros "preservation of well-formedness invariants by the operations"

section \<open>Errors and fallible steps\<close>

text \<open>
  \<open>RuntimeError\<close> and \<open>InvalidArgument\<close> are the exceptions of those names,
  \<open>BadPath\<close> is a mandatory field missing from the property tree, \<open>AssertionFailed\<close> a
  failing \<open>assert\<close>, and \<open>UndefinedBehaviour\<close> an operation C++ leaves undefined (reading
  past the end of a container, calling through a null pointer).
\<close>

datatype error =
    RuntimeError string
  | InvalidArgument string
  | BadPath string
  | BadData string
  | AssertionFailed
  | UndefinedBehaviour string

type_synonym 'a result = "error + 'a"

fun and_then :: "'a result \<Rightarrow> ('a \<Rightarrow> 'b result) \<Rightarrow> 'b result" where
  "and_then (Inl e) f = Inl e"
| "and_then (Inr x) f = f x"

lemma and_then_Inr_iff:
  "and_then m f = Inr y \<longleftrightarrow> (\<exists>x. m = Inr x \<and> f x = Inr y)"
  by (cases m) auto

lemma and_then_Inl_iff:
  "and_then m f = Inl e \<longleftrightarrow> m = Inl e \<or> (\<exists>x. m = Inr x \<and> f x = Inl e)"
  by (cases m) auto

lemma and_thenE:
  assumes "and_then m f = Inr y"
  obtains x where "m = Inr x" and "f x = Inr y"
  using assms by (auto simp: and_then_Inr_iff)

text \<open>An \<open>int\<close> that is incremented: the overflow is undefined.\<close>

definition int_overflow :: error where
  "int_overflow = UndefinedBehaviour ''int overflow''"

definition int_succ :: "int \<Rightarrow> int result" where
  "int_succ n = (if n < 2 ^ 31 - 1 then Inr (n + 1) else Inl int_overflow)"

lemma int_succ_Inr_iff: "int_succ n = Inr m \<longleftrightarrow> n < 2 ^ 31 - 1 \<and> m = n + 1"
  by (auto simp: int_succ_def)

lemma int_succ_Inl_iff: "int_succ n = Inl e \<longleftrightarrow> 2 ^ 31 - 1 \<le> n \<and> e = int_overflow"
  by (auto simp: int_succ_def)

text \<open>A \<open>for\<close> loop whose body may raise.\<close>

fun each :: "('a \<Rightarrow> 's \<Rightarrow> 's result) \<Rightarrow> 'a list \<Rightarrow> 's \<Rightarrow> 's result" where
  "each f [] s = Inr s"
| "each f (x # xs) s = and_then (f x s) (each f xs)"

lemma each_append: "each f (xs @ ys) s = and_then (each f xs s) (each f ys)"
proof (induction xs arbitrary: s)
  case (Cons x xs)
  then show ?case by (cases "f x s") auto
qed simp

lemma each_invariant:
  assumes "each f xs s = Inr t" and "I s"
    and "\<And>x s t. x \<in> set xs \<Longrightarrow> I s \<Longrightarrow> f x s = Inr t \<Longrightarrow> I t"
  shows "I t"
  using assms
proof (induction xs arbitrary: s)
  case (Cons x xs)
  from Cons.prems(1) obtain u where "f x s = Inr u" and "each f xs u = Inr t"
    by (auto elim: and_thenE)
  with Cons.prems show ?case by (intro Cons.IH[of u]) auto
qed simp

lemma each_total:
  assumes "I s" and "\<And>x s. x \<in> set xs \<Longrightarrow> I s \<Longrightarrow> \<exists>t. f x s = Inr t \<and> I t"
  shows "\<exists>t. each f xs s = Inr t \<and> I t"
  using assms
proof (induction xs arbitrary: s)
  case (Cons x xs)
  then obtain u where "f x s = Inr u" and "I u" by (meson list.set_intros(1))
  with Cons.IH[of u] Cons.prems(2) show ?case by auto
qed simp

section \<open>Fixed-width integers\<close>

text \<open>
  \<open>to_int32\<close> is the conversion of a wider integer to a 32-bit \<open>int\<close> (two's
  complement), \<open>to_size_t\<close> the conversion of an \<open>int\<close> to a 64-bit unsigned integer.
\<close>

definition to_int32 :: "int \<Rightarrow> int" where
  "to_int32 x = (x + 2 ^ 31) mod 2 ^ 32 - 2 ^ 31"

definition to_size_t :: "int \<Rightarrow> int" where
  "to_size_t x = x mod 2 ^ 64"

lemma to_int32_id: "- (2 ^ 31) \<le> x \<Longrightarrow> x < 2 ^ 31 \<Longrightarrow> to_int32 x = x"
  by (simp add: to_int32_def mod_pos_pos_trivial)

lemma to_int32_range: "- (2 ^ 31) \<le> to_int32 x \<and> to_int32 x < 2 ^ 31"
  using pos_mod_bound[of "2 ^ 32 :: int" "x + 2 ^ 31"] pos_mod_sign[of "2 ^ 32 :: int" "x + 2 ^ 31"]
  by (simp add: to_int32_def)

lemma to_int32_add_multiple: "to_int32 (x + k * 2 ^ 32) = to_int32 x"
proof -
  have "x + k * 2 ^ 32 + 2 ^ 31 = (x + 2 ^ 31) + 2 ^ 32 * k" by (simp add: algebra_simps)
  then show ?thesis unfolding to_int32_def by (simp only: mod_mult_self2)
qed

lemma to_size_t_id: "0 \<le> x \<Longrightarrow> x < 2 ^ 64 \<Longrightarrow> to_size_t x = x"
  by (simp add: to_size_t_def)

lemma to_size_t_range: "0 \<le> to_size_t x \<and> to_size_t x < 2 ^ 64"
  by (simp add: to_size_t_def)

section \<open>Ordered sets\<close>

fun ss_insert :: "'a::linorder \<Rightarrow> 'a list \<Rightarrow> 'a list" where
  "ss_insert x [] = [x]"
| "ss_insert x (y # ys) =
     (if x = y then y # ys else if x < y then x # y # ys else y # ss_insert x ys)"

definition ss_erase :: "'a \<Rightarrow> 'a list \<Rightarrow> 'a list" where
  "ss_erase x xs = filter (\<lambda>y. y \<noteq> x) xs"

definition ss_insert_all :: "'a::linorder list \<Rightarrow> 'a list \<Rightarrow> 'a list" where
  "ss_insert_all xs ys = fold ss_insert xs ys"

abbreviation ss_ok :: "'a::linorder list \<Rightarrow> bool" where
  "ss_ok xs \<equiv> sorted_wrt (<) xs"

lemma set_ss_insert [simp]: "set (ss_insert x xs) = insert x (set xs)"
  by (induction xs) auto

lemma ss_insert_ok [inv_intros, simp]: "ss_ok xs \<Longrightarrow> ss_ok (ss_insert x xs)"
  by (induction xs) auto

lemma ss_insert_not_Nil [simp]: "ss_insert x xs \<noteq> []"
  by (cases xs) auto

lemma set_ss_erase [simp]: "set (ss_erase x xs) = set xs - {x}"
  by (auto simp: ss_erase_def)

lemma ss_erase_ok [inv_intros, simp]: "ss_ok xs \<Longrightarrow> ss_ok (ss_erase x xs)"
  by (simp add: ss_erase_def sorted_wrt_filter)

lemma set_ss_insert_all [simp]: "set (ss_insert_all xs ys) = set xs \<union> set ys"
  unfolding ss_insert_all_def by (induction xs arbitrary: ys) auto

lemma ss_insert_all_ok [inv_intros, simp]: "ss_ok ys \<Longrightarrow> ss_ok (ss_insert_all xs ys)"
  unfolding ss_insert_all_def by (induction xs arbitrary: ys) auto

lemma ss_ok_distinct: "ss_ok xs \<Longrightarrow> distinct xs"
  using strict_sorted_iff by blast

lemma ss_ok_unique: "ss_ok xs \<Longrightarrow> ss_ok ys \<Longrightarrow> set xs = set ys \<Longrightarrow> xs = ys"
  by (simp add: strict_sorted_equal)

lemma set2_eqI: "(\<And>a b. (a, b) \<in> A \<longleftrightarrow> (a, b) \<in> B) \<Longrightarrow> A = B"
  by auto

lemma set4_eqI:
  "(\<And>a b c d. (a, b, c, d) \<in> A \<longleftrightarrow> (a, b, c, d) \<in> B) \<Longrightarrow> A = B"
  by auto

section \<open>Maps\<close>

fun um_put :: "'k \<Rightarrow> 'v \<Rightarrow> ('k \<times> 'v) list \<Rightarrow> ('k \<times> 'v) list" where
  "um_put k v [] = [(k, v)]"
| "um_put k v ((k', v') # t) = (if k' = k then (k, v) # t else (k', v') # um_put k v t)"

fun om_put :: "'k::linorder \<Rightarrow> 'v \<Rightarrow> ('k \<times> 'v) list \<Rightarrow> ('k \<times> 'v) list" where
  "om_put k v [] = [(k, v)]"
| "om_put k v ((k', v') # t) =
     (if k = k' then (k, v) # t
      else if k < k' then (k, v) # (k', v') # t else (k', v') # om_put k v t)"

definition kv_erase :: "'k \<Rightarrow> ('k \<times> 'v) list \<Rightarrow> ('k \<times> 'v) list" where
  "kv_erase k t = filter (\<lambda>e. fst e \<noteq> k) t"

abbreviation um_ok :: "('k \<times> 'v) list \<Rightarrow> bool" where
  "um_ok t \<equiv> distinct (map fst t)"

abbreviation om_ok :: "('k::linorder \<times> 'v) list \<Rightarrow> bool" where
  "om_ok t \<equiv> sorted_wrt (<) (map fst t)"

text \<open>The contract of a key-value container, as the operations of the emulator use it.\<close>

locale kv_container =
  fixes put :: "'k \<Rightarrow> 'v \<Rightarrow> ('k \<times> 'v) list \<Rightarrow> ('k \<times> 'v) list"
    and ok :: "('k \<times> 'v) list \<Rightarrow> bool"
  assumes ok_Nil: "ok []"
    and ok_distinct: "ok t \<Longrightarrow> distinct (map fst t)"
    and ok_put: "ok t \<Longrightarrow> ok (put k v t)"
    and ok_filter: "ok t \<Longrightarrow> ok (filter P t)"
    and lookup_put: "map_of (put k v t) = (map_of t)(k \<mapsto> v)"
    and keys_put: "fst ` set (put k v t) = insert k (fst ` set t)"
begin

lemma lookup_iff: "ok t \<Longrightarrow> map_of t k = Some v \<longleftrightarrow> (k, v) \<in> set t"
  by (simp add: ok_distinct)

lemma entries_put:
  assumes "ok t"
  shows "set (put k v t) = insert (k, v) {e \<in> set t. fst e \<noteq> k}"
proof (rule set_eqI)
  fix e :: "'k \<times> 'v"
  obtain a b where e: "e = (a, b)" by (cases e)
  have "e \<in> set (put k v t) \<longleftrightarrow> map_of (put k v t) a = Some b"
    unfolding e using lookup_iff[OF ok_put[OF assms], of k v a b] by blast
  also have "\<dots> \<longleftrightarrow> (if a = k then b = v else map_of t a = Some b)"
    by (auto simp: lookup_put)
  also have "\<dots> \<longleftrightarrow> e \<in> insert (k, v) {e \<in> set t. fst e \<noteq> k}"
    unfolding e using lookup_iff[OF assms, of a b] by auto
  finally show "e \<in> set (put k v t) \<longleftrightarrow> e \<in> insert (k, v) {e \<in> set t. fst e \<noteq> k}" .
qed

lemma put_all:
  assumes "\<forall>e \<in> set t. Q (fst e) (snd e)" and "Q k v" and "ok t"
  shows "\<forall>e \<in> set (put k v t). Q (fst e) (snd e)"
  using assms by (auto simp: entries_put)

lemma put_not_Nil: "put k v t \<noteq> []"
  using keys_put[of k v t] by auto

lemma ok_erase: "ok t \<Longrightarrow> ok (kv_erase k t)"
  by (simp add: kv_erase_def ok_filter)

lemma lookup_filter:
  assumes "ok t"
  shows "map_of (filter P t) k =
    (case map_of t k of None \<Rightarrow> None | Some v \<Rightarrow> if P (k, v) then Some v else None)"
  using ok_distinct[OF assms]
proof (induction t)
  case (Cons e t)
  then show ?case by (cases e) (auto split: option.splits dest: map_of_SomeD simp: rev_image_eqI)
qed simp

lemma lookup_erase: "map_of (kv_erase k t) = (map_of t)(k := None)"
  by (induction t) (auto simp: kv_erase_def)

end

lemma map_of_um_put: "map_of (um_put k v t) = (map_of t)(k \<mapsto> v)"
  by (induction t) auto

lemma keys_um_put: "fst ` set (um_put k v t) = insert k (fst ` set t)"
  by (induction t) force+

lemma um_ok_put: "um_ok t \<Longrightarrow> um_ok (um_put k v t)"
proof (induction t)
  case (Cons e t)
  then show ?case using keys_um_put[of k v t] by (cases e) auto
qed simp

lemma map_of_om_put: "map_of (om_put k v t) = (map_of t)(k \<mapsto> v)"
  by (induction t) auto

lemma om_put_put [simp]: "om_put k v (om_put k u t) = om_put k v t"
  by (induction t) auto

lemma keys_om_put: "fst ` set (om_put k v t) = insert k (fst ` set t)"
  by (induction t) force+

lemma om_ok_put: "om_ok t \<Longrightarrow> om_ok (om_put k v t)"
proof (induction t)
  case (Cons e t)
  obtain a b where e: "e = (a, b)" by (cases e)
  have "\<forall>x \<in> fst ` set (om_put k v t). a < x" if "a < k"
    using Cons.prems that unfolding keys_om_put e by auto
  with Cons show ?case by (auto simp: e not_less le_less)
qed simp

lemma om_put_same: "om_ok t \<Longrightarrow> map_of t k = Some v \<Longrightarrow> om_put k v t = t"
proof (induction t)
  case (Cons e t)
  then show ?case by (cases e) (force dest: map_of_SomeD split: if_splits)
qed simp

lemma map_fst_filter_sorted: "om_ok t \<Longrightarrow> om_ok (filter P t)"
  by (induction t) auto

interpretation um: kv_container um_put um_ok
  by unfold_locales
    (simp_all add: um_ok_put map_of_um_put keys_um_put distinct_map_filter)

interpretation om: kv_container om_put om_ok
  by unfold_locales
    (auto simp: om_ok_put map_of_om_put keys_om_put map_fst_filter_sorted
      intro: ss_ok_distinct)

lemmas container_lookups [kv_simps] =
  um.lookup_put om.lookup_put um.lookup_erase

lemmas container_invariants [inv_intros] =
  um.ok_put om.ok_put um.ok_filter om.ok_filter um.ok_erase om.ok_erase

text \<open>A table whose entries are rewritten in place keeps its keys.\<close>

lemma map_fst_map_snd [simp]: "map fst (map (\<lambda>(k, v). (k, f k v)) t) = map fst t"
  by (induction t) auto

end
