(* ===== verification/Ndn.thy ===== *)
theory Ndn
  imports Prelude
begin

text \<open>
  The libraries the emulator is written against. Interests, Data packets, control
  parameters and control responses are records of what the code reads through their
  getters; \<open>iWire\<close> and \<open>dWire\<close> are the block an Interest or Data packet keeps from its
  decoding, with everything in it that no getter is called for (empty in a packet that was
  never encoded or decoded), so that \<open>wireEncode\<close>, here \<open>encodeInterest\<close> and \<open>encodeData\<close>, can
  return it. The functions of ndn-cxx (names, TLV blocks, the wire codecs, the NFD control
  commands, the key chain) and of Boost.Random are not part of this repository: they are
  the fields of the records \<open>ndn\<close> and \<open>rng\<close>, arguments of every definition that calls
  them; so are the answers of the operating system when a node is started. The predicates \<open>name_laws\<close>, \<open>block_laws\<close>, \<open>control_laws\<close> and \<open>rng_laws\<close>
  state the documented behaviour that the theorems rely on. \<open>list_ndn\<close> is one library
  that has this behaviour; it is used to evaluate the model on concrete packets, and finds the
  block of a packet in a table instead of the packet.
\<close>

section \<open>Packets and times\<close>

type_synonym bytes = "8 word list"

text \<open>
  Time points and durations are numbers of nanoseconds since a common origin, as exact integers:
  the 64 bits that boost::chrono has for them overflow only for times of about 292 years, which
  the lifetime of an Interest or the freshness of a Data packet would have to ask for. The clock is
  read once in each operation that uses it; the reading is an argument of the model.
\<close>

type_synonym time = int

record 'n interest =
  iName :: 'n
  iNonce :: "32 word"
  iLifetime :: time
  iMustBeFresh :: bool
  iWire :: bytes

record 'n data =
  dName :: 'n
  dFreshness :: time
  dContent :: bytes
  dWire :: bytes

record 'n control_parameters =
  cpName :: "'n option"
  cpFaceId :: "64 word option"

record control_response =
  crCode :: nat
  crText :: string
  crBody :: "bytes option"

section \<open>ndn-cxx\<close>

text \<open>
  \<open>nmAt\<close> is \<open>Name::operator[]\<close>, which does not check its index: \<open>None\<close> is an index
  out of range. \<open>decodeInterest\<close>, \<open>decodeData\<close> and \<open>cpDecode\<close> are \<open>wireDecode\<close>, with
  \<open>None\<close> for the exception \<open>Tlv::Error\<close>. \<open>ribValidate\<close> is false where
  \<open>RibRegisterCommand::validateRequest\<close> throws \<open>ArgumentError\<close>. \<open>makeResponse\<close>
  builds, fills and signs the Data packet that carries a control response.

  \<open>acceptorCall n\<close> is what the operating system answers when the node \<open>n\<close> is started:
  \<open>boost::filesystem::remove\<close> of the socket's path, and \<open>open\<close>, \<open>bind\<close> and \<open>listen\<close> of its
  acceptor, each \<open>None\<close> or the message of the \<open>system_error\<close> it throws.
\<close>

datatype acceptor_call = RemovePath | OpenAcceptor | BindAcceptor | ListenAcceptor

record ('n, 'c) ndn =
  nmSize :: "'n \<Rightarrow> nat"
  nmGetPrefix :: "'n \<Rightarrow> nat \<Rightarrow> 'n"
  nmIsPrefixOf :: "'n \<Rightarrow> 'n \<Rightarrow> bool"
  nmAt :: "'n \<Rightarrow> nat \<Rightarrow> 'c option"
  nmAppend :: "'n \<Rightarrow> 'c \<Rightarrow> 'n"
  nmOfUri :: "string \<Rightarrow> 'n"
  nmWireEncode :: "'n \<Rightarrow> bytes"
  cmpOfString :: "string \<Rightarrow> 'c"
  cmpToUri :: "'c \<Rightarrow> string"
  tlvInterest :: nat
  tlvData :: nat
  maxPacketSize :: nat
  blkType :: "bytes \<Rightarrow> nat"
  blkFromBuffer :: "bytes \<Rightarrow> bytes option"
  encodeInterest :: "'n interest \<Rightarrow> bytes"
  decodeInterest :: "bytes \<Rightarrow> 'n interest option"
  encodeData :: "'n data \<Rightarrow> bytes"
  decodeData :: "bytes \<Rightarrow> 'n data option"
  cpDecode :: "'c \<Rightarrow> 'n control_parameters option"
  cpEncode :: "'n control_parameters \<Rightarrow> bytes"
  ribValidate :: "'n control_parameters \<Rightarrow> bool"
  ribDefaults :: "'n control_parameters \<Rightarrow> 'n control_parameters"
  makeResponse :: "'n \<Rightarrow> control_response \<Rightarrow> 'n data"
  acceptorCall :: "string \<Rightarrow> acceptor_call \<Rightarrow> string option"

definition name_laws :: "('n, 'c) ndn \<Rightarrow> bool" where
  "name_laws L \<longleftrightarrow>
     (\<forall>p n. nmIsPrefixOf L p n \<longleftrightarrow> (\<exists>i \<le> nmSize L n. nmGetPrefix L n i = p)) \<and>
     (\<forall>n. nmGetPrefix L n (nmSize L n) = n) \<and>
     (\<forall>n i. i \<le> nmSize L n \<longrightarrow> nmSize L (nmGetPrefix L n i) = i) \<and>
     (\<forall>n i. nmAt L n i = None \<longleftrightarrow> nmSize L n \<le> i)"

definition block_laws :: "('n, 'c) ndn \<Rightarrow> bool" where
  "block_laws L \<longleftrightarrow>
     (\<forall>bs e. blkFromBuffer L bs = Some e \<longrightarrow> e \<noteq> [] \<and> (\<exists>rest. bs = e @ rest)) \<and>
     (\<forall>bs e xs. blkFromBuffer L bs = Some e \<longrightarrow> blkFromBuffer L (bs @ xs) = Some e)"

definition control_laws :: "('n, 'c) ndn \<Rightarrow> bool" where
  "control_laws L \<longleftrightarrow>
     (\<forall>p. ribValidate L p \<longrightarrow> cpName p \<noteq> None) \<and>
     (\<forall>p. cpName (ribDefaults L p) = cpName p) \<and>
     (\<forall>p f. cpFaceId p = Some f \<longrightarrow> cpFaceId (ribDefaults L p) = Some f) \<and>
     (\<forall>n r. dName (makeResponse L n r) = n)"

lemma prefix_iff:
  "name_laws L \<Longrightarrow> nmIsPrefixOf L p n \<longleftrightarrow> (\<exists>i \<le> nmSize L n. nmGetPrefix L n i = p)"
  by (simp add: name_laws_def)

lemma prefix_refl: "name_laws L \<Longrightarrow> nmIsPrefixOf L n n"
  by (auto simp: name_laws_def)

lemma at_None_iff: "name_laws L \<Longrightarrow> nmAt L n i = None \<longleftrightarrow> nmSize L n \<le> i"
  by (simp add: name_laws_def)

lemma blockE:
  assumes "block_laws L" and "blkFromBuffer L bs = Some e"
  obtains rest where "bs = e @ rest" and "e \<noteq> []"
  using assms unfolding block_laws_def by blast

lemma block_extend:
  "block_laws L \<Longrightarrow> blkFromBuffer L bs = Some e \<Longrightarrow> blkFromBuffer L (bs @ xs) = Some e"
  unfolding block_laws_def by blast

text \<open>
  The hash of a name in the tables of \<^verbatim>\<open>core/ndn-name-hash.h\<close>: \<open>boost::hash_range\<close>
  (the argument) over the bytes of the wire encoding.
\<close>

definition ndn_name_hash :: "(bytes \<Rightarrow> 64 word) \<Rightarrow> ('n, 'c) ndn \<Rightarrow> 'n \<Rightarrow> 64 word" where
  "ndn_name_hash hash_range L n = hash_range (nmWireEncode L n)"

section \<open>Boost.Random\<close>

text \<open>
  A generator state is coded as a number. \<open>uniformInt hi\<close> draws from
  \<open>uniform_int_distribution (0, hi)\<close>, \<open>bernoulli p\<close> from \<open>bernoulli_distribution (p)\<close>;
  both return the draw and the generator's next state. \<open>engine0\<close> is a default-constructed
  \<open>mt19937\<close>, \<open>seeded s\<close> one after \<open>seed (s)\<close>.
\<close>

type_synonym engine = nat

record rng =
  uniformInt :: "nat \<Rightarrow> engine \<Rightarrow> nat \<times> engine"
  bernoulli :: "real \<Rightarrow> engine \<Rightarrow> bool \<times> engine"
  engine0 :: engine
  seeded :: "nat \<Rightarrow> engine"

definition rng_laws :: "rng \<Rightarrow> bool" where
  "rng_laws R \<longleftrightarrow>
     (\<forall>hi g. fst (uniformInt R hi g) \<le> hi) \<and>
     (\<forall>g. \<not> fst (bernoulli R 0 g)) \<and> (\<forall>g. fst (bernoulli R 1 g))"

section \<open>A library for concrete runs\<close>

text \<open>
  Names are lists of strings; a block is a type byte, a length byte and that many bytes of
  content. The codecs are given by the packets of the run: \<open>is\<close> and \<open>ds\<close> pair each
  packet with its encoding, and \<open>cs\<close> each parameter component with what it decodes to.
\<close>

fun tlv_from_buffer :: "bytes \<Rightarrow> bytes option" where
  "tlv_from_buffer (t # l # bs) =
     (if unat l \<le> length bs then Some (t # l # take (unat l) bs) else None)"
| "tlv_from_buffer bs = None"

fun uri_split :: "string \<Rightarrow> string \<Rightarrow> string list" where
  "uri_split acc [] = (if acc = [] then [] else [acc])"
| "uri_split acc (ch # cs) =
     (if ch = CHR ''/'' then (if acc = [] then [] else [acc]) @ uri_split [] cs
      else uri_split (acc @ [ch]) cs)"

definition list_ndn ::
  "(string list interest \<times> bytes) list \<Rightarrow> (string list data \<times> bytes) list \<Rightarrow>
   (string \<times> string list control_parameters) list \<Rightarrow> (string list, string) ndn" where
  "list_ndn is ds cs = \<lparr>
     nmSize = length,
     nmGetPrefix = (\<lambda>n i. take i n),
     nmIsPrefixOf = (\<lambda>p n. take (length p) n = p),
     nmAt = (\<lambda>n i. if i < length n then Some (n ! i) else None),
     nmAppend = (\<lambda>n c. n @ [c]),
     nmOfUri = uri_split [],
     nmWireEncode = (\<lambda>n. map of_char (concat n)),
     cmpOfString = (\<lambda>s. s),
     cmpToUri = (\<lambda>s. s),
     tlvInterest = 5,
     tlvData = 6,
     maxPacketSize = 8800,
     blkType = (\<lambda>bs. case bs of [] \<Rightarrow> 0 | b # _ \<Rightarrow> unat b),
     blkFromBuffer = tlv_from_buffer,
     encodeInterest = (\<lambda>i. case map_of is i of Some bs \<Rightarrow> bs | None \<Rightarrow> [5, 0]),
     decodeInterest = (\<lambda>bs. map_of (map (\<lambda>(i, b). (b, i)) is) bs),
     encodeData = (\<lambda>d. case map_of ds d of Some bs \<Rightarrow> bs | None \<Rightarrow> [6, 0]),
     decodeData = (\<lambda>bs. map_of (map (\<lambda>(d, b). (b, d)) ds) bs),
     cpDecode = map_of cs,
     cpEncode = (\<lambda>p. []),
     ribValidate = (\<lambda>p. cpName p \<noteq> None),
     ribDefaults = (\<lambda>p. p),
     makeResponse = (\<lambda>n r. \<lparr>dName = n, dFreshness = 0, dContent = [], dWire = []\<rparr>),
     acceptorCall = (\<lambda>n c. None) \<rparr>"

lemma list_ndn_simps [simp]:
  "nmSize (list_ndn is ds cs) = length"
  "nmGetPrefix (list_ndn is ds cs) = (\<lambda>n i. take i n)"
  "nmIsPrefixOf (list_ndn is ds cs) = (\<lambda>p n. take (length p) n = p)"
  "nmAt (list_ndn is ds cs) = (\<lambda>n i. if i < length n then Some (n ! i) else None)"
  "nmOfUri (list_ndn is ds cs) = uri_split []"
  "nmAppend (list_ndn is ds cs) = (\<lambda>n c. n @ [c])"
  "cmpOfString (list_ndn is ds cs) = (\<lambda>s. s)"
  "cmpToUri (list_ndn is ds cs) = (\<lambda>s. s)"
  "tlvInterest (list_ndn is ds cs) = 5"
  "tlvData (list_ndn is ds cs) = 6"
  "maxPacketSize (list_ndn is ds cs) = 8800"
  "blkFromBuffer (list_ndn is ds cs) = tlv_from_buffer"
  "acceptorCall (list_ndn is ds cs) = (\<lambda>n c. None)"
  by (simp_all add: list_ndn_def)

lemma list_ndn_name_laws: "name_laws (list_ndn is ds cs)"
proof -
  have "take (length p) n = p \<longleftrightarrow> (\<exists>i \<le> length n. take i n = p)" for p n :: "string list"
  proof
    assume h: "take (length p) n = p"
    then have "length p \<le> length n"
      by (metis length_take min.cobounded1)
    with h show "\<exists>i \<le> length n. take i n = p" by blast
  qed (auto simp: min_absorb2)
  then show ?thesis
    by (simp add: name_laws_def list_ndn_def)
qed

lemma tlv_from_buffer_Some:
  assumes "tlv_from_buffer bs = Some e"
  shows "e \<noteq> [] \<and> (\<exists>rest. bs = e @ rest) \<and> tlv_from_buffer (bs @ xs) = Some e"
  using assms
proof (cases bs rule: tlv_from_buffer.cases)
  case (1 t l cs)
  with assms have l: "unat l \<le> length cs" and e: "e = t # l # take (unat l) cs"
    by (auto split: if_splits)
  from 1 e have "bs = e @ drop (unat l) cs" by simp
  then have "\<exists>rest. bs = e @ rest" ..
  with 1 l e show ?thesis by simp
qed simp_all

lemma list_ndn_block_laws: "block_laws (list_ndn is ds cs)"
  unfolding block_laws_def list_ndn_def using tlv_from_buffer_Some by simp

lemma list_ndn_control_laws: "control_laws (list_ndn is ds cs)"
  by (simp add: control_laws_def list_ndn_def)

definition counting_rng :: rng where
  "counting_rng = \<lparr>
     uniformInt = (\<lambda>hi g. (g mod Suc hi, Suc g)),
     bernoulli = (\<lambda>p g. (p = 1, Suc g)),
     engine0 = 0, seeded = (\<lambda>s. s) \<rparr>"

lemma counting_rng_laws: "rng_laws counting_rng"
  by (simp add: rng_laws_def counting_rng_def less_Suc_eq_le [symmetric])

end
