(* ===== verification/Pit.thy ===== *)
theory Pit
  imports Ndn
begin

text \<open>
  The Pending Interest Table (\<^verbatim>\<open>core/pit.h\<close>, \<^verbatim>\<open>core/pit.cc\<close>): per name, the
  nonces seen with the face each came from and the time it expires. \<open>pending\<close> reads the
  table as a set of records; each operation is shown to do on that set what the table
  promises (\<open>pending_AddInterest\<close>, \<open>pending_Consume\<close>, \<open>pending_CleanUp\<close>).
\<close>

section \<open>State\<close>

record face_record =
  frFaceId :: int
  frExpire :: time

record 'n pit_entry =
  peInterest :: "'n interest"
  peNonceTable :: "(32 word \<times> face_record) list"

type_synonym 'n pit_table = "('n \<times> 'n pit_entry) list"

record 'n pit =
  pTable :: "'n pit_table"
  pCleanupInterval :: time

definition Pit_new :: "time \<Rightarrow> 'n pit" where
  "Pit_new interval = \<lparr>pTable = [], pCleanupInterval = interval\<rparr>"

definition PitEntry_new :: "'n interest \<Rightarrow> 'n pit_entry" where
  "PitEntry_new i = \<lparr>peInterest = i, peNonceTable = []\<rparr>"

section \<open>Operations\<close>

definition PitEntry_AddNonce ::
  "32 word \<Rightarrow> int \<Rightarrow> time \<Rightarrow> 'n pit_entry \<Rightarrow> bool \<times> 'n pit_entry" where
  "PitEntry_AddNonce nonce faceId expire e =
     (case map_of (peNonceTable e) nonce of
        None \<Rightarrow>
          (True, e\<lparr>peNonceTable :=
             om_put nonce \<lparr>frFaceId = faceId, frExpire = expire\<rparr> (peNonceTable e)\<rparr>)
      | Some _ \<Rightarrow> (False, e))"

definition Pit_AddInterest ::
  "time \<Rightarrow> int \<Rightarrow> 'n interest \<Rightarrow> 'n pit \<Rightarrow> bool \<times> 'n pit" where
  "Pit_AddInterest now faceId i p =
     (let expire = now + iLifetime i in
      case map_of (pTable p) (iName i) of
        None \<Rightarrow>
          (let entry = snd (PitEntry_AddNonce (iNonce i) faceId expire (PitEntry_new i))
           in (True, p\<lparr>pTable := um_put (iName i) entry (pTable p)\<rparr>))
      | Some e \<Rightarrow>
          (let (added, entry) = PitEntry_AddNonce (iNonce i) faceId expire e
           in (added, p\<lparr>pTable := um_put (iName i) entry (pTable p)\<rparr>)))"

text \<open>The inner loop of \<open>ConsumeInterestWithDataName\<close>: record the unexpired faces.\<close>

fun record_faces :: "time \<Rightarrow> (32 word \<times> face_record) list \<Rightarrow> int list \<Rightarrow> int list" where
  "record_faces now [] out = out"
| "record_faces now ((_, r) # t) out =
     record_faces now t (if frExpire r > now then ss_insert (frFaceId r) out else out)"

fun consume_loop ::
  "('n, 'c) ndn \<Rightarrow> time \<Rightarrow> 'n \<Rightarrow> 'n pit_table \<Rightarrow> int list \<Rightarrow> 'n pit_table \<times> int list" where
  "consume_loop L now name [] out = ([], out)"
| "consume_loop L now name ((k, e) # t) out =
     (if nmIsPrefixOf L k name
      then consume_loop L now name t (record_faces now (peNonceTable e) out)
      else let (t', out') = consume_loop L now name t out in ((k, e) # t', out'))"

definition Pit_ConsumeInterestWithDataName ::
  "('n, 'c) ndn \<Rightarrow> time \<Rightarrow> 'n \<Rightarrow> int list \<Rightarrow> 'n pit \<Rightarrow> int list \<times> 'n pit" where
  "Pit_ConsumeInterestWithDataName L now name out p =
     (let (t, out') = consume_loop L now name (pTable p) out in (out', p\<lparr>pTable := t\<rparr>))"

text \<open>\<open>CleanUp\<close>: drop the expired nonces, and the entries left with none.\<close>

fun purge_nonces :: "time \<Rightarrow> (32 word \<times> face_record) list \<Rightarrow> (32 word \<times> face_record) list" where
  "purge_nonces now [] = []"
| "purge_nonces now ((x, r) # t) =
     (if frExpire r < now then purge_nonces now t else (x, r) # purge_nonces now t)"

fun purge_table :: "time \<Rightarrow> 'n pit_table \<Rightarrow> 'n pit_table" where
  "purge_table now [] = []"
| "purge_table now ((k, e) # t) =
     (let nonces = purge_nonces now (peNonceTable e)
      in if nonces = [] then purge_table now t
         else (k, e\<lparr>peNonceTable := nonces\<rparr>) # purge_table now t)"

text \<open>
  The timer callback. The second component is the delay of the clean-up timer it arms again
  (\<open>ScheduleCleanUp\<close>), if it does.
\<close>

definition Pit_ScheduleCleanUp :: "'n pit \<Rightarrow> time" where
  "Pit_ScheduleCleanUp p = pCleanupInterval p"

definition Pit_CleanUp :: "bool \<Rightarrow> time \<Rightarrow> 'n pit \<Rightarrow> 'n pit \<times> time option" where
  "Pit_CleanUp err now p =
     (if err then (p, None)
      else let p' = p\<lparr>pTable := purge_table now (pTable p)\<rparr>
           in (p', Some (Pit_ScheduleCleanUp p')))"

section \<open>Well-formed tables\<close>

text \<open>
  Keys are unique, every entry is filed under the name of its interest and holds at least
  one nonce, in the order of the nonce.
\<close>

definition pit_entry_ok :: "'n \<Rightarrow> 'n pit_entry \<Rightarrow> bool" where
  "pit_entry_ok k e \<longleftrightarrow>
     iName (peInterest e) = k \<and> peNonceTable e \<noteq> [] \<and> om_ok (peNonceTable e)"

definition pit_ok :: "'n pit \<Rightarrow> bool" where
  "pit_ok p \<longleftrightarrow> um_ok (pTable p) \<and> (\<forall>e \<in> set (pTable p). pit_entry_ok (fst e) (snd e))"

lemma pit_ok_new [inv_intros]: "pit_ok (Pit_new i)"
  by (simp add: pit_ok_def Pit_new_def)

lemma AddNonce_result:
  "PitEntry_AddNonce x f t e = (b, e') \<Longrightarrow>
     b = (map_of (peNonceTable e) x = None) \<and> peInterest e' = peInterest e"
  by (auto simp: PitEntry_AddNonce_def split: option.splits)

lemma AddNonce_ok:
  assumes "om_ok (peNonceTable e)" and "iName (peInterest e) = k"
  shows "pit_entry_ok k (snd (PitEntry_AddNonce x f t e))"
  using assms
  by (auto simp: PitEntry_AddNonce_def pit_entry_ok_def om.ok_put om.put_not_Nil
      split: option.splits dest: map_of_SomeD)

lemma pit_entry_ok_of:
  "pit_ok p \<Longrightarrow> map_of (pTable p) k = Some e \<Longrightarrow> pit_entry_ok k e"
  by (force simp: pit_ok_def dest: map_of_SomeD)

lemma pit_ok_AddInterest [inv_intros]:
  assumes "pit_ok p"
  shows "pit_ok (snd (Pit_AddInterest now f i p))"
proof (cases "map_of (pTable p) (iName i)")
  case None
  have "pit_entry_ok (iName i)
      (snd (PitEntry_AddNonce (iNonce i) f (now + iLifetime i) (PitEntry_new i)))"
    by (rule AddNonce_ok) (simp_all add: PitEntry_new_def)
  with None assms show ?thesis
    by (auto simp: Pit_AddInterest_def pit_ok_def Let_def um.ok_put um.entries_put)
next
  case (Some e)
  have "pit_entry_ok (iName i)
      (snd (PitEntry_AddNonce (iNonce i) f (now + iLifetime i) e))"
    by (rule AddNonce_ok) (use pit_entry_ok_of[OF assms Some] in \<open>auto simp: pit_entry_ok_def\<close>)
  with Some assms show ?thesis
    by (auto simp: Pit_AddInterest_def pit_ok_def Let_def um.ok_put um.entries_put
        split: prod.splits)
qed

lemma set_record_faces:
  "set (record_faces now t out) =
     set out \<union> {frFaceId r | x r. (x, r) \<in> set t \<and> now < frExpire r}"
  by (induction now t out rule: record_faces.induct) auto

lemma record_faces_ok [inv_intros]: "ss_ok out \<Longrightarrow> ss_ok (record_faces now t out)"
  by (induction now t out rule: record_faces.induct) auto

lemma consume_loop_table:
  "fst (consume_loop L now name t out) = filter (\<lambda>e. \<not> nmIsPrefixOf L (fst e) name) t"
  by (induction L now name t out rule: consume_loop.induct) (auto split: prod.splits)

lemma consume_loop_ok:
  "ss_ok out \<Longrightarrow> ss_ok (snd (consume_loop L now name t out))"
  by (induction L now name t out rule: consume_loop.induct)
    (auto split: prod.splits simp: record_faces_ok)

lemma consume_loop_faces:
  "set (snd (consume_loop L now name t out)) =
     set out \<union> {frFaceId r | k e x r. (k, e) \<in> set t \<and> nmIsPrefixOf L k name \<and>
                   (x, r) \<in> set (peNonceTable e) \<and> now < frExpire r}"
proof (induction L now name t out rule: consume_loop.induct)
  case (2 L now name k e t out)
  show ?case
  proof (cases "nmIsPrefixOf L k name")
    case True
    with "2.IH"(1) show ?thesis by (auto simp: set_record_faces; blast)
  next
    case False
    with "2.IH"(2) show ?thesis by (auto split: prod.splits; blast)
  qed
qed simp

lemma pit_ok_Consume [inv_intros]:
  assumes "pit_ok p"
  shows "pit_ok (snd (Pit_ConsumeInterestWithDataName L now name out p))"
  using assms consume_loop_table[of L now name "pTable p" out]
  by (auto simp: Pit_ConsumeInterestWithDataName_def pit_ok_def um.ok_filter split: prod.splits)

lemma purge_nonces_eq: "purge_nonces now t = filter (\<lambda>e. \<not> frExpire (snd e) < now) t"
  by (induction now t rule: purge_nonces.induct) auto

lemma purge_table_eq:
  "purge_table now t =
     filter (\<lambda>e. peNonceTable (snd e) \<noteq> [])
       (map (\<lambda>(k, e). (k, e\<lparr>peNonceTable := purge_nonces now (peNonceTable e)\<rparr>)) t)"
  by (induction now t rule: purge_table.induct) (auto simp: Let_def)

lemma pit_ok_CleanUp [inv_intros]:
  assumes "pit_ok p"
  shows "pit_ok (fst (Pit_CleanUp err now p))"
proof -
  have "um_ok (purge_table now (pTable p))"
    using assms unfolding purge_table_eq pit_ok_def
    by (intro um.ok_filter) (simp only: map_fst_map_snd)
  moreover have "\<forall>e \<in> set (purge_table now (pTable p)). pit_entry_ok (fst e) (snd e)"
    using assms unfolding purge_table_eq pit_ok_def
    by (force simp: pit_entry_ok_def purge_nonces_eq intro: om.ok_filter)
  ultimately show ?thesis
    using assms by (simp add: Pit_CleanUp_def pit_ok_def Let_def)
qed

section \<open>The table as a set of pending records\<close>

definition pending :: "'n pit \<Rightarrow> ('n \<times> 32 word \<times> int \<times> time) set" where
  "pending p = {(k, x, frFaceId r, frExpire r) | k e x r.
      (k, e) \<in> set (pTable p) \<and> (x, r) \<in> set (peNonceTable e)}"

lemma mem_pending:
  "(k, x, f, t) \<in> pending p \<longleftrightarrow>
    (\<exists>e r. (k, e) \<in> set (pTable p) \<and> (x, r) \<in> set (peNonceTable e) \<and>
           f = frFaceId r \<and> t = frExpire r)"
  by (auto simp: pending_def)

lemma face_record_eq:
  "r = \<lparr>frFaceId = f, frExpire = t\<rparr> \<longleftrightarrow> f = frFaceId r \<and> t = frExpire r"
  by (cases r) auto

lemma pending_iff:
  assumes "pit_ok p"
  shows "(k, x, f, t) \<in> pending p \<longleftrightarrow>
    (\<exists>e. map_of (pTable p) k = Some e \<and>
         map_of (peNonceTable e) x = Some \<lparr>frFaceId = f, frExpire = t\<rparr>)"
proof -
  have nonce: "map_of (peNonceTable e) x = Some r \<longleftrightarrow> (x, r) \<in> set (peNonceTable e)"
    if "(k, e) \<in> set (pTable p)" for e r
    using that assms by (intro om.lookup_iff) (force simp: pit_ok_def pit_entry_ok_def)
  have entry: "map_of (pTable p) k = Some e \<longleftrightarrow> (k, e) \<in> set (pTable p)" for e
    using assms by (intro um.lookup_iff) (simp add: pit_ok_def)
  show ?thesis
    unfolding mem_pending entry by (metis nonce face_record_eq)
qed

definition nonce_known :: "'n \<Rightarrow> 32 word \<Rightarrow> 'n pit \<Rightarrow> bool" where
  "nonce_known k x p \<longleftrightarrow>
     (case map_of (pTable p) k of None \<Rightarrow> False
      | Some e \<Rightarrow> map_of (peNonceTable e) x \<noteq> None)"

lemma nonce_known_pending:
  assumes "pit_ok p"
  shows "nonce_known k x p \<longleftrightarrow> (\<exists>f t. (k, x, f, t) \<in> pending p)"
proof -
  have "(\<exists>f t. z = Some \<lparr>frFaceId = f, frExpire = t\<rparr>) \<longleftrightarrow> z \<noteq> None" for z
    by (cases z) (auto simp: face_record_eq)
  then show ?thesis
    by (auto simp: nonce_known_def pending_iff[OF assms] split: option.splits)
qed

lemma AddInterest_result:
  "fst (Pit_AddInterest now f i p) = (\<not> nonce_known (iName i) (iNonce i) p)"
  by (auto simp: Pit_AddInterest_def nonce_known_def Let_def
      split: option.splits prod.splits dest: AddNonce_result)

lemma AddInterest_lookup:
  "map_of (pTable (snd (Pit_AddInterest now f i p))) =
    (map_of (pTable p))(iName i \<mapsto>
      snd (PitEntry_AddNonce (iNonce i) f (now + iLifetime i)
        (case map_of (pTable p) (iName i) of None \<Rightarrow> PitEntry_new i | Some e \<Rightarrow> e)))"
  by (auto simp: Pit_AddInterest_def Let_def kv_simps split: option.splits prod.splits)

lemma pending_AddInterest:
  assumes "pit_ok p"
  shows "pending (snd (Pit_AddInterest now f i p)) =
    (if nonce_known (iName i) (iNonce i) p then pending p
     else insert (iName i, iNonce i, f, now + iLifetime i) (pending p))"
proof (rule set4_eqI)
  fix k x g t
  note iff = pending_iff[OF assms] pending_iff[OF pit_ok_AddInterest[OF assms]]
  show "(k, x, g, t) \<in> pending (snd (Pit_AddInterest now f i p)) \<longleftrightarrow>
    (k, x, g, t) \<in> (if nonce_known (iName i) (iNonce i) p then pending p
         else insert (iName i, iNonce i, f, now + iLifetime i) (pending p))"
    by (auto simp: iff AddInterest_lookup PitEntry_AddNonce_def PitEntry_new_def
        nonce_known_def kv_simps split: option.splits if_splits)
qed

lemma pending_Consume:
  "pending (snd (Pit_ConsumeInterestWithDataName L now name out p)) =
     {q \<in> pending p. \<not> nmIsPrefixOf L (fst q) name}"
  using consume_loop_table[of L now name "pTable p" out]
  by (intro set4_eqI)
    (auto simp: Pit_ConsumeInterestWithDataName_def mem_pending split: prod.splits)

lemma faces_Consume:
  "set (fst (Pit_ConsumeInterestWithDataName L now name out p)) =
     set out \<union> {f | k x f t. (k, x, f, t) \<in> pending p \<and> nmIsPrefixOf L k name \<and> now < t}"
  using consume_loop_faces[of L now name "pTable p" out]
  by (auto simp: Pit_ConsumeInterestWithDataName_def mem_pending split: prod.splits; blast)

lemma faces_Consume_ok [inv_intros]:
  assumes "ss_ok out"
  shows "ss_ok (fst (Pit_ConsumeInterestWithDataName L now name out p))"
  using consume_loop_ok[OF assms, of L now name "pTable p"]
  by (cases "consume_loop L now name (pTable p) out")
    (simp add: Pit_ConsumeInterestWithDataName_def)

lemma purge_table_mem:
  "(k, e) \<in> set (purge_table now t) \<longleftrightarrow>
    (\<exists>d. (k, d) \<in> set t \<and> e = d\<lparr>peNonceTable := purge_nonces now (peNonceTable d)\<rparr> \<and>
         peNonceTable e \<noteq> [])"
  unfolding purge_table_eq by force

lemma CleanUp_table: "pTable (fst (Pit_CleanUp False now p)) = purge_table now (pTable p)"
  by (simp add: Pit_CleanUp_def Let_def)

lemma pending_CleanUp:
  "pending (fst (Pit_CleanUp False now p)) = {(k, x, f, t) \<in> pending p. now \<le> t}"
proof (rule set4_eqI)
  fix k x f t
  have "(k, x, f, t) \<in> pending (fst (Pit_CleanUp False now p)) \<longleftrightarrow>
      (\<exists>d r. (k, d) \<in> set (pTable p) \<and> (x, r) \<in> set (purge_nonces now (peNonceTable d)) \<and>
             f = frFaceId r \<and> t = frExpire r)"
    unfolding mem_pending CleanUp_table purge_table_mem by fastforce
  then show "(k, x, f, t) \<in> pending (fst (Pit_CleanUp False now p)) \<longleftrightarrow>
      (k, x, f, t) \<in> {(k, x, f, t) \<in> pending p. now \<le> t}"
    by (auto simp: mem_pending purge_nonces_eq not_less)
qed

section \<open>Properties\<close>

definition ask :: "'n \<Rightarrow> 32 word \<Rightarrow> time \<Rightarrow> 'n interest" where
  "ask n x t = \<lparr>iName = n, iNonce = x, iLifetime = t, iMustBeFresh = False, iWire = []\<rparr>"

text \<open>
  \<open>AddInterest\<close> reports a new Interest exactly when no record with this name and nonce
  is pending, and then adds one record (name, nonce, incoming face, now + lifetime); a
  duplicate leaves the pending set as it is. Either way the table stays well formed.
\<close>

theorem AddInterest_detects_loops:
  assumes "pit_ok p"
  shows "let (fresh, p') = Pit_AddInterest now f i p in
    fresh = (\<forall>g t. (iName i, iNonce i, g, t) \<notin> pending p) \<and>
    pending p' = (if fresh then insert (iName i, iNonce i, f, now + iLifetime i) (pending p)
                  else pending p) \<and>
    pit_ok p'"
proof (cases "Pit_AddInterest now f i p")
  case (Pair fresh p')
  then show ?thesis
    using AddInterest_result[of now f i p] pending_AddInterest[OF assms, of now f i]
      nonce_known_pending[OF assms, of "iName i" "iNonce i"]
      pit_ok_AddInterest[OF assms, of now f i]
    by simp
qed

theorem AddInterest_detects_loops_witness:
  "fst (Pit_AddInterest 5 2 (ask ''a'' 7 10) (snd (Pit_AddInterest 0 1 (ask ''a'' 7 10) (Pit_new 9))))
    = False"
proof -
  let ?p = "snd (Pit_AddInterest 0 1 (ask ''a'' 7 10) (Pit_new 9))"
  have ok: "pit_ok ?p" by (intro inv_intros)
  have "(''a'', 7, 1, 10) \<in> pending ?p"
    by (simp add: mem_pending Pit_AddInterest_def Pit_new_def PitEntry_new_def
        PitEntry_AddNonce_def ask_def)
  with AddInterest_detects_loops[OF ok, of 5 2 "ask ''a'' 7 10"] show ?thesis
    by (auto simp: ask_def split: prod.splits)
qed

text \<open>
  \<open>ConsumeInterestWithDataName\<close> adds to the output set exactly the faces of the
  unexpired records whose name is a prefix of the Data name, removes every record under such
  a name (expired or not) and no other, and keeps the table well formed.
\<close>

theorem Consume_answers_pending:
  assumes "pit_ok p" and "ss_ok out"
  shows "let (out', p') = Pit_ConsumeInterestWithDataName L now name out p in
    set out' = set out \<union>
      {f. \<exists>k x t. (k, x, f, t) \<in> pending p \<and> nmIsPrefixOf L k name \<and> now < t} \<and>
    ss_ok out' \<and>
    pending p' = {(k, x, f, t) \<in> pending p. \<not> nmIsPrefixOf L k name} \<and>
    pit_ok p'"
proof -
  let ?r = "Pit_ConsumeInterestWithDataName L now name out p"
  have "ss_ok (fst ?r)" and "pit_ok (snd ?r)"
    using assms by (auto intro: inv_intros)
  then show ?thesis
    using faces_Consume[of L now name out p] pending_Consume[of L now name out p]
    by (auto split: prod.splits)
qed

theorem Consume_answers_pending_witness:
  "set (fst (Pit_ConsumeInterestWithDataName (list_ndn [] [] []) 5 [''a'', ''b''] []
      (snd (Pit_AddInterest 0 1 (ask [''a''] 7 10) (Pit_new 9))))) = {1}"
proof -
  let ?p = "snd (Pit_AddInterest 0 1 (ask [''a''] 7 10) (Pit_new 9)) :: string list pit"
  have ok: "pit_ok ?p" by (intro inv_intros)
  have "pending ?p = {([''a''], 7, 1, 10)}"
    by (auto simp: mem_pending Pit_AddInterest_def Pit_new_def PitEntry_new_def
        PitEntry_AddNonce_def ask_def)
  with Consume_answers_pending[OF ok, of "[]" "list_ndn [] [] []" 5 "[''a'', ''b'']"]
  show ?thesis by (auto simp: list_ndn_def split: prod.splits)
qed

text \<open>
  A Data packet answers each Interest at most once: after a Data name has been consumed,
  consuming the same name again at any later time adds no face to the output set.
\<close>

theorem Consume_at_most_once:
  assumes "ss_ok out"
  shows "fst (Pit_ConsumeInterestWithDataName L later name out
      (snd (Pit_ConsumeInterestWithDataName L now name out' p))) = out"
proof (rule ss_ok_unique)
  show "set (fst (Pit_ConsumeInterestWithDataName L later name out
      (snd (Pit_ConsumeInterestWithDataName L now name out' p)))) = set out"
    by (auto simp: faces_Consume pending_Consume)
qed (use assms in \<open>auto intro: inv_intros\<close>)

theorem Consume_at_most_once_witness:
  "fst (Pit_ConsumeInterestWithDataName (list_ndn [] [] []) 6 [''a''] []
     (snd (Pit_ConsumeInterestWithDataName (list_ndn [] [] []) 5 [''a''] []
        (snd (Pit_AddInterest 0 1 (ask [''a''] 7 10) (Pit_new 9)))))) = []"
  by (rule Consume_at_most_once) simp

text \<open>
  C23: The periodic clean-up cannot be observed by \<open>ConsumeInterestWithDataName\<close>: a table
  cleaned up at any time before gives the same output faces as the table left alone.
\<close>

theorem CleanUp_transparent:
  assumes "ss_ok out" and "earlier \<le> now"
  shows "fst (Pit_ConsumeInterestWithDataName L now name out (fst (Pit_CleanUp err earlier p))) =
         fst (Pit_ConsumeInterestWithDataName L now name out p)"
proof (cases err)
  case True
  then show ?thesis by (simp add: Pit_CleanUp_def)
next
  case False
  show ?thesis
  proof (rule ss_ok_unique)
    show "set (fst (Pit_ConsumeInterestWithDataName L now name out (fst (Pit_CleanUp err earlier p)))) =
      set (fst (Pit_ConsumeInterestWithDataName L now name out p))"
      using False assms(2) by (auto simp: faces_Consume pending_CleanUp; force)
  qed (use assms in \<open>auto intro: inv_intros\<close>)
qed

theorem CleanUp_transparent_witness:
  "fst (Pit_ConsumeInterestWithDataName (list_ndn [] [] []) 20 [''a''] []
     (fst (Pit_CleanUp False 15 (snd (Pit_AddInterest 0 1 (ask [''a''] 7 10) (Pit_new 9)))))) =
   fst (Pit_ConsumeInterestWithDataName (list_ndn [] [] []) 20 [''a''] []
     (snd (Pit_AddInterest 0 1 (ask [''a''] 7 10) (Pit_new 9))))"
  by (rule CleanUp_transparent) simp_all

text \<open>
  The iteration order of the hash table is irrelevant: two tables with the same entries
  in any order give the same output faces and leave the same entries.
\<close>

theorem Consume_order_irrelevant:
  assumes "mset (pTable p) = mset (pTable q)" and "ss_ok out"
  shows "fst (Pit_ConsumeInterestWithDataName L now name out p) =
         fst (Pit_ConsumeInterestWithDataName L now name out q) \<and>
       mset (pTable (snd (Pit_ConsumeInterestWithDataName L now name out p))) =
         mset (pTable (snd (Pit_ConsumeInterestWithDataName L now name out q)))"
proof
  have "pending p = pending q"
    using mset_eq_setD[OF assms(1)] by (simp add: pending_def)
  then show "fst (Pit_ConsumeInterestWithDataName L now name out p) =
      fst (Pit_ConsumeInterestWithDataName L now name out q)"
    using assms(2) by (intro ss_ok_unique) (auto simp: faces_Consume intro: inv_intros)
  show "mset (pTable (snd (Pit_ConsumeInterestWithDataName L now name out p))) =
      mset (pTable (snd (Pit_ConsumeInterestWithDataName L now name out q)))"
    using assms(1) consume_loop_table[of L now name "pTable p" out]
      consume_loop_table[of L now name "pTable q" out]
    by (auto simp: Pit_ConsumeInterestWithDataName_def mset_filter split: prod.splits)
qed

theorem Consume_order_irrelevant_witness:
  "fst (Pit_ConsumeInterestWithDataName (list_ndn [] [] []) 1 [''a''] []
      \<lparr>pTable = [([''a''], PitEntry_new (ask [''a''] 1 1)), ([], PitEntry_new (ask [] 1 1))],
       pCleanupInterval = 1\<rparr>) =
   fst (Pit_ConsumeInterestWithDataName (list_ndn [] [] []) 1 [''a''] []
      \<lparr>pTable = [([], PitEntry_new (ask [] 1 1)), ([''a''], PitEntry_new (ask [''a''] 1 1))],
       pCleanupInterval = 1\<rparr>)"
  by (rule Consume_order_irrelevant [THEN conjunct1]) simp_all

end
