(* ===== verification/Fib.thy ===== *)
theory Fib
  imports Ndn
begin

text \<open>
  The Forwarding Information Base (\<^verbatim>\<open>core/fib.h\<close>, \<^verbatim>\<open>core/fib.cc\<close>): per prefix,
  the set of faces Interests under it are forwarded to. \<open>routes\<close> reads the table as a set
  of (prefix, face) pairs, which \<open>AddRoute\<close> and \<open>CleanUp\<close> extend and restrict, and
  \<open>LookUp\<close> is the set of all faces routed at any prefix of the name.
\<close>

section \<open>State and operations\<close>

type_synonym 'n fib = "('n \<times> int list) list"

definition Fib_AddRoute :: "'n \<Rightarrow> int \<Rightarrow> 'n fib \<Rightarrow> 'n fib" where
  "Fib_AddRoute prefix faceId fib =
     um_put prefix
       (ss_insert faceId (case map_of fib prefix of None \<Rightarrow> [] | Some faces \<Rightarrow> faces)) fib"

fun Fib_CleanUp :: "int \<Rightarrow> 'n fib \<Rightarrow> 'n fib" where
  "Fib_CleanUp faceId [] = []"
| "Fib_CleanUp faceId ((k, faces) # t) =
     (let faces' = ss_erase faceId faces
      in if faces' = [] then Fib_CleanUp faceId t else (k, faces') # Fib_CleanUp faceId t)"

text \<open>
  The loop of \<open>LookUp\<close> for the prefix lengths \<open>i\<close>, \<open>i - 1\<close>, \<dots>, \<open>0\<close>: it goes on after
  a match.
\<close>

definition lookup_visit :: "('n, 'c) ndn \<Rightarrow> 'n fib \<Rightarrow> 'n \<Rightarrow> nat \<Rightarrow> int list \<Rightarrow> int list" where
  "lookup_visit L fib name i out =
     (case map_of fib (nmGetPrefix L name i) of
        None \<Rightarrow> out
      | Some faces \<Rightarrow> ss_insert_all faces out)"

fun lookup_loop :: "('n, 'c) ndn \<Rightarrow> 'n fib \<Rightarrow> 'n \<Rightarrow> nat \<Rightarrow> int list \<Rightarrow> int list" where
  "lookup_loop L fib name 0 out = lookup_visit L fib name 0 out"
| "lookup_loop L fib name (Suc i) out =
     lookup_loop L fib name i (lookup_visit L fib name (Suc i) out)"

definition Fib_LookUp :: "('n, 'c) ndn \<Rightarrow> 'n \<Rightarrow> int list \<Rightarrow> 'n fib \<Rightarrow> int list" where
  "Fib_LookUp L name out fib = lookup_loop L fib name (nmSize L name) out"

section \<open>Well-formed tables\<close>

definition fib_ok :: "'n fib \<Rightarrow> bool" where
  "fib_ok fib \<longleftrightarrow> um_ok fib \<and> (\<forall>e \<in> set fib. ss_ok (snd e) \<and> snd e \<noteq> [])"

definition routes :: "'n fib \<Rightarrow> ('n \<times> int) set" where
  "routes fib = {(k, f). \<exists>faces. (k, faces) \<in> set fib \<and> f \<in> set faces}"

lemma mem_routes: "(k, f) \<in> routes fib \<longleftrightarrow> (\<exists>faces. (k, faces) \<in> set fib \<and> f \<in> set faces)"
  by (simp add: routes_def)

lemma routes_lookup:
  "fib_ok fib \<Longrightarrow> (k, f) \<in> routes fib \<longleftrightarrow> (\<exists>faces. map_of fib k = Some faces \<and> f \<in> set faces)"
  by (simp add: mem_routes fib_ok_def)

lemma fib_ok_Nil [inv_intros]: "fib_ok []"
  by (simp add: fib_ok_def)

lemma routes_Nil [simp]: "routes [] = {}"
  by (simp add: routes_def)

lemma fib_ok_AddRoute [inv_intros]:
  assumes "fib_ok fib"
  shows "fib_ok (Fib_AddRoute k f fib)"
proof -
  have "ss_ok (case map_of fib k of None \<Rightarrow> [] | Some faces \<Rightarrow> faces)"
    using assms by (auto simp: fib_ok_def split: option.splits dest!: map_of_SomeD)
  with assms show ?thesis
    by (auto simp: fib_ok_def Fib_AddRoute_def um.ok_put um.entries_put)
qed

lemma routes_AddRoute:
  assumes "fib_ok fib"
  shows "routes (Fib_AddRoute k f fib) = insert (k, f) (routes fib)"
proof -
  have "(a, b) \<in> routes (Fib_AddRoute k f fib) \<longleftrightarrow>
      (a, b) = (k, f) \<or> (a, b) \<in> routes fib" for a b
    unfolding routes_lookup[OF assms] routes_lookup[OF fib_ok_AddRoute[OF assms]]
    by (auto simp: Fib_AddRoute_def kv_simps split: option.splits)
  then show ?thesis by auto
qed

lemma CleanUp_eq:
  "Fib_CleanUp f fib =
     filter (\<lambda>e. snd e \<noteq> []) (map (\<lambda>(k, faces). (k, ss_erase f faces)) fib)"
  by (induction f fib rule: Fib_CleanUp.induct) (auto simp: Let_def)

lemma fib_ok_CleanUp [inv_intros]:
  assumes "fib_ok fib"
  shows "fib_ok (Fib_CleanUp f fib)"
proof -
  have "um_ok (Fib_CleanUp f fib)"
    using assms unfolding CleanUp_eq fib_ok_def
    by (intro um.ok_filter) (simp only: map_fst_map_snd)
  moreover have "\<forall>e \<in> set (Fib_CleanUp f fib). ss_ok (snd e) \<and> snd e \<noteq> []"
    using assms unfolding CleanUp_eq fib_ok_def by force
  ultimately show ?thesis by (simp add: fib_ok_def)
qed

lemma mem_CleanUp:
  "(k, faces) \<in> set (Fib_CleanUp f fib) \<longleftrightarrow>
    (\<exists>faces'. (k, faces') \<in> set fib \<and> faces = ss_erase f faces' \<and> faces \<noteq> [])"
  unfolding CleanUp_eq by force

lemma routes_CleanUp: "routes (Fib_CleanUp f fib) = {r \<in> routes fib. snd r \<noteq> f}"
proof (rule set2_eqI)
  fix a b
  show "(a, b) \<in> routes (Fib_CleanUp f fib) \<longleftrightarrow> (a, b) \<in> {r \<in> routes fib. snd r \<noteq> f}"
    (is "?l \<longleftrightarrow> ?r")
  proof
    assume ?l
    then obtain faces where "(a, faces) \<in> set fib" and "b \<in> set (ss_erase f faces)"
      unfolding mem_routes mem_CleanUp by blast
    then show ?r by (auto simp: mem_routes)
  next
    assume ?r
    then obtain faces where "(a, faces) \<in> set fib" and b: "b \<in> set (ss_erase f faces)"
      by (auto simp: mem_routes)
    moreover from b have "ss_erase f faces \<noteq> []" by (metis emptyE set_empty)
    ultimately show ?l unfolding mem_routes mem_CleanUp by blast
  qed
qed

lemma lookup_visit_ok: "ss_ok out \<Longrightarrow> ss_ok (lookup_visit L fib name i out)"
  by (auto simp: lookup_visit_def split: option.splits)

lemma set_lookup_visit:
  "fib_ok fib \<Longrightarrow>
   set (lookup_visit L fib name i out) = set out \<union> {f. (nmGetPrefix L name i, f) \<in> routes fib}"
  by (auto simp: lookup_visit_def routes_lookup split: option.splits)

lemma lookup_loop_ok: "ss_ok out \<Longrightarrow> ss_ok (lookup_loop L fib name i out)"
  by (induction i arbitrary: out) (auto simp: lookup_visit_ok)

lemma set_lookup_loop:
  assumes "fib_ok fib"
  shows "set (lookup_loop L fib name i out) =
    set out \<union> {f. \<exists>j \<le> i. (nmGetPrefix L name j, f) \<in> routes fib}"
proof (induction i arbitrary: out)
  case (Suc i)
  show ?case
    by (auto simp: Suc.IH set_lookup_visit[OF assms] le_Suc_eq)
qed (simp add: set_lookup_visit[OF assms])

lemma LookUp_ok [inv_intros]: "ss_ok out \<Longrightarrow> ss_ok (Fib_LookUp L name out fib)"
  by (simp add: Fib_LookUp_def lookup_loop_ok)

lemma set_LookUp:
  assumes "fib_ok fib" and "name_laws L"
  shows "set (Fib_LookUp L name out fib) =
    set out \<union> {f. \<exists>k. nmIsPrefixOf L k name \<and> (k, f) \<in> routes fib}"
  by (auto simp: Fib_LookUp_def set_lookup_loop[OF assms(1)] prefix_iff[OF assms(2)])

section \<open>Properties\<close>

text \<open>
  \<open>LookUp\<close> adds to the output set the faces of every route whose prefix is a prefix of
  the name, at whatever length it matches, and nothing else.
\<close>

theorem LookUp_matches_all_prefixes:
  assumes "fib_ok fib" and "name_laws L" and "ss_ok out"
  shows "ss_ok (Fib_LookUp L name out fib) \<and>
    set (Fib_LookUp L name out fib) =
      set out \<union> {f. \<exists>k. nmIsPrefixOf L k name \<and> (k, f) \<in> routes fib}"
  using assms by (auto simp: set_LookUp intro: inv_intros)

theorem LookUp_matches_all_prefixes_witness:
  "set (Fib_LookUp (list_ndn [] [] []) [''a'', ''b''] []
      (Fib_AddRoute [''a''] 2 (Fib_AddRoute [] 1 []))) = {1, 2}"
proof -
  let ?fib = "Fib_AddRoute [''a''] 2 (Fib_AddRoute [] 1 [])"
  have ok: "fib_ok ?fib" by (intro inv_intros)
  have "routes ?fib = {([], 1), ([''a''], 2)}"
    by (auto simp: routes_AddRoute inv_intros)
  then have "(\<exists>k. take (length k) [''a'', ''b''] = k \<and> (k, f) \<in> routes ?fib) \<longleftrightarrow>
      f \<in> {1, 2}" for f
    by (cases "f = 1"; cases "f = 2") auto
  then show ?thesis
    using LookUp_matches_all_prefixes
      [OF ok list_ndn_name_laws [of "[]" "[]" "[]"], where out = "[]" and name = "[''a'', ''b'']"]
    by (simp only: list_ndn_simps) (simp add: Collect_disj_eq insert_commute)
qed

text \<open>
  The comment in \<open>LookUp\<close> says that it stops at the first (longest) match. It does not:
  with routes for the root prefix and for a longer one, the faces of the shorter prefix are
  returned as well, so the result is not that of a longest-prefix match.
\<close>

definition longest_match :: "('n, 'c) ndn \<Rightarrow> 'n fib \<Rightarrow> 'n \<Rightarrow> int set" where
  "longest_match L fib name =
     (case find (\<lambda>i. map_of fib (nmGetPrefix L name i) \<noteq> None) (rev [0..<Suc (nmSize L name)]) of
        None \<Rightarrow> {}
      | Some i \<Rightarrow> set (the (map_of fib (nmGetPrefix L name i))))"

theorem LookUp_is_not_longest_match:
  "\<exists>(L :: (string list, string) ndn) fib name.
     name_laws L \<and> fib_ok fib \<and> longest_match L fib name = {2} \<and>
     Fib_LookUp L name [] fib = [1, 2]"
proof -
  let ?L = "list_ndn [] [] []" and ?fib = "Fib_AddRoute [''a''] 2 (Fib_AddRoute [] 1 [])"
  have "fib_ok ?fib" by (intro inv_intros)
  moreover have "longest_match ?L ?fib [''a'', ''b''] = {2}"
    and "Fib_LookUp ?L [''a'', ''b''] [] ?fib = [1, 2]"
    by (simp_all add: longest_match_def Fib_LookUp_def lookup_visit_def list_ndn_def
        Fib_AddRoute_def ss_insert_all_def)
  ultimately show ?thesis using list_ndn_name_laws by blast
qed

text \<open>
  \<open>AddRoute\<close> adds exactly one route, \<open>CleanUp\<close> removes exactly the routes to the
  given face; both keep the prefixes unique and no prefix without a face, and after
  \<open>CleanUp\<close> no look-up returns the face.
\<close>

theorem routes_updates:
  assumes "fib_ok fib"
  shows "fib_ok (Fib_AddRoute k f fib) \<and>
    routes (Fib_AddRoute k f fib) = insert (k, f) (routes fib) \<and>
    fib_ok (Fib_CleanUp f fib) \<and>
    routes (Fib_CleanUp f fib) = {r \<in> routes fib. snd r \<noteq> f} \<and>
    f \<notin> set (Fib_LookUp L name [] (Fib_CleanUp f fib))"
  using assms
  by (auto simp: routes_AddRoute routes_CleanUp Fib_LookUp_def
      set_lookup_loop[OF fib_ok_CleanUp] intro: inv_intros)

theorem routes_updates_witness:
  "routes (Fib_CleanUp 1 (Fib_AddRoute ''p'' 1 [])) = {}"
proof -
  have ok: "fib_ok (Fib_AddRoute ''p'' 1 [])" by (intro inv_intros)
  have "routes (Fib_AddRoute ''p'' 1 []) = {(''p'', 1)}"
    by (simp add: routes_AddRoute inv_intros)
  moreover have "routes (Fib_CleanUp 1 (Fib_AddRoute ''p'' 1 [])) =
      {r \<in> routes (Fib_AddRoute ''p'' 1 []). snd r \<noteq> 1}"
    using routes_updates[OF ok, where f = 1] by blast
  ultimately show ?thesis by auto
qed

end
