(* ===== verification/Cache.thy ===== *)
theory Cache
  imports Ndn
begin

text \<open>
  The content store (\<^verbatim>\<open>core/cache-manager.h\<close>, \<^verbatim>\<open>core/cache-manager.cc\<close>): a FIFO queue
  of Data packets bounded by a number of bytes. \<open>m_count\<close> and \<open>m_limit\<close> are 32-bit
  \<open>int\<close>s compared with 64-bit \<open>size_t\<close>s; every conversion the compiler inserts is written
  out. For a limit that is not negative the arithmetic never wraps, the queue never exceeds
  the limit, and neither the assertion nor a pop of the empty queue can happen
  (\<open>Insert_fifo_bounded\<close>).
\<close>

section \<open>State\<close>

record 'n cache_entry =
  ceData :: "'n data"
  ceSize :: int
  ceExpire :: time

record 'n cache =
  cmQueue :: "'n cache_entry list"
  cmCount :: int
  cmLimit :: int

definition CacheManager_new :: "int \<Rightarrow> 'n cache" where
  "CacheManager_new limit = \<lparr>cmQueue = [], cmCount = 0, cmLimit = limit\<rparr>"

definition CACHE_PURGE_INTERVAL :: time where
  "CACHE_PURGE_INTERVAL = 3600000 * 1000000"

definition data_size :: "('n, 'c) ndn \<Rightarrow> 'n data \<Rightarrow> int" where
  "data_size L d = int (length (encodeData L d))"

definition CacheEntry_new :: "('n, 'c) ndn \<Rightarrow> 'n data \<Rightarrow> time \<Rightarrow> 'n cache_entry" where
  "CacheEntry_new L d e = \<lparr>ceData = d, ceSize = data_size L d, ceExpire = e\<rparr>"

definition CacheManager_GetLimit :: "'n cache \<Rightarrow> int" where
  "CacheManager_GetLimit c = cmLimit c"

section \<open>Operations\<close>

definition entry_matches :: "('n, 'c) ndn \<Rightarrow> time \<Rightarrow> 'n interest \<Rightarrow> 'n cache_entry \<Rightarrow> bool" where
  "entry_matches L now i e \<longleftrightarrow>
     nmIsPrefixOf L (iName i) (dName (ceData e)) \<and>
     (\<not> iMustBeFresh i \<or> (iMustBeFresh i \<and> ceExpire e > now))"

fun find_loop ::
  "('n, 'c) ndn \<Rightarrow> time \<Rightarrow> 'n interest \<Rightarrow> 'n cache_entry list \<Rightarrow> 'n data option" where
  "find_loop L now i [] = None"
| "find_loop L now i (e # q) =
     (if entry_matches L now i e then Some (ceData e) else find_loop L now i q)"

definition CacheManager_FindMatchingData ::
  "('n, 'c) ndn \<Rightarrow> time \<Rightarrow> 'n interest \<Rightarrow> 'n cache \<Rightarrow> 'n data option" where
  "CacheManager_FindMatchingData L now i c = find_loop L now i (cmQueue c)"

text \<open>
  The eviction loop of \<open>Insert\<close>, for the condition \<open>m_count + sz > m_limit\<close> in
  \<open>size_t\<close>, over the queue and \<open>m_count\<close>.
\<close>

definition over_limit :: "int \<Rightarrow> int \<Rightarrow> int \<Rightarrow> bool" where
  "over_limit limit sz cnt \<longleftrightarrow> to_size_t (to_size_t cnt + sz) > to_size_t limit"

fun evict_loop ::
  "int \<Rightarrow> int \<Rightarrow> 'n cache_entry list \<Rightarrow> int \<Rightarrow> ('n cache_entry list \<times> int) result" where
  "evict_loop limit sz [] cnt =
     (if over_limit limit sz cnt then Inl (UndefinedBehaviour ''front of empty deque'')
      else Inr ([], cnt))"
| "evict_loop limit sz (e # q) cnt =
     (if over_limit limit sz cnt
      then let cnt' = to_int32 (to_size_t (to_size_t cnt - ceSize e))
           in if cnt' < 0 then Inl AssertionFailed else evict_loop limit sz q cnt'
      else Inr (e # q, cnt))"

definition CacheManager_Insert ::
  "('n, 'c) ndn \<Rightarrow> time \<Rightarrow> 'n data \<Rightarrow> 'n cache \<Rightarrow> 'n cache result" where
  "CacheManager_Insert L now d c =
     (let expire = now + dFreshness d; sz = data_size L d in
      if sz > to_size_t (cmLimit c) then Inr c
      else and_then (evict_loop (cmLimit c) sz (cmQueue c) (cmCount c))
        (\<lambda>(q, cnt).
          let entry = CacheEntry_new L d expire in
          Inr (c\<lparr>cmQueue := q @ [entry],
                 cmCount := to_int32 (to_size_t (to_size_t cnt + ceSize entry))\<rparr>)))"

fun purge_loop ::
  "time \<Rightarrow> 'n cache_entry list \<Rightarrow> int \<Rightarrow> 'n cache_entry list \<times> int" where
  "purge_loop now [] cnt = ([], cnt)"
| "purge_loop now (e # q) cnt =
     (if ceExpire e < now
      then purge_loop now q (to_int32 (to_size_t (to_size_t cnt - ceSize e)))
      else let (q', cnt') = purge_loop now q cnt in (e # q', cnt'))"

definition CacheManager_CleanUp :: "bool \<Rightarrow> time \<Rightarrow> 'n cache \<Rightarrow> 'n cache \<times> time option" where
  "CacheManager_CleanUp err now c =
     (if err then (c, None)
      else let (q, cnt) = purge_loop now (cmQueue c) (cmCount c)
           in (c\<lparr>cmQueue := q, cmCount := cnt\<rparr>, Some CACHE_PURGE_INTERVAL))"

section \<open>The byte count is exact and within the limit\<close>

definition bytes_of :: "'n cache_entry list \<Rightarrow> int" where
  "bytes_of q = sum_list (map ceSize q)"

definition cache_ok :: "'n cache \<Rightarrow> bool" where
  "cache_ok c \<longleftrightarrow> cmCount c = bytes_of (cmQueue c) \<and> (\<forall>e \<in> set (cmQueue c). 0 \<le> ceSize e) \<and>
     bytes_of (cmQueue c) \<le> cmLimit c \<and> cmLimit c < 2 ^ 31"

lemma bytes_of_simps [simp]:
  "bytes_of [] = 0"
  "bytes_of (e # q) = ceSize e + bytes_of q"
  "bytes_of (q @ r) = bytes_of q + bytes_of r"
  by (simp_all add: bytes_of_def)

lemma bytes_of_nonneg: "\<forall>e \<in> set q. 0 \<le> ceSize e \<Longrightarrow> 0 \<le> bytes_of q"
  by (induction q) auto

lemma bytes_of_filter:
  "\<forall>e \<in> set q. 0 \<le> ceSize e \<Longrightarrow> bytes_of (filter P q) \<le> bytes_of q"
  by (induction q) auto

lemma data_size_nonneg: "0 \<le> data_size L d"
  by (simp add: data_size_def)

text \<open>In the range of the invariant no conversion changes a value.\<close>

lemma to_size_t_small: "0 \<le> x \<Longrightarrow> x < 2 ^ 33 \<Longrightarrow> to_size_t x = x"
  by (rule to_size_t_id) auto

lemma to_int32_small: "0 \<le> x \<Longrightarrow> x < 2 ^ 31 \<Longrightarrow> to_int32 x = x"
  by (rule to_int32_id) auto

lemma over_limit_iff:
  assumes "0 \<le> cnt" and "cnt < 2 ^ 31" and "0 \<le> sz" and "sz < 2 ^ 31"
    and "0 \<le> limit" and "limit < 2 ^ 31"
  shows "over_limit limit sz cnt \<longleftrightarrow> limit < cnt + sz"
  using assms by (simp add: over_limit_def to_size_t_small)

lemma evict_loop_fifo:
  assumes "\<forall>e \<in> set q. 0 \<le> ceSize e" and "bytes_of q < 2 ^ 31"
    and "0 \<le> sz" and "sz \<le> limit" and "limit < 2 ^ 31"
  shows "\<exists>k \<le> length q.
    evict_loop limit sz q (bytes_of q) = Inr (drop k q, bytes_of (drop k q)) \<and>
    bytes_of (drop k q) + sz \<le> limit \<and> (\<forall>j < k. limit < bytes_of (drop j q) + sz)"
  using assms
proof (induction q)
  case Nil
  then show ?case by (auto simp: over_limit_iff)
next
  case (Cons e q)
  let ?n = "bytes_of (e # q)"
  have q: "0 \<le> bytes_of q" "0 \<le> ceSize e" using Cons.prems(1) by (auto intro: bytes_of_nonneg)
  have over: "over_limit limit sz ?n \<longleftrightarrow> limit < ?n + sz"
    using Cons.prems q by (intro over_limit_iff) auto
  show ?case
  proof (cases "limit < ?n + sz")
    case True
    have "to_int32 (to_size_t (to_size_t ?n - ceSize e)) = bytes_of q"
      using Cons.prems q by (simp add: to_size_t_small to_int32_small)
    then have step: "evict_loop limit sz (e # q) ?n = evict_loop limit sz q (bytes_of q)"
      using True over q by (simp add: Let_def)
    obtain k where "k \<le> length q"
      and "evict_loop limit sz q (bytes_of q) = Inr (drop k q, bytes_of (drop k q))"
      and "bytes_of (drop k q) + sz \<le> limit" and "\<forall>j < k. limit < bytes_of (drop j q) + sz"
      using Cons.IH Cons.prems q by auto
    with step True show ?thesis
      by (intro exI[of _ "Suc k"]) (auto simp: less_Suc_eq_0_disj)
  next
    case False
    with over show ?thesis by (intro exI[of _ 0]) simp
  qed
qed

lemma Insert_ok:
  assumes "cache_ok c"
  obtains "data_size L d > cmLimit c" and "CacheManager_Insert L now d c = Inr c"
  | k where "data_size L d \<le> cmLimit c" and "k \<le> length (cmQueue c)"
    and "CacheManager_Insert L now d c = Inr (c\<lparr>
        cmQueue := drop k (cmQueue c) @ [CacheEntry_new L d (now + dFreshness d)],
        cmCount := bytes_of (drop k (cmQueue c)) + data_size L d\<rparr>)"
    and "bytes_of (drop k (cmQueue c)) + data_size L d \<le> cmLimit c"
    and "\<forall>j < k. cmLimit c < bytes_of (drop j (cmQueue c)) + data_size L d"
proof -
  let ?sz = "data_size L d" and ?q = "cmQueue c"
  have ok: "\<forall>e \<in> set ?q. 0 \<le> ceSize e" "cmCount c = bytes_of ?q" "bytes_of ?q \<le> cmLimit c"
    "cmLimit c < 2 ^ 31" using assms by (auto simp: cache_ok_def)
  have lim: "to_size_t (cmLimit c) = cmLimit c"
    using ok bytes_of_nonneg[OF ok(1)] by (intro to_size_t_small) auto
  show thesis
  proof (cases "?sz > cmLimit c")
    case True
    then show thesis using that(1) lim by (simp add: CacheManager_Insert_def Let_def)
  next
    case False
    with ok obtain k where k: "k \<le> length ?q"
      "evict_loop (cmLimit c) ?sz ?q (bytes_of ?q) = Inr (drop k ?q, bytes_of (drop k ?q))"
      "bytes_of (drop k ?q) + ?sz \<le> cmLimit c"
      "\<forall>j < k. cmLimit c < bytes_of (drop j ?q) + ?sz"
      using evict_loop_fifo[of ?q ?sz "cmLimit c"] data_size_nonneg[of L d] by auto
    have "0 \<le> bytes_of (drop k ?q)"
      using ok(1) by (intro bytes_of_nonneg) (auto dest: in_set_dropD)
    then have "to_int32 (to_size_t (to_size_t (bytes_of (drop k ?q)) + ?sz)) =
        bytes_of (drop k ?q) + ?sz"
      using k ok data_size_nonneg[of L d] by (simp add: to_size_t_small to_int32_small)
    with that(2) k False show thesis
      by (simp add: CacheManager_Insert_def lim ok Let_def CacheEntry_new_def)
  qed
qed

lemma cache_ok_new [inv_intros]: "0 \<le> limit \<Longrightarrow> limit < 2 ^ 31 \<Longrightarrow> cache_ok (CacheManager_new limit)"
  by (simp add: cache_ok_def CacheManager_new_def)

lemma cache_ok_Insert:
  assumes "cache_ok c"
  shows "\<exists>c'. CacheManager_Insert L now d c = Inr c' \<and> cache_ok c' \<and> cmLimit c' = cmLimit c"
  using assms
  by (rule Insert_ok[of c L d now])
    (use assms in \<open>auto simp: cache_ok_def CacheEntry_new_def data_size_nonneg dest: in_set_dropD\<close>)

lemma purge_loop_eq:
  assumes "\<forall>e \<in> set q. 0 \<le> ceSize e" and "bytes_of q \<le> cnt" and "cnt < 2 ^ 31"
  shows "purge_loop now q cnt =
    (filter (\<lambda>e. \<not> ceExpire e < now) q,
     cnt - bytes_of (filter (\<lambda>e. ceExpire e < now) q))"
  using assms
proof (induction q arbitrary: cnt)
  case (Cons e q)
  have "0 \<le> bytes_of q" "0 \<le> ceSize e" using Cons.prems(1) by (auto intro: bytes_of_nonneg)
  then have "to_int32 (to_size_t (to_size_t cnt - ceSize e)) = cnt - ceSize e"
    using Cons.prems by (simp add: to_size_t_small to_int32_small)
  with Cons \<open>0 \<le> ceSize e\<close> show ?case by (simp split: prod.splits)
qed simp

lemma bytes_of_partition:
  "bytes_of q = bytes_of (filter P q) + bytes_of (filter (\<lambda>e. \<not> P e) q)"
  by (induction q) auto

lemma CleanUp_ok [inv_intros]:
  assumes "cache_ok c"
  shows "cache_ok (fst (CacheManager_CleanUp err now c))"
proof -
  have "\<forall>e \<in> set (cmQueue c). 0 \<le> ceSize e" using assms by (simp add: cache_ok_def)
  then show ?thesis
    using assms purge_loop_eq[of "cmQueue c" "cmCount c" now]
      bytes_of_partition[of "cmQueue c" "\<lambda>e. ceExpire e < now"]
      bytes_of_filter[of "cmQueue c" "\<lambda>e. \<not> ceExpire e < now"]
    by (auto simp: CacheManager_CleanUp_def cache_ok_def split: prod.splits)
qed

lemma find_loop_Some:
  "find_loop L now i q = Some d \<longleftrightarrow>
    (\<exists>pre e post. q = pre @ e # post \<and> d = ceData e \<and> entry_matches L now i e \<and>
       (\<forall>x \<in> set pre. \<not> entry_matches L now i x))"
proof (induction q)
  case (Cons a q)
  show ?case
  proof (cases "entry_matches L now i a")
    case True
    then show ?thesis by (auto simp: Cons_eq_append_conv intro: exI[of _ "[]"])
  next
    case False
    with Cons.IH show ?thesis
      by (auto simp: Cons_eq_append_conv) (metis set_ConsD)+
  qed
qed simp

lemma find_loop_None:
  "find_loop L now i q = None \<longleftrightarrow> (\<forall>e \<in> set q. \<not> entry_matches L now i e)"
  by (induction q) auto

lemma find_loop_hit: "find_loop L now i q = Some d \<Longrightarrow> \<exists>e \<in> set q. ceData e = d \<and> entry_matches L now i e"
  by (induction q) (auto split: if_splits)

lemma find_loop_append:
  "find_loop L now i (q @ [e]) = (case find_loop L now i q of
     None \<Rightarrow> if entry_matches L now i e then Some (ceData e) else None | Some d \<Rightarrow> Some d)"
  by (induction q) auto

section \<open>Properties\<close>

text \<open>
  C24: \<open>Insert\<close> on a well-formed cache always returns: no assertion fails and no pop hits an
  empty queue. Data larger than the limit leaves the cache as it is; otherwise the oldest
  entries are dropped, as few as needed, the new entry goes to the back, and the byte count
  stays exact and within the limit.
\<close>

theorem Insert_fifo_bounded:
  assumes "cache_ok c"
  shows "\<exists>c'. CacheManager_Insert L now d c = Inr c' \<and> cache_ok c' \<and> cmLimit c' = cmLimit c \<and>
    (if cmLimit c < data_size L d then c' = c
     else \<exists>k \<le> length (cmQueue c).
       cmQueue c' = drop k (cmQueue c) @ [CacheEntry_new L d (now + dFreshness d)] \<and>
       (\<forall>j < k. cmLimit c < bytes_of (drop j (cmQueue c)) + data_size L d))"
proof -
  obtain c' where c': "CacheManager_Insert L now d c = Inr c'" "cache_ok c'" "cmLimit c' = cmLimit c"
    using cache_ok_Insert[OF assms] by blast
  show ?thesis
  proof (rule Insert_ok[OF assms, of L d now])
    assume "data_size L d > cmLimit c" and "CacheManager_Insert L now d c = Inr c"
    with c' show ?thesis by auto
  next
    fix k assume "data_size L d \<le> cmLimit c" "k \<le> length (cmQueue c)"
      and eq: "CacheManager_Insert L now d c = Inr (c\<lparr>
        cmQueue := drop k (cmQueue c) @ [CacheEntry_new L d (now + dFreshness d)],
        cmCount := bytes_of (drop k (cmQueue c)) + data_size L d\<rparr>)"
      and "\<forall>j < k. cmLimit c < bytes_of (drop j (cmQueue c)) + data_size L d"
    then show ?thesis
      using c' by (intro exI[of _ c']) auto
  qed
qed

definition sample_data :: "string list \<Rightarrow> string list data" where
  "sample_data n = \<lparr>dName = n, dFreshness = 10, dContent = [], dWire = []\<rparr>"

definition sample_lib :: "(string list, string) ndn" where
  "sample_lib = list_ndn []
     [(sample_data [''a''], [6, 2, 0, 0]), (sample_data [''b''], [6, 3, 0, 0, 0])] []"

theorem Insert_fifo_bounded_witness:
  "\<exists>c'. CacheManager_Insert sample_lib 0 (sample_data [''a'']) (CacheManager_new 4) = Inr c' \<and>
     cmQueue c' = [CacheEntry_new sample_lib (sample_data [''a'']) 10]"
proof -
  have ok: "cache_ok (CacheManager_new 4 :: string list cache)" by (intro inv_intros) simp_all
  have "data_size sample_lib (sample_data [''a'']) = 4"
    by (simp add: data_size_def sample_lib_def list_ndn_def)
  with Insert_fifo_bounded[OF ok, of sample_lib 0 "sample_data [''a'']"] show ?thesis
    by (auto simp: CacheManager_new_def sample_data_def)
qed

text \<open>
  C25: \<open>FindMatchingData\<close> returns the oldest entry whose name the Interest's name is a prefix
  of and which is not stale if the Interest must be fresh, and fails only if there is none.
\<close>

theorem FindMatchingData_oldest_match:
  "case CacheManager_FindMatchingData L now i c of
     None \<Rightarrow> (\<forall>e \<in> set (cmQueue c). nmIsPrefixOf L (iName i) (dName (ceData e)) \<longrightarrow>
                iMustBeFresh i \<and> ceExpire e \<le> now)
   | Some d \<Rightarrow> (\<exists>pre e post. cmQueue c = pre @ e # post \<and> d = ceData e \<and>
       nmIsPrefixOf L (iName i) (dName d) \<and> (iMustBeFresh i \<longrightarrow> now < ceExpire e) \<and>
       (\<forall>x \<in> set pre. nmIsPrefixOf L (iName i) (dName (ceData x)) \<longrightarrow>
          iMustBeFresh i \<and> ceExpire x \<le> now))"
proof (cases "CacheManager_FindMatchingData L now i c")
  case None
  then have "\<forall>e \<in> set (cmQueue c). \<not> entry_matches L now i e"
    by (simp add: CacheManager_FindMatchingData_def find_loop_None)
  with None show ?thesis by (auto simp: entry_matches_def not_less)
next
  case (Some d)
  then obtain pre e post where "cmQueue c = pre @ e # post" "d = ceData e"
    "entry_matches L now i e" "\<forall>x \<in> set pre. \<not> entry_matches L now i x"
    by (auto simp: CacheManager_FindMatchingData_def find_loop_Some)
  with Some show ?thesis
    by (simp add: entry_matches_def not_less) (rule exI[of _ pre], rule exI[of _ e], auto)
qed

theorem FindMatchingData_oldest_match_witness:
  "case CacheManager_FindMatchingData sample_lib 5
     \<lparr>iName = [''a''], iNonce = 1, iLifetime = 4, iMustBeFresh = True, iWire = []\<rparr>
     \<lparr>cmQueue = [CacheEntry_new sample_lib (sample_data [''a'']) 5], cmCount = 4, cmLimit = 9\<rparr> of
     None \<Rightarrow> True | Some d \<Rightarrow> False"
  using FindMatchingData_oldest_match[where L = sample_lib and now = 5 and
      i = "\<lparr>iName = [''a''], iNonce = 1, iLifetime = 4, iMustBeFresh = True, iWire = []\<rparr>" and
      c = "\<lparr>cmQueue = [CacheEntry_new sample_lib (sample_data [''a'']) 5], cmCount = 4, cmLimit = 9\<rparr>"]
  by (auto simp: CacheEntry_new_def Cons_eq_append_conv split: option.splits)

text \<open>
  C26: Data that fits the limit is found again. Right after \<open>Insert\<close>, an Interest for a prefix of
  its name, also one that must be fresh while the freshness period has not passed, is answered
  from the cache with a packet that it asks for: with this very packet, unless an older entry of
  the cache answers the Interest too.
\<close>

theorem Insert_then_found:
  assumes "cache_ok c" and "data_size L d \<le> cmLimit c"
    and "nmIsPrefixOf L (iName i) (dName d)" and "iMustBeFresh i \<longrightarrow> later < now + dFreshness d"
    and "CacheManager_Insert L now d c = Inr c'"
  shows "(\<exists>d'. CacheManager_FindMatchingData L later i c' = Some d' \<and> nmIsPrefixOf L (iName i) (dName d') \<and>
      (d' = d \<or> (\<exists>e \<in> set (cmQueue c). d' = ceData e \<and> (iMustBeFresh i \<longrightarrow> later < ceExpire e)))) \<and>
    ((\<forall>e \<in> set (cmQueue c). nmIsPrefixOf L (iName i) (dName (ceData e)) \<longrightarrow>
        iMustBeFresh i \<and> ceExpire e \<le> later) \<longrightarrow>
      CacheManager_FindMatchingData L later i c' = Some d)"
proof -
  let ?e = "CacheEntry_new L d (now + dFreshness d)"
  obtain k where q: "cmQueue c' = drop k (cmQueue c) @ [?e]"
  proof (rule Insert_ok[OF assms(1), of L d now])
    assume "data_size L d > cmLimit c"
    with assms(2) show thesis by simp
  next
    fix k assume "CacheManager_Insert L now d c = Inr (c\<lparr>
        cmQueue := drop k (cmQueue c) @ [?e],
        cmCount := bytes_of (drop k (cmQueue c)) + data_size L d\<rparr>)"
    with assms(5) show thesis by (intro that[of k]) auto
  qed
  have e: "entry_matches L later i ?e" "ceData ?e = d"
    using assms(3,4) by (auto simp: entry_matches_def CacheEntry_new_def)
  have find: "CacheManager_FindMatchingData L later i c' =
      (case find_loop L later i (drop k (cmQueue c)) of None \<Rightarrow> Some d | Some d' \<Rightarrow> Some d')"
    using e by (simp add: CacheManager_FindMatchingData_def q find_loop_append split: option.split)
  have found: "\<exists>d'. CacheManager_FindMatchingData L later i c' = Some d' \<and> nmIsPrefixOf L (iName i) (dName d') \<and>
    (d' = d \<or> (\<exists>e \<in> set (cmQueue c). d' = ceData e \<and> (iMustBeFresh i \<longrightarrow> later < ceExpire e)))"
  proof (cases "find_loop L later i (drop k (cmQueue c))")
    case None
    with assms(3) show ?thesis by (simp add: find)
  next
    case (Some d')
    then obtain x where "x \<in> set (drop k (cmQueue c))" "ceData x = d'" "entry_matches L later i x"
      using find_loop_hit by blast
    then have "x \<in> set (cmQueue c)" "d' = ceData x" "nmIsPrefixOf L (iName i) (dName d')"
      "iMustBeFresh i \<longrightarrow> later < ceExpire x" by (auto simp: entry_matches_def dest: in_set_dropD)
    with Some show ?thesis by (auto simp: find)
  qed
  have "CacheManager_FindMatchingData L later i c' = Some d"
    if "\<forall>e \<in> set (cmQueue c). nmIsPrefixOf L (iName i) (dName (ceData e)) \<longrightarrow> iMustBeFresh i \<and> ceExpire e \<le> later"
  proof -
    have "find_loop L later i (drop k (cmQueue c)) = None"
      unfolding find_loop_None using that by (force simp: entry_matches_def dest: in_set_dropD)
    then show ?thesis by (simp add: find)
  qed
  with found show ?thesis by blast
qed

text \<open>The cache of the example holds Data of another name, which is older.\<close>

theorem Insert_then_found_witness:
  "\<exists>c c'. CacheManager_Insert sample_lib 0 (sample_data [''b'']) (CacheManager_new 9) = Inr c \<and>
     CacheManager_Insert sample_lib 1 (sample_data [''a'']) c = Inr c' \<and>
     CacheManager_FindMatchingData sample_lib 9
       \<lparr>iName = [''a''], iNonce = 1, iLifetime = 4, iMustBeFresh = True, iWire = []\<rparr> c' =
       Some (sample_data [''a'']) \<and>
     map ceData (cmQueue c') = [sample_data [''b''], sample_data [''a'']]"
proof -
  let ?i = "\<lparr>iName = [''a''], iNonce = 1, iLifetime = 4, iMustBeFresh = True, iWire = []\<rparr>"
  have ok: "cache_ok (CacheManager_new 9 :: string list cache)" by (intro inv_intros) simp_all
  obtain c where c: "CacheManager_Insert sample_lib 0 (sample_data [''b'']) (CacheManager_new 9) = Inr c"
    "cache_ok c" "cmLimit c = cmLimit (CacheManager_new 9 :: string list cache)" using cache_ok_Insert[OF ok] by blast
  obtain c' where c': "CacheManager_Insert sample_lib 1 (sample_data [''a'']) c = Inr c'"
    using cache_ok_Insert[OF c(2)] by blast
  have q: "cmQueue c = [CacheEntry_new sample_lib (sample_data [''b'']) 10]"
    "map ceData (cmQueue c') = [sample_data [''b''], sample_data [''a'']]"
    using c(1) c'
    by (auto simp: CacheManager_Insert_def CacheManager_new_def CacheEntry_new_def sample_lib_def sample_data_def
        list_ndn_def data_size_def over_limit_def to_size_t_small to_int32_small split: if_splits)
  have size: "data_size sample_lib (sample_data [''a'']) = 4"
    by (simp add: data_size_def sample_lib_def sample_data_def list_ndn_def)
  have "CacheManager_FindMatchingData sample_lib 9 ?i c' = Some (sample_data [''a''])"
    using Insert_then_found[OF c(2) _ _ _ c', of ?i 9] c(3) size q(1)
    by (simp add: CacheManager_new_def sample_lib_def sample_data_def CacheEntry_new_def)
  with c(1) c' q(2) show ?thesis by (intro exI[of _ c] exI[of _ c']) simp
qed

end
