(* ===== verification/Packet.thy ===== *)
theory Packet
  imports Ndn
begin

text \<open>
  Packets on their way through a node (\<^verbatim>\<open>core/packet.h\<close>). A packet object is shared: the
  transmit queue of every device it is sent on, and the receiving devices, hold pointers to
  the same object, and its addresses are set in place. So packets live in a store, and
  everything else holds references into it.
\<close>

record packet =
  pktDst :: "64 word"
  pktSrc :: "64 word"
  pktWire :: bytes

type_synonym pkt_ref = nat
type_synonym heap = "packet list"

definition Packet_new :: "bytes \<Rightarrow> packet" where
  "Packet_new wire = \<lparr>pktDst = 0, pktSrc = 0, pktWire = wire\<rparr>"

definition alloc :: "packet \<Rightarrow> heap \<Rightarrow> pkt_ref \<times> heap" where
  "alloc p h = (length h, h @ [p])"

definition InterestPacket_new :: "('n, 'c) ndn \<Rightarrow> 'n interest \<Rightarrow> heap \<Rightarrow> pkt_ref \<times> heap" where
  "InterestPacket_new L i h = alloc (Packet_new (encodeInterest L i)) h"

definition DataPacket_new :: "('n, 'c) ndn \<Rightarrow> 'n data \<Rightarrow> heap \<Rightarrow> pkt_ref \<times> heap" where
  "DataPacket_new L d h = alloc (Packet_new (encodeData L d)) h"

definition Packet_GetDst :: "heap \<Rightarrow> pkt_ref \<Rightarrow> 64 word" where
  "Packet_GetDst h r = pktDst (h ! r)"

definition Packet_SetDst :: "64 word \<Rightarrow> pkt_ref \<Rightarrow> heap \<Rightarrow> heap" where
  "Packet_SetDst dst r h = h[r := (h ! r)\<lparr>pktDst := dst\<rparr>]"

definition Packet_GetSrc :: "heap \<Rightarrow> pkt_ref \<Rightarrow> 64 word" where
  "Packet_GetSrc h r = pktSrc (h ! r)"

definition Packet_SetSrc :: "64 word \<Rightarrow> pkt_ref \<Rightarrow> heap \<Rightarrow> heap" where
  "Packet_SetSrc src r h = h[r := (h ! r)\<lparr>pktSrc := src\<rparr>]"

definition Packet_GetBlock :: "heap \<Rightarrow> pkt_ref \<Rightarrow> bytes" where
  "Packet_GetBlock h r = pktWire (h ! r)"

definition Packet_GetType :: "('n, 'c) ndn \<Rightarrow> heap \<Rightarrow> pkt_ref \<Rightarrow> nat" where
  "Packet_GetType L h r = blkType L (Packet_GetBlock h r)"

definition Packet_GetLength :: "heap \<Rightarrow> pkt_ref \<Rightarrow> nat" where
  "Packet_GetLength h r = length (Packet_GetBlock h r)"

lemmas packet_defs = Packet_new_def alloc_def InterestPacket_new_def DataPacket_new_def
  Packet_GetDst_def Packet_SetDst_def Packet_GetSrc_def Packet_SetSrc_def
  Packet_GetBlock_def Packet_GetType_def Packet_GetLength_def

section \<open>What the setters change\<close>

lemma length_setters [simp]:
  "length (Packet_SetDst m r h) = length h" "length (Packet_SetSrc m r h) = length h"
  by (simp_all add: packet_defs)

lemma nth_setters:
  "Packet_SetDst m r h ! x =
     (if x = r \<and> r < length h then (h ! r)\<lparr>pktDst := m\<rparr> else h ! x)"
  "Packet_SetSrc m r h ! x =
     (if x = r \<and> r < length h then (h ! r)\<lparr>pktSrc := m\<rparr> else h ! x)"
  by (auto simp: packet_defs nth_list_update list_update_beyond not_less)

lemma block_setters [simp]:
  "Packet_GetBlock (Packet_SetDst m r h) x = Packet_GetBlock h x"
  "Packet_GetBlock (Packet_SetSrc m r h) x = Packet_GetBlock h x"
  by (simp_all add: Packet_GetBlock_def nth_setters)

lemma getlength_setters [simp]:
  "Packet_GetLength (Packet_SetDst m r h) x = Packet_GetLength h x"
  "Packet_GetLength (Packet_SetSrc m r h) x = Packet_GetLength h x"
  by (simp_all add: Packet_GetLength_def)

lemma getters_after_setters:
  "r < length h \<Longrightarrow> Packet_GetDst (Packet_SetDst m r h) r = m"
  "r < length h \<Longrightarrow> Packet_GetSrc (Packet_SetSrc m r h) r = m"
  "Packet_GetSrc (Packet_SetDst m r h) x = Packet_GetSrc h x"
  "Packet_GetDst (Packet_SetSrc m r h) x = Packet_GetDst h x"
  "x \<noteq> r \<Longrightarrow> Packet_GetDst (Packet_SetDst m r h) x = Packet_GetDst h x"
  "x \<noteq> r \<Longrightarrow> Packet_GetSrc (Packet_SetSrc m r h) x = Packet_GetSrc h x"
  by (simp_all add: Packet_GetDst_def Packet_GetSrc_def nth_setters)

end
