(* ===== verification/Link.thy ===== *)
theory Link
  imports Packet "HOL-Library.Sublist" "HOL-Library.List_Lexorder" "HOL-Library.Char_ord"
begin

text \<open>
  Links (\<^verbatim>\<open>core/link.h\<close>, \<^verbatim>\<open>core/link.cc\<close>, \<^verbatim>\<open>core/link-attribute.h\<close>): the nodes attached
  to a shared medium, and the matrix of directed connections with a loss rate each.
  \<open>link_const\<close> holds the members that are \<open>const\<close>; devices keep a copy of them.
\<close>

section \<open>State\<close>

record link_attribute =
  laRate :: real
  laEngine :: engine

record link_const =
  lnkId :: string
  lnkTxRate :: real
  lnkMtu :: int

text \<open>
  \<open>lnkNodeTable\<close> maps a node id to the id of the node's device on this link.
\<close>

record link = link_const +
  lnkNodeTable :: "(string \<times> string) list"
  lnkMatrix :: "(string \<times> (string \<times> link_attribute) list) list"

definition Link_new :: "string \<Rightarrow> real \<Rightarrow> int \<Rightarrow> link" where
  "Link_new lid rate mtu =
     \<lparr>lnkId = lid, lnkTxRate = rate, lnkMtu = mtu, lnkNodeTable = [], lnkMatrix = []\<rparr>"

definition Link_const :: "link \<Rightarrow> link_const" where
  "Link_const lk = link_const.truncate lk"

section \<open>Link attributes\<close>

text \<open>The distribution asserts that its parameter is a probability.\<close>

definition LinkAttribute_new :: "rng \<Rightarrow> real \<Rightarrow> link_attribute result" where
  "LinkAttribute_new R loss =
     (if 0 \<le> loss \<and> loss \<le> 1 then Inr \<lparr>laRate = loss, laEngine = engine0 R\<rparr> else Inl AssertionFailed)"

definition LinkAttribute_GetLossRate :: "link_attribute \<Rightarrow> real" where
  "LinkAttribute_GetLossRate a = laRate a"

definition LinkAttribute_DropPacket :: "rng \<Rightarrow> link_attribute \<Rightarrow> bool \<times> link_attribute" where
  "LinkAttribute_DropPacket R a =
     (let (drp, g) = bernoulli R (laRate a) (laEngine a) in (drp, a\<lparr>laEngine := g\<rparr>))"

section \<open>Operations\<close>

definition Link_AddNodeDevice :: "string \<Rightarrow> string \<Rightarrow> link \<Rightarrow> link" where
  "Link_AddNodeDevice nodeId dev lk = lk\<lparr>lnkNodeTable := om_put nodeId dev (lnkNodeTable lk)\<rparr>"

definition Link_GetNodeDevice :: "string \<Rightarrow> link \<Rightarrow> string result" where
  "Link_GetNodeDevice nodeId lk =
     (case map_of (lnkNodeTable lk) nodeId of
        None \<Rightarrow> Inl (RuntimeError (''[Link::GetNodeDevice] unkown node '' @ nodeId
                      @ '' on link '' @ lnkId lk))
      | Some dev \<Rightarrow> Inr dev)"

definition row :: "string \<Rightarrow> link \<Rightarrow> (string \<times> link_attribute) list" where
  "row nodeId lk = (case map_of (lnkMatrix lk) nodeId of None \<Rightarrow> [] | Some r \<Rightarrow> r)"

definition Link_AddConnection ::
  "string \<Rightarrow> string \<Rightarrow> link_attribute \<Rightarrow> link \<Rightarrow> link result" where
  "Link_AddConnection frm to attr lk =
     (if frm = to
      then Inl (RuntimeError (''[Link::AddConnection] src & dst equal to '' @ frm))
      else if map_of (lnkNodeTable lk) frm = None
      then Inl (RuntimeError (''[Link::AddConnection] unknown node '' @ frm
                  @ '' on link '' @ lnkId lk))
      else if map_of (lnkNodeTable lk) to = None
      then Inl (RuntimeError (''[LinkAddConnection] unknown node '' @ to
                  @ '' on link '' @ lnkId lk))
      else Inr (lk\<lparr>lnkMatrix :=
                  om_put frm (om_put to attr (row frm lk)) (lnkMatrix lk)\<rparr>))"

text \<open>
  The loop of \<open>Transmit\<close> over the neighbours, in the order of their ids: the devices whose
  \<open>StartRx\<close> is called (node id and device id, in that order of calls), and the row with
  its generators advanced. A neighbour missing from the node table would be a null pointer.
\<close>

fun transmit_loop ::
  "rng \<Rightarrow> (string \<times> string) list \<Rightarrow> (string \<times> link_attribute) list \<Rightarrow>
   ((string \<times> string) list \<times> (string \<times> link_attribute) list) result" where
  "transmit_loop R tab [] = Inr ([], [])"
| "transmit_loop R tab ((to, a) # nbs) =
     (let (drp, a') = LinkAttribute_DropPacket R a in
      if drp
      then and_then (transmit_loop R tab nbs) (\<lambda>(rx, nbs'). Inr (rx, (to, a') # nbs'))
      else (case map_of tab to of
              None \<Rightarrow> Inl (UndefinedBehaviour ''null device'')
            | Some dev \<Rightarrow>
                and_then (transmit_loop R tab nbs)
                  (\<lambda>(rx, nbs'). Inr ((to, dev) # rx, (to, a') # nbs'))))"

definition Link_Transmit :: "rng \<Rightarrow> string \<Rightarrow> link \<Rightarrow> ((string \<times> string) list \<times> link) result" where
  "Link_Transmit R nodeId lk =
     and_then (transmit_loop R (lnkNodeTable lk) (row nodeId lk))
       (\<lambda>(rx, nbs). Inr (rx, lk\<lparr>lnkMatrix := om_put nodeId nbs (lnkMatrix lk)\<rparr>))"

text \<open>
  The same without the loop: the neighbours whose connection does not drop the packet, each with
  its device on the link.
\<close>

definition hears :: "rng \<Rightarrow> string \<times> link_attribute \<Rightarrow> bool" where
  "hears R x \<longleftrightarrow> \<not> fst (bernoulli R (laRate (snd x)) (laEngine (snd x)))"

definition listeners :: "rng \<Rightarrow> string \<Rightarrow> link \<Rightarrow> (string \<times> string) list" where
  "listeners R n lk =
     map (\<lambda>x. (fst x, the (map_of (lnkNodeTable lk) (fst x)))) (filter (hears R) (row n lk))"

lemma transmit_loop_listeners:
  "transmit_loop R tab nbs = Inr (rx, nbs') \<Longrightarrow>
     rx = map (\<lambda>x. (fst x, the (map_of tab (fst x)))) (filter (hears R) nbs)"
proof (induction nbs arbitrary: rx nbs')
  case (Cons x nbs)
  then show ?case
    by (cases x) (auto simp: and_then_Inr_iff LinkAttribute_DropPacket_def hears_def Let_def
        split: prod.splits if_splits option.splits)
qed simp

lemma Transmit_listeners: "Link_Transmit R n lk = Inr (rx, lk') \<Longrightarrow> rx = listeners R n lk"
  unfolding Link_Transmit_def listeners_def
  by (auto simp: and_then_Inr_iff intro: transmit_loop_listeners)

section \<open>Well-formed links\<close>

definition row_ok ::
  "(string \<times> string) list \<Rightarrow> string \<Rightarrow> (string \<times> link_attribute) list \<Rightarrow> bool" where
  "row_ok tab n r \<longleftrightarrow> om_ok r \<and> (\<forall>k \<in> fst ` set r. k \<noteq> n \<and> k \<in> dom (map_of tab))"

definition link_ok :: "link \<Rightarrow> bool" where
  "link_ok lk \<longleftrightarrow> om_ok (lnkNodeTable lk) \<and> om_ok (lnkMatrix lk) \<and>
     (\<forall>e \<in> set (lnkMatrix lk). row_ok (lnkNodeTable lk) (fst e) (snd e))"

lemma link_ok_new [inv_intros]: "link_ok (Link_new lid rate mtu)"
  by (simp add: link_ok_def Link_new_def)

lemma row_ok_more_nodes: "row_ok tab n r \<Longrightarrow> row_ok (om_put k v tab) n r"
  by (auto simp: row_ok_def kv_simps)

lemma link_ok_AddNodeDevice [inv_intros]:
  "link_ok lk \<Longrightarrow> link_ok (Link_AddNodeDevice nodeId dev lk)"
  by (simp add: link_ok_def Link_AddNodeDevice_def om.ok_put row_ok_more_nodes)

lemma row_ok_row:
  assumes "link_ok lk"
  shows "row_ok (lnkNodeTable lk) n (row n lk)"
proof (cases "map_of (lnkMatrix lk) n")
  case None
  then show ?thesis by (simp add: row_def row_ok_def)
next
  case (Some r)
  with assms show ?thesis by (force simp: row_def link_ok_def dest: map_of_SomeD)
qed

lemma row_ok_put:
  "row_ok tab n r \<Longrightarrow> k \<noteq> n \<Longrightarrow> k \<in> dom (map_of tab) \<Longrightarrow> row_ok tab n (om_put k a r)"
  by (simp add: row_ok_def om.ok_put om.keys_put)

lemma link_ok_put_row:
  assumes "link_ok lk" and "row_ok (lnkNodeTable lk) n r"
  shows "link_ok (lk\<lparr>lnkMatrix := om_put n r (lnkMatrix lk)\<rparr>)"
  using assms om.put_all[of "lnkMatrix lk" "row_ok (lnkNodeTable lk)" n r]
  by (simp add: link_ok_def om.ok_put)

lemma AddConnection_cases:
  assumes "Link_AddConnection frm to attr lk = Inr lk'"
  shows "frm \<noteq> to \<and> frm \<in> dom (map_of (lnkNodeTable lk)) \<and>
    to \<in> dom (map_of (lnkNodeTable lk)) \<and>
    lk' = lk\<lparr>lnkMatrix := om_put frm (om_put to attr (row frm lk)) (lnkMatrix lk)\<rparr>"
  using assms by (auto simp: Link_AddConnection_def split: if_splits)

lemma link_ok_AddConnection:
  assumes "link_ok lk" and "Link_AddConnection frm to attr lk = Inr lk'"
  shows "link_ok lk'"
  using AddConnection_cases[OF assms(2)] row_ok_row[OF assms(1), of frm]
  by (auto intro!: link_ok_put_row[OF assms(1)] row_ok_put)

text \<open>The rows of generators keep their keys; calls go to a sublist of the neighbours.\<close>

lemma transmit_loop_ok:
  assumes "\<forall>k \<in> fst ` set nbs. k \<in> dom (map_of tab)"
  shows "\<exists>rx nbs'. transmit_loop R tab nbs = Inr (rx, nbs') \<and> map fst nbs' = map fst nbs \<and>
    (\<forall>d \<in> set rx. map_of tab (fst d) = Some (snd d)) \<and> subseq (map fst rx) (map fst nbs)"
  using assms
proof (induction nbs)
  case (Cons b nbs)
  obtain to a where b: "b = (to, a)" by (cases b)
  obtain drp a' where d: "LinkAttribute_DropPacket R a = (drp, a')"
    by (cases "LinkAttribute_DropPacket R a")
  obtain dev where "map_of tab to = Some dev" using Cons.prems b by auto
  moreover obtain rx nbs' where "transmit_loop R tab nbs = Inr (rx, nbs')"
    "map fst nbs' = map fst nbs" "subseq (map fst rx) (map fst nbs)"
    "\<forall>d \<in> set rx. map_of tab (fst d) = Some (snd d)"
    using Cons by auto
  ultimately show ?case using b d by (cases drp) auto
qed simp

lemma row_ok_same_keys: "map fst r' = map fst r \<Longrightarrow> row_ok tab n r \<Longrightarrow> row_ok tab n r'"
  unfolding row_ok_def by (metis list.set_map)

lemma subseq_set: "subseq xs ys \<Longrightarrow> set xs \<subseteq> set ys"
  by (induction rule: list_emb.induct) auto

lemma Transmit_ok:
  assumes "link_ok lk"
  obtains rx nbs where
    "Link_Transmit R n lk = Inr (rx, lk\<lparr>lnkMatrix := om_put n nbs (lnkMatrix lk)\<rparr>)"
    and "map fst nbs = map fst (row n lk)"
    and "link_ok (lk\<lparr>lnkMatrix := om_put n nbs (lnkMatrix lk)\<rparr>)"
    and "\<forall>d \<in> set rx. map_of (lnkNodeTable lk) (fst d) = Some (snd d)"
    and "subseq (map fst rx) (map fst (row n lk))"
proof -
  have row: "row_ok (lnkNodeTable lk) n (row n lk)" by (rule row_ok_row[OF assms])
  then obtain rx nbs where "transmit_loop R (lnkNodeTable lk) (row n lk) = Inr (rx, nbs)"
    "map fst nbs = map fst (row n lk)" "\<forall>d \<in> set rx. map_of (lnkNodeTable lk) (fst d) = Some (snd d)"
    "subseq (map fst rx) (map fst (row n lk))"
    using transmit_loop_ok[of "row n lk" "lnkNodeTable lk" R] by (auto simp: row_ok_def)
  then show thesis
    using that[of rx nbs] link_ok_put_row[OF assms row_ok_same_keys[OF _ row]]
    by (simp add: Link_Transmit_def)
qed

lemma transmit_loop_lossless:
  assumes "rng_laws R" and "\<forall>e \<in> set nbs. laRate (snd e) = 0"
    and "transmit_loop R tab nbs = Inr (rx, nbs')"
  shows "map fst rx = map fst nbs"
  using assms(2,3)
proof (induction nbs arbitrary: rx nbs')
  case (Cons b nbs)
  obtain to a where b: "b = (to, a)" by (cases b)
  have "\<not> fst (LinkAttribute_DropPacket R a)"
    using assms(1) Cons.prems(1) b
    by (simp add: LinkAttribute_DropPacket_def rng_laws_def split: prod.splits) (metis fst_conv)
  with Cons b show ?case
    by (auto simp: and_then_Inr_iff split: prod.splits option.splits)
qed simp

section \<open>Properties\<close>

text \<open>
  \<open>AddConnection\<close> refuses a connection from a node to itself and connections of nodes
  that are not on the link, each with its own error, and otherwise only replaces the one
  entry of the matrix; a link built by these operations stays well formed, so that no
  connection ever points to a missing device.
\<close>

theorem AddConnection_checks:
  assumes "link_ok lk"
  shows "case Link_AddConnection frm to attr lk of
      Inl e \<Rightarrow> (frm = to \<or> frm \<notin> dom (map_of (lnkNodeTable lk)) \<or>
                to \<notin> dom (map_of (lnkNodeTable lk))) \<and> (\<exists>msg. e = RuntimeError msg)
    | Inr lk' \<Rightarrow> frm \<noteq> to \<and> link_ok lk' \<and> lnkNodeTable lk' = lnkNodeTable lk \<and>
        (\<forall>a b. map_of (row a lk') b =
           (if a = frm \<and> b = to then Some attr else map_of (row a lk) b))"
proof (cases "Link_AddConnection frm to attr lk")
  case (Inl e)
  then show ?thesis by (auto simp: Link_AddConnection_def split: if_splits)
next
  case (Inr lk')
  with link_ok_AddConnection[OF assms Inr] AddConnection_cases[OF Inr] show ?thesis
    by (auto simp: row_def kv_simps split: if_splits)
qed

definition sample_attribute :: link_attribute where
  "sample_attribute = \<lparr>laRate = 0, laEngine = engine0 counting_rng\<rparr>"

lemma sample_attribute_new: "LinkAttribute_new counting_rng 0 = Inr sample_attribute"
  by (simp add: LinkAttribute_new_def sample_attribute_def)

definition sample_link :: link where
  "sample_link = Link_AddNodeDevice ''b'' ''d0'' (Link_AddNodeDevice ''a'' ''d0'' (Link_new ''l0'' 40 8800))"

lemma link_ok_sample: "link_ok sample_link"
  unfolding sample_link_def by (intro inv_intros)

theorem AddConnection_checks_witness:
  "\<exists>lk'. Link_AddConnection ''a'' ''b'' sample_attribute sample_link = Inr lk' \<and>
     map_of (row ''a'' lk') ''b'' = Some sample_attribute"
proof -
  have "\<exists>lk'. Link_AddConnection ''a'' ''b'' sample_attribute sample_link = Inr lk'"
    by (simp add: Link_AddConnection_def sample_link_def Link_AddNodeDevice_def Link_new_def)
  with AddConnection_checks[OF link_ok_sample, of "''a''" "''b''" sample_attribute]
  show ?thesis by (auto split: sum.splits)
qed

text \<open>
  \<open>Transmit\<close> on a well-formed link never fails: it starts reception on a subset of the
  sender's neighbours, in the order of their ids, each on the device registered for it, never
  on the sender itself, and leaves everything but the generators of that row unchanged.
\<close>

theorem Transmit_reaches_neighbours:
  assumes "link_ok lk"
  shows "\<exists>rx lk'. Link_Transmit R n lk = Inr (rx, lk') \<and> link_ok lk' \<and>
    subseq (map fst rx) (map fst (row n lk)) \<and> n \<notin> fst ` set rx \<and>
    (\<forall>d \<in> set rx. map_of (lnkNodeTable lk) (fst d) = Some (snd d)) \<and>
    lnkNodeTable lk' = lnkNodeTable lk \<and>
    (\<forall>m. map fst (row m lk') = map fst (row m lk)) \<and> (\<forall>m. m \<noteq> n \<longrightarrow> row m lk' = row m lk)"
proof (rule Transmit_ok[OF assms, of R n])
  fix rx nbs
  let ?lk' = "lk\<lparr>lnkMatrix := om_put n nbs (lnkMatrix lk)\<rparr>"
  assume sub: "subseq (map fst rx) (map fst (row n lk))" and keys: "map fst nbs = map fst (row n lk)"
    and rest: "Link_Transmit R n lk = Inr (rx, ?lk')" "link_ok ?lk'"
    "\<forall>d \<in> set rx. map_of (lnkNodeTable lk) (fst d) = Some (snd d)"
  have "n \<notin> set (map fst (row n lk))"
    using row_ok_row[OF assms, of n] by (auto simp: row_ok_def)
  then have "n \<notin> set (map fst rx)"
    using subseq_set[OF sub] by blast
  with sub keys rest show ?thesis
    by (intro exI[of _ rx] exI[of _ ?lk']) (auto simp: row_def kv_simps)
qed

definition sample_link_ab :: link where
  "sample_link_ab = sample_link\<lparr>lnkMatrix :=
     om_put ''a'' (om_put ''b'' sample_attribute []) []\<rparr>"

lemma link_ok_sample_ab: "link_ok sample_link_ab"
proof (rule link_ok_AddConnection[OF link_ok_sample])
  show "Link_AddConnection ''a'' ''b'' sample_attribute sample_link =
      Inr sample_link_ab"
    by (simp add: Link_AddConnection_def sample_link_ab_def sample_link_def
        Link_AddNodeDevice_def Link_new_def row_def)
qed

theorem Transmit_reaches_neighbours_witness:
  "\<exists>rx lk'. Link_Transmit counting_rng ''a'' sample_link_ab = Inr (rx, lk') \<and> ''a'' \<notin> fst ` set rx"
  using Transmit_reaches_neighbours[OF link_ok_sample_ab, of counting_rng "''a''"] by blast

text \<open>
  On a row without loss \<open>Transmit\<close> starts reception on every neighbour.
\<close>

theorem Transmit_lossless:
  assumes "link_ok lk" and "rng_laws R" and "\<forall>e \<in> set (row n lk). laRate (snd e) = 0"
    and "Link_Transmit R n lk = Inr (rx, lk')"
  shows "map fst rx = map fst (row n lk)"
  using assms(4) transmit_loop_lossless[OF assms(2,3)]
  by (auto simp: Link_Transmit_def and_then_Inr_iff)

theorem Transmit_lossless_witness:
  "\<exists>rx lk'. Link_Transmit counting_rng ''a'' sample_link_ab = Inr (rx, lk') \<and> map fst rx = [''b'']"
proof -
  obtain rx lk' where t: "Link_Transmit counting_rng ''a'' sample_link_ab = Inr (rx, lk')"
    using Transmit_ok[OF link_ok_sample_ab] by blast
  have "map fst rx = map fst (row ''a'' sample_link_ab)"
    by (rule Transmit_lossless[OF link_ok_sample_ab counting_rng_laws _ t])
      (simp add: row_def sample_link_ab_def sample_link_def Link_AddNodeDevice_def
        sample_attribute_def)
  with t show ?thesis
    by (simp add: row_def sample_link_ab_def sample_link_def Link_AddNodeDevice_def)
qed

end
