(* ===== verification/Device.thy ===== *)
theory Device
  imports Link
begin

text \<open>
  Link devices (\<^verbatim>\<open>core/link-device.h\<close>, \<^verbatim>\<open>core/link-device.cc\<close>): the half-duplex radio of
  a node on a link, with a bounded transmit queue and CSMA/CA. The operations return the new
  device and what they ask of the \<open>io_service\<close>: arming one of the two timers (which
  cancels the wait that is pending on it) and posting calls. The theory World gives these
  requests their meaning. \<open>PostRx\<close> creates link faces through the node; the operation it
  uses is the parameter of the locale \<open>link_face_provider\<close>, whose contract the node keeps.
\<close>

section \<open>State\<close>

datatype phy_state = IDLE | TX | RX | RX_COLLIDE | SLEEP | FAILURE

fun PhyStateToString :: "phy_state \<Rightarrow> string" where
  "PhyStateToString IDLE = ''IDLE''"
| "PhyStateToString TX = ''TX''"
| "PhyStateToString RX = ''RX''"
| "PhyStateToString RX_COLLIDE = ''RX_COLLIDE''"
| "PhyStateToString SLEEP = ''SLEEP''"
| "PhyStateToString FAILURE = ''FAILURE''"

definition SYMBOL_TIME :: int where "SYMBOL_TIME = 16"
definition BACKOFF_PERIOD :: int where "BACKOFF_PERIOD = 20 * SYMBOL_TIME"
definition MIN_BE :: int where "MIN_BE = 3"
definition MAX_BE :: int where "MAX_BE = 5"
definition MAX_CSMA_BACKOFFS :: int where "MAX_CSMA_BACKOFFS = 4"

lemmas csma_constants = SYMBOL_TIME_def BACKOFF_PERIOD_def MIN_BE_def MAX_BE_def
  MAX_CSMA_BACKOFFS_def

definition BROADCAST_MAC :: "64 word" where "BROADCAST_MAC = 0xffff"

text \<open>
  A link face (\<^verbatim>\<open>core/link-face.h\<close>) is constant once built: its id on the node, the
  remote MAC address it sends to, and the device it sends through.
\<close>

record link_face =
  lfId :: int
  lfRemoteMac :: "64 word"
  lfDevice :: string

definition LinkFace_new :: "int \<Rightarrow> 64 word \<Rightarrow> string \<Rightarrow> link_face" where
  "LinkFace_new faceId remoteMac dev = \<lparr>lfId = faceId, lfRemoteMac = remoteMac, lfDevice = dev\<rparr>"

declare LinkFace_new_def [simp]

record device =
  dvId :: string
  dvMac :: "64 word"
  dvNodeId :: string
  dvLink :: link_const
  dvState :: phy_state
  dvPendingRx :: "pkt_ref option"
  dvTxQueue :: "pkt_ref list"
  dvTxLimit :: nat
  dvEngine :: engine
  dvFaces :: "(64 word \<times> link_face) list"

text \<open>The default queue limit is 5; the generator is seeded from the system (\<open>seed\<close>).\<close>

definition LinkDevice_new ::
  "rng \<Rightarrow> nat \<Rightarrow> string \<Rightarrow> 64 word \<Rightarrow> link_const \<Rightarrow> string \<Rightarrow> device" where
  "LinkDevice_new R seed did mac lk nodeId =
     \<lparr>dvId = did, dvMac = mac, dvNodeId = nodeId, dvLink = lk, dvState = IDLE,
      dvPendingRx = None, dvTxQueue = [], dvTxLimit = 5, dvEngine = seeded R seed,
      dvFaces = []\<rparr>"

section \<open>Requests to the io service\<close>

text \<open>
  \<open>ArmRx t\<close> and \<open>ArmCsma nb be t\<close> set a timer to expire in \<open>t\<close> microseconds with
  \<open>PostRx\<close>, or \<open>DoCsma\<close> for \<open>NB = nb\<close> and \<open>BE = be\<close>, as its handler.
  \<open>PostTransmit\<close> posts \<open>Link::Transmit\<close>, \<open>PostDispatch\<close> a face's \<open>Dispatch\<close>.
\<close>

datatype io_req =
    ArmRx int
  | ArmCsma int int int
  | PostTransmit string string pkt_ref
  | PostDispatch int bytes

text \<open>
  The transmission delay in microseconds of \<open>len\<close> bytes at \<open>rate\<close> kbit/s, truncated to
  \<open>long\<close>. The division is over the reals and the result is taken to fit the \<open>long\<close>; a zero rate
  would convert an infinite double.
\<close>

definition trunc_real :: "real \<Rightarrow> int" where
  "trunc_real r = (if 0 \<le> r then \<lfloor>r\<rfloor> else \<lceil>r\<rceil>)"

definition tx_delay :: "real \<Rightarrow> nat \<Rightarrow> int result" where
  "tx_delay rate len =
     (if rate = 0 then Inl (UndefinedBehaviour ''infinite delay'')
      else Inr (trunc_real (real len * 8 * 1000000 / (rate * 1024))))"

section \<open>Operations\<close>

definition LinkDevice_GetLink :: "device \<Rightarrow> link_const" where
  "LinkDevice_GetLink dv = dvLink dv"

definition LinkDevice_GetMacAddr :: "device \<Rightarrow> 64 word" where
  "LinkDevice_GetMacAddr dv = dvMac dv"

definition LinkDevice_GetLinkFace :: "64 word \<Rightarrow> device \<Rightarrow> link_face option" where
  "LinkDevice_GetLinkFace remoteMac dv = map_of (dvFaces dv) remoteMac"

text \<open>
  The node's \<open>AddLinkFace\<close> takes the remote MAC address and the device, here its id, and
  changes the node.
\<close>

type_synonym 'nd add_face = "64 word \<Rightarrow> string \<Rightarrow> 'nd \<Rightarrow> (link_face \<times> 'nd) result"

definition LinkDevice_AddBroadcastFace ::
  "'nd add_face \<Rightarrow> device \<Rightarrow> 'nd \<Rightarrow> (device \<times> 'nd) result" where
  "LinkDevice_AddBroadcastFace add dv nd =
     and_then (add BROADCAST_MAC (dvId dv) nd) (\<lambda>(face, nd').
       Inr (dv\<lparr>dvFaces := om_put BROADCAST_MAC face (dvFaces dv)\<rparr>, nd'))"

definition LinkDevice_StartRx ::
  "heap \<Rightarrow> pkt_ref \<Rightarrow> device \<Rightarrow> (device \<times> io_req list) result" where
  "LinkDevice_StartRx h pkt dv =
     (case dvState dv of
        IDLE \<Rightarrow>
          and_then (tx_delay (lnkTxRate (dvLink dv)) (Packet_GetLength h pkt)) (\<lambda>delay.
            Inr (dv\<lparr>dvState := RX, dvPendingRx := Some pkt\<rparr>, [ArmRx delay]))
      | RX \<Rightarrow>
          and_then (tx_delay (lnkTxRate (dvLink dv)) (Packet_GetLength h pkt)) (\<lambda>delay.
            Inr (dv\<lparr>dvState := RX_COLLIDE, dvPendingRx := Some pkt\<rparr>, [ArmRx delay]))
      | RX_COLLIDE \<Rightarrow>
          and_then (tx_delay (lnkTxRate (dvLink dv)) (Packet_GetLength h pkt)) (\<lambda>delay.
            Inr (dv\<lparr>dvState := RX_COLLIDE, dvPendingRx := Some pkt\<rparr>, [ArmRx delay]))
      | TX \<Rightarrow> Inr (dv, [])
      | s \<Rightarrow> Inl (RuntimeError (''[LinkDevice::StartRx] illegal state: '' @ PhyStateToString s)))"

text \<open>
  \<open>PostRx\<close> in state \<open>RX\<close>: a frame for this device or for all is dispatched on the face
  for its source, created on demand; other frames are dropped.
\<close>

definition receive_frame ::
  "'nd add_face \<Rightarrow> heap \<Rightarrow> pkt_ref \<Rightarrow> device \<Rightarrow> 'nd \<Rightarrow> (device \<times> 'nd \<times> io_req list) result" where
  "receive_frame add h pkt dv nd =
     (let dst = Packet_GetDst h pkt; src = Packet_GetSrc h pkt; wire = Packet_GetBlock h pkt in
      if dst = dvMac dv \<or> dst = BROADCAST_MAC
      then (case map_of (dvFaces dv) src of
              None \<Rightarrow>
                and_then (add src (dvId dv) nd) (\<lambda>(face, nd').
                  Inr (dv\<lparr>dvFaces := om_put src face (dvFaces dv)\<rparr>, nd',
                     [PostDispatch (lfId face) wire]))
            | Some face \<Rightarrow> Inr (dv, nd, [PostDispatch (lfId face) wire]))
      else Inr (dv, nd, []))"

definition LinkDevice_PostRx ::
  "'nd add_face \<Rightarrow> bool \<Rightarrow> heap \<Rightarrow> device \<Rightarrow> 'nd \<Rightarrow> (device \<times> 'nd \<times> io_req list) result" where
  "LinkDevice_PostRx add err h dv nd =
     (if err then Inr (dv, nd, [])
      else case dvState dv of
        RX \<Rightarrow>
          (case dvPendingRx dv of
             None \<Rightarrow> Inl (UndefinedBehaviour ''null packet'')
           | Some pkt \<Rightarrow>
               and_then (receive_frame add h pkt dv nd) (\<lambda>(dv', nd', io).
                 Inr (dv'\<lparr>dvState := IDLE\<rparr>, nd', io)))
      | RX_COLLIDE \<Rightarrow> Inr (dv\<lparr>dvState := IDLE\<rparr>, nd, [])
      | IDLE \<Rightarrow> Inr (dv\<lparr>dvState := IDLE\<rparr>, nd, [])
      | s \<Rightarrow> Inl (RuntimeError (''[LinkDevice::PostRx] illegal state: '' @ PhyStateToString s)))"

text \<open>A backoff: a random number of periods below \<open>2 ^ BE\<close>.\<close>

definition draw_backoff :: "rng \<Rightarrow> int \<Rightarrow> device \<Rightarrow> int \<times> device" where
  "draw_backoff R BE dv =
     (let (x, g) = uniformInt R (2 ^ nat BE - 1) (dvEngine dv)
      in (int x * BACKOFF_PERIOD, dv\<lparr>dvEngine := g\<rparr>))"

definition LinkDevice_StartCsma :: "rng \<Rightarrow> device \<Rightarrow> device \<times> io_req list" where
  "LinkDevice_StartCsma R dv =
     (let NB = 0; BE = MIN_BE; (backoff, dv') = draw_backoff R BE dv
      in (dv', [ArmCsma NB BE backoff]))"

definition LinkDevice_StartTx ::
  "rng \<Rightarrow> pkt_ref \<Rightarrow> heap \<Rightarrow> device \<Rightarrow> heap \<times> device \<times> io_req list" where
  "LinkDevice_StartTx R pkt h dv =
     (if int (Packet_GetLength h pkt) > lnkMtu (dvLink dv) then (h, dv, [])
      else if length (dvTxQueue dv) < dvTxLimit dv
      then let h' = Packet_SetSrc (dvMac dv) pkt h;
               (dv', io) = LinkDevice_StartCsma R (dv\<lparr>dvTxQueue := dvTxQueue dv @ [pkt]\<rparr>)
           in (h', dv', io)
      else (h, dv, []))"

text \<open>What \<open>DoCsma\<close> does when it has popped the head of the queue.\<close>

definition next_in_queue :: "rng \<Rightarrow> device \<Rightarrow> device \<times> io_req list" where
  "next_in_queue R dv =
     (if length (dvTxQueue dv) \<noteq> 0 then LinkDevice_StartCsma R dv else (dv, []))"

definition csma_backoff :: "rng \<Rightarrow> int \<Rightarrow> int \<Rightarrow> device \<Rightarrow> device \<times> io_req list" where
  "csma_backoff R NB BE dv =
     (let NB' = NB + 1 in
      if NB' > MAX_CSMA_BACKOFFS
      then next_in_queue R (dv\<lparr>dvTxQueue := tl (dvTxQueue dv)\<rparr>)
      else let BE1 = BE + 1;
               BE' = (if BE1 > MAX_BE then MAX_BE else BE1);
               (backoff, dv') = draw_backoff R BE' dv
           in (dv', [ArmCsma NB' BE' backoff]))"

definition LinkDevice_DoCsma ::
  "rng \<Rightarrow> int \<Rightarrow> int \<Rightarrow> bool \<Rightarrow> heap \<Rightarrow> device \<Rightarrow> (device \<times> io_req list) result" where
  "LinkDevice_DoCsma R NB BE err h dv =
     (if err then Inr (dv, [])
      else case dvTxQueue dv of
        [] \<Rightarrow> Inl AssertionFailed
      | pkt # queue \<Rightarrow>
          (case dvState dv of
             IDLE \<Rightarrow>
               and_then (tx_delay (lnkTxRate (dvLink dv)) (Packet_GetLength h pkt)) (\<lambda>delay.
                 Inr (dv\<lparr>dvState := TX\<rparr>,
                      [PostTransmit (lnkId (dvLink dv)) (dvNodeId dv) pkt,
                       ArmCsma (-1) (-1) delay]))
           | RX \<Rightarrow> Inr (csma_backoff R NB BE dv)
           | RX_COLLIDE \<Rightarrow> Inr (csma_backoff R NB BE dv)
           | TX \<Rightarrow> Inr (next_in_queue R (dv\<lparr>dvTxQueue := queue, dvState := IDLE\<rparr>))
           | s \<Rightarrow> Inl (RuntimeError
               (''[LinkDevice::DoCsma] illegal state: '' @ PhyStateToString s))))"

text \<open>\<open>LinkFace::Send\<close> (\<^verbatim>\<open>core/link-face.cc\<close>), for a face of the device \<open>dv\<close>.\<close>

definition LinkFace_Send ::
  "rng \<Rightarrow> pkt_ref \<Rightarrow> link_face \<Rightarrow> heap \<Rightarrow> device \<Rightarrow> heap \<times> device \<times> io_req list" where
  "LinkFace_Send R pkt face h dv =
     LinkDevice_StartTx R pkt (Packet_SetDst (lfRemoteMac face) pkt h) dv"

section \<open>Well-formed devices\<close>

text \<open>
  The states \<open>SLEEP\<close> and \<open>FAILURE\<close> are never entered; a receiving device has a packet, a
  transmitting one has the packet at the head of its queue.
\<close>

definition active_states :: "phy_state set" where
  "active_states = {IDLE, TX, RX, RX_COLLIDE}"

definition device_ok :: "device \<Rightarrow> bool" where
  "device_ok dv \<longleftrightarrow> dvState dv \<in> active_states \<and> length (dvTxQueue dv) \<le> dvTxLimit dv \<and>
     (dvState dv = RX \<or> dvState dv = RX_COLLIDE \<longrightarrow> dvPendingRx dv \<noteq> None) \<and>
     (dvState dv = TX \<longrightarrow> dvTxQueue dv \<noteq> []) \<and> om_ok (dvFaces dv) \<and>
     lnkTxRate (dvLink dv) \<noteq> 0"

definition same_device :: "device \<Rightarrow> device \<Rightarrow> bool" where
  "same_device dv dv' \<longleftrightarrow> dvId dv' = dvId dv \<and> dvMac dv' = dvMac dv \<and>
     dvNodeId dv' = dvNodeId dv \<and> dvLink dv' = dvLink dv \<and> dvTxLimit dv' = dvTxLimit dv"

lemma same_device_refl [simp]: "same_device dv dv"
  by (simp add: same_device_def)

lemma same_device_trans: "same_device a b \<Longrightarrow> same_device b c \<Longrightarrow> same_device a c"
  by (simp add: same_device_def)

text \<open>A new device has nothing to send and receives nothing.\<close>

definition idle :: "device \<Rightarrow> bool" where
  "idle dv \<longleftrightarrow> dvState dv = IDLE \<and> dvPendingRx dv = None \<and> dvTxQueue dv = []"

lemma device_ok_new [inv_intros]:
  "lnkTxRate lk \<noteq> 0 \<Longrightarrow> device_ok (LinkDevice_new R seed did mac lk nid)"
  by (simp add: device_ok_def LinkDevice_new_def active_states_def)

lemma tx_delay_Inr: "rate \<noteq> 0 \<Longrightarrow> \<exists>t. tx_delay rate len = Inr t"
  by (simp add: tx_delay_def)

lemma draw_backoff_device:
  "draw_backoff R BE dv = (b, dv') \<Longrightarrow> \<exists>g. dv' = dv\<lparr>dvEngine := g\<rparr>"
  by (auto simp: draw_backoff_def split: prod.splits)

lemma draw_backoff_range:
  assumes "rng_laws R" and "draw_backoff R BE dv = (b, dv')"
  shows "0 \<le> b \<and> b \<le> (2 ^ nat BE - 1) * BACKOFF_PERIOD"
proof -
  obtain x g where x: "uniformInt R (2 ^ nat BE - 1) (dvEngine dv) = (x, g)"
    by (cases "uniformInt R (2 ^ nat BE - 1) (dvEngine dv)")
  have "fst (uniformInt R (2 ^ nat BE - 1) (dvEngine dv)) \<le> 2 ^ nat BE - 1"
    using assms(1) by (simp add: rng_laws_def)
  then have "x \<le> 2 ^ nat BE - 1" using x by simp
  moreover have "0 < (2 :: nat) ^ nat BE" by simp
  ultimately have "x < 2 ^ nat BE" by linarith
  then have "int x < int (2 ^ nat BE)" by (simp only: of_nat_less_iff)
  then have "int x < 2 ^ nat BE" by simp
  then have "int x \<le> 2 ^ nat BE - 1" by simp
  then have "int x * BACKOFF_PERIOD \<le> (2 ^ nat BE - 1) * BACKOFF_PERIOD"
    by (intro mult_right_mono) (auto simp: csma_constants)
  with x assms(2) show ?thesis by (auto simp: draw_backoff_def csma_constants)
qed

lemma StartCsma_eq:
  "\<exists>g b. LinkDevice_StartCsma R dv = (dv\<lparr>dvEngine := g\<rparr>, [ArmCsma 0 MIN_BE b])"
  by (cases "draw_backoff R MIN_BE dv")
    (auto simp: LinkDevice_StartCsma_def Let_def dest: draw_backoff_device)

lemma next_in_queue_eq:
  obtains (empty) "dvTxQueue dv = []" and "next_in_queue R dv = (dv, [])"
  | (more) g b where "dvTxQueue dv \<noteq> []"
      and "next_in_queue R dv = (dv\<lparr>dvEngine := g\<rparr>, [ArmCsma 0 MIN_BE b])"
proof (cases "dvTxQueue dv = []")
  case True
  then show thesis by (intro empty) (simp_all add: next_in_queue_def)
next
  case False
  obtain g b where "LinkDevice_StartCsma R dv = (dv\<lparr>dvEngine := g\<rparr>, [ArmCsma 0 MIN_BE b])"
    using StartCsma_eq by blast
  with False show thesis by (intro more) (simp_all add: next_in_queue_def)
qed

text \<open>
  The backoff step: give up after \<open>MAX_CSMA_BACKOFFS\<close>, else wait again with a larger
  exponent.
\<close>

lemma csma_backoff_eq:
  obtains (give_up) "NB + 1 > MAX_CSMA_BACKOFFS"
    and "csma_backoff R NB BE dv = next_in_queue R (dv\<lparr>dvTxQueue := tl (dvTxQueue dv)\<rparr>)"
  | (again) g b where "NB + 1 \<le> MAX_CSMA_BACKOFFS"
    and "csma_backoff R NB BE dv =
      (dv\<lparr>dvEngine := g\<rparr>, [ArmCsma (NB + 1) (min (BE + 1) MAX_BE) b])"
proof (cases "NB + 1 > MAX_CSMA_BACKOFFS")
  case True
  then show thesis by (intro give_up) (simp_all add: csma_backoff_def Let_def)
next
  case False
  obtain b dv' where d: "draw_backoff R (min (BE + 1) MAX_BE) dv = (b, dv')"
    by (cases "draw_backoff R (min (BE + 1) MAX_BE) dv")
  then obtain g where "dv' = dv\<lparr>dvEngine := g\<rparr>" using draw_backoff_device by blast
  moreover have "(if BE + 1 > MAX_BE then MAX_BE else BE + 1) = min (BE + 1) MAX_BE" by auto
  ultimately have "csma_backoff R NB BE dv =
      (dv\<lparr>dvEngine := g\<rparr>, [ArmCsma (NB + 1) (min (BE + 1) MAX_BE) b])"
    using False d by (simp add: csma_backoff_def Let_def)
  with False show thesis by (intro again) simp_all
qed

lemma StartTx_cases:
  obtains (too_big) "int (Packet_GetLength h pkt) > lnkMtu (dvLink dv)"
      and "LinkDevice_StartTx R pkt h dv = (h, dv, [])"
  | (full) "int (Packet_GetLength h pkt) \<le> lnkMtu (dvLink dv)"
      and "dvTxLimit dv \<le> length (dvTxQueue dv)"
      and "LinkDevice_StartTx R pkt h dv = (h, dv, [])"
  | (queued) g b where "int (Packet_GetLength h pkt) \<le> lnkMtu (dvLink dv)"
      and "length (dvTxQueue dv) < dvTxLimit dv"
      and "LinkDevice_StartTx R pkt h dv =
        (Packet_SetSrc (dvMac dv) pkt h,
         dv\<lparr>dvTxQueue := dvTxQueue dv @ [pkt], dvEngine := g\<rparr>, [ArmCsma 0 MIN_BE b])"
proof -
  obtain g b where csma: "LinkDevice_StartCsma R (dv\<lparr>dvTxQueue := dvTxQueue dv @ [pkt]\<rparr>) =
      (dv\<lparr>dvTxQueue := dvTxQueue dv @ [pkt], dvEngine := g\<rparr>, [ArmCsma 0 MIN_BE b])"
    using StartCsma_eq[of R "dv\<lparr>dvTxQueue := dvTxQueue dv @ [pkt]\<rparr>"] by auto
  consider "int (Packet_GetLength h pkt) > lnkMtu (dvLink dv)"
    | "int (Packet_GetLength h pkt) \<le> lnkMtu (dvLink dv)" "dvTxLimit dv \<le> length (dvTxQueue dv)"
    | "int (Packet_GetLength h pkt) \<le> lnkMtu (dvLink dv)" "length (dvTxQueue dv) < dvTxLimit dv"
    by linarith
  then show thesis
  proof cases
    case 1
    then show thesis by (intro too_big) (simp_all add: LinkDevice_StartTx_def)
  next
    case 2
    then show thesis by (intro full) (simp_all add: LinkDevice_StartTx_def)
  next
    case 3
    with csma show thesis by (intro queued) (simp_all add: LinkDevice_StartTx_def Let_def)
  qed
qed

lemma device_ok_StartTx:
  assumes "device_ok dv" and "LinkDevice_StartTx R pkt h dv = (h', dv', io)"
  shows "device_ok dv' \<and> same_device dv dv' \<and> dvFaces dv' = dvFaces dv \<and> length h' = length h"
  using assms
  by (cases rule: StartTx_cases[where h = h and pkt = pkt and dv = dv and R = R]) (auto simp: device_ok_def same_device_def)

lemma device_ok_Send:
  assumes "device_ok dv" and "LinkFace_Send R pkt f h dv = (h', dv', io)"
  shows "device_ok dv' \<and> same_device dv dv' \<and> dvFaces dv' = dvFaces dv \<and> length h' = length h"
  using device_ok_StartTx[OF assms(1), of R pkt "Packet_SetDst (lfRemoteMac f) pkt h" h' dv' io]
    assms(2) by (simp add: LinkFace_Send_def)

lemma StartRx_cases:
  assumes "device_ok dv"
  obtains (deaf) "dvState dv = TX" and "LinkDevice_StartRx h pkt dv = Inr (dv, [])"
  | (start) t where "dvState dv = IDLE"
      and "LinkDevice_StartRx h pkt dv =
        Inr (dv\<lparr>dvState := RX, dvPendingRx := Some pkt\<rparr>, [ArmRx t])"
  | (collide) t where "dvState dv = RX \<or> dvState dv = RX_COLLIDE"
      and "LinkDevice_StartRx h pkt dv =
        Inr (dv\<lparr>dvState := RX_COLLIDE, dvPendingRx := Some pkt\<rparr>, [ArmRx t])"
proof -
  obtain t where "tx_delay (lnkTxRate (dvLink dv)) (Packet_GetLength h pkt) = Inr t"
    using assms tx_delay_Inr by (auto simp: device_ok_def)
  then show thesis
    using assms deaf start[of t] collide[of t]
    by (cases "dvState dv") (auto simp: device_ok_def active_states_def LinkDevice_StartRx_def)
qed

lemma device_ok_StartRx:
  assumes "device_ok dv" and "LinkDevice_StartRx h pkt dv = Inr (dv', io)"
  shows "device_ok dv' \<and> same_device dv dv' \<and> dvFaces dv' = dvFaces dv \<and>
    dvTxQueue dv' = dvTxQueue dv"
  using assms
  by (cases rule: StartRx_cases[OF assms(1), where h = h and pkt = pkt])
    (auto simp: device_ok_def same_device_def active_states_def)

lemma DoCsma_cases:
  assumes "device_ok dv" and "dvTxQueue dv \<noteq> []"
  obtains (transmit) t where "dvState dv = IDLE"
      and "LinkDevice_DoCsma R NB BE False h dv = Inr (dv\<lparr>dvState := TX\<rparr>,
        [PostTransmit (lnkId (dvLink dv)) (dvNodeId dv) (hd (dvTxQueue dv)), ArmCsma (-1) (-1) t])"
  | (busy) "dvState dv = RX \<or> dvState dv = RX_COLLIDE"
      and "LinkDevice_DoCsma R NB BE False h dv = Inr (csma_backoff R NB BE dv)"
  | (finished) "dvState dv = TX"
      and "LinkDevice_DoCsma R NB BE False h dv =
        Inr (next_in_queue R (dv\<lparr>dvTxQueue := tl (dvTxQueue dv), dvState := IDLE\<rparr>))"
proof -
  obtain pkt q where q: "dvTxQueue dv = pkt # q" using assms(2) by (cases "dvTxQueue dv") auto
  obtain t where "tx_delay (lnkTxRate (dvLink dv)) (Packet_GetLength h pkt) = Inr t"
    using assms tx_delay_Inr by (auto simp: device_ok_def)
  then show thesis
    using assms q transmit[of t] busy finished
    by (cases "dvState dv") (auto simp: device_ok_def active_states_def LinkDevice_DoCsma_def)
qed

lemma device_ok_DoCsma:
  assumes "device_ok dv" and "LinkDevice_DoCsma R NB BE err h dv = Inr (dv', io)"
  shows "device_ok dv' \<and> same_device dv dv' \<and> dvFaces dv' = dvFaces dv"
proof (cases err)
  case True
  with assms show ?thesis by (simp add: LinkDevice_DoCsma_def)
next
  case False
  with assms(2) have q: "dvTxQueue dv \<noteq> []" by (auto simp: LinkDevice_DoCsma_def)
  have len: "length (tl (dvTxQueue dv)) \<le> dvTxLimit dv"
    using assms(1) by (auto simp: device_ok_def)
  from assms(1) q show ?thesis
  proof (cases rule: DoCsma_cases[where R = R and NB = NB and BE = BE and h = h])
    case (transmit t)
    with assms False q show ?thesis by (auto simp: device_ok_def same_device_def active_states_def)
  next
    case busy
    show ?thesis
    proof (cases rule: csma_backoff_eq[where NB = NB and R = R and BE = BE and dv = dv])
      case give_up
      with busy assms False len show ?thesis
        by (cases rule: next_in_queue_eq[where R = R and dv = "dv\<lparr>dvTxQueue := tl (dvTxQueue dv)\<rparr>"])
          (auto simp: device_ok_def same_device_def)
    next
      case (again g b)
      with busy assms False show ?thesis by (auto simp: device_ok_def same_device_def)
    qed
  next
    case finished
    with assms False len show ?thesis
      by (cases rule: next_in_queue_eq[where R = R and
            dv = "dv\<lparr>dvTxQueue := tl (dvTxQueue dv), dvState := IDLE\<rparr>"])
        (auto simp: device_ok_def same_device_def active_states_def)
  qed
qed

section \<open>The node as a provider of link faces\<close>

text \<open>
  What a device relies on when it asks its node for a link face: the face is new, goes to
  the address asked for through this device, and every other face stays as it is.
  \<open>faces_known\<close> says that a device's own table agrees with the node's.
\<close>

definition faces_known :: "('nd \<Rightarrow> int \<Rightarrow> link_face option) \<Rightarrow> device \<Rightarrow> 'nd \<Rightarrow> bool" where
  "faces_known face_of dv nd \<longleftrightarrow>
     (\<forall>(m, f) \<in> set (dvFaces dv). lfRemoteMac f = m \<and> lfDevice f = dvId dv \<and>
        face_of nd (lfId f) = Some f)"

lemma faces_knownD:
  "faces_known face_of dv nd \<Longrightarrow> map_of (dvFaces dv) m = Some f \<Longrightarrow>
     lfRemoteMac f = m \<and> lfDevice f = dvId dv \<and> face_of nd (lfId f) = Some f"
  by (auto simp: faces_known_def dest!: map_of_SomeD)

lemma device_ok_put_face: "device_ok dv \<Longrightarrow> device_ok (dv\<lparr>dvFaces := om_put m f (dvFaces dv)\<rparr>)"
  by (simp add: device_ok_def om.ok_put)

locale link_face_provider =
  fixes add :: "'nd add_face"
    and face_of :: "'nd \<Rightarrow> int \<Rightarrow> link_face option"
    and good :: "'nd \<Rightarrow> bool"
  assumes add_good: "good nd \<Longrightarrow> add m d nd = Inr (f, nd') \<Longrightarrow> good nd'"
    and add_fresh: "good nd \<Longrightarrow> add m d nd = Inr (f, nd') \<Longrightarrow> face_of nd (lfId f) = None"
    and add_face: "good nd \<Longrightarrow> add m d nd = Inr (f, nd') \<Longrightarrow>
      lfRemoteMac f = m \<and> lfDevice f = d \<and> face_of nd' = (face_of nd)(lfId f \<mapsto> f)"
begin

lemma other_faces_known:
  assumes "faces_known face_of dv nd" and "good nd" and "add m d nd = Inr (f, nd')"
  shows "faces_known face_of dv nd'"
  using assms add_fresh[OF assms(2,3)] add_face[OF assms(2,3)]
  by (fastforce simp: faces_known_def)

lemma put_face_known:
  assumes "faces_known face_of dv nd" and "good nd" and "om_ok (dvFaces dv)"
    and "add m (dvId dv) nd = Inr (f, nd')"
  shows "faces_known face_of (dv\<lparr>dvFaces := om_put m f (dvFaces dv)\<rparr>) nd'"
  using other_faces_known[OF assms(1,2,4)] add_face[OF assms(2,4)] assms(3)
  by (auto simp: faces_known_def om.entries_put)

lemma AddBroadcastFace_ok:
  assumes "good nd" and "device_ok dv" and "faces_known face_of dv nd"
    and "LinkDevice_AddBroadcastFace add dv nd = Inr (dv', nd')"
  shows "good nd' \<and> device_ok dv' \<and> same_device dv dv' \<and> faces_known face_of dv' nd' \<and>
    map_of (dvFaces dv') BROADCAST_MAC \<noteq> None"
proof -
  obtain f nd1 where add: "add BROADCAST_MAC (dvId dv) nd = Inr (f, nd1)"
    using assms(4) by (auto simp: LinkDevice_AddBroadcastFace_def and_then_Inr_iff)
  have om: "om_ok (dvFaces dv)" using assms(2) by (simp add: device_ok_def)
  have eq: "dv' = dv\<lparr>dvFaces := om_put BROADCAST_MAC f (dvFaces dv)\<rparr>" "nd' = nd1"
    using assms(4) add by (simp_all add: LinkDevice_AddBroadcastFace_def)
  show ?thesis
    unfolding eq using device_ok_put_face[OF assms(2)] add_good[OF assms(1) add]
      put_face_known[OF assms(3,1) om add]
    by (simp add: same_device_def kv_simps)
qed

text \<open>A received frame is dispatched, if it is for this device, on a face to its source.\<close>

lemma receive_frame_ok:
  assumes "good nd" and "device_ok dv" and "faces_known face_of dv nd"
    and "receive_frame add h pkt dv nd = Inr (dv', nd', io)"
  shows "good nd' \<and> device_ok dv' \<and> same_device dv dv' \<and> faces_known face_of dv' nd' \<and>
    dvState dv' = dvState dv \<and> dvTxQueue dv' = dvTxQueue dv \<and>
    dvPendingRx dv' = dvPendingRx dv \<and>
    (if Packet_GetDst h pkt = dvMac dv \<or> Packet_GetDst h pkt = BROADCAST_MAC
     then \<exists>f. map_of (dvFaces dv') (Packet_GetSrc h pkt) = Some f \<and>
            io = [PostDispatch (lfId f) (Packet_GetBlock h pkt)]
     else io = [] \<and> nd' = nd)"
proof -
  let ?src = "Packet_GetSrc h pkt"
  let ?for_us = "Packet_GetDst h pkt = dvMac dv \<or> Packet_GetDst h pkt = BROADCAST_MAC"
  have om: "om_ok (dvFaces dv)" using assms(2) by (simp add: device_ok_def)
  consider "\<not> ?for_us" | f where ?for_us "map_of (dvFaces dv) ?src = Some f"
    | ?for_us "map_of (dvFaces dv) ?src = None" by fastforce
  then show ?thesis
  proof cases
    case 1
    then have "dv' = dv \<and> nd' = nd \<and> io = []" using assms(4) by (simp add: receive_frame_def)
    with 1 assms show ?thesis by simp
  next
    case 2
    then have "dv' = dv \<and> nd' = nd \<and> io = [PostDispatch (lfId f) (Packet_GetBlock h pkt)]"
      using assms(4) by (simp add: receive_frame_def)
    with 2 assms show ?thesis by simp
  next
    case 3
    obtain f nd1 where add: "add ?src (dvId dv) nd = Inr (f, nd1)"
      using 3 assms(4) by (auto simp: receive_frame_def and_then_Inr_iff Let_def)
    have eq: "dv' = dv\<lparr>dvFaces := om_put ?src f (dvFaces dv)\<rparr>" "nd' = nd1"
      "io = [PostDispatch (lfId f) (Packet_GetBlock h pkt)]"
      using 3 add assms(4) by (simp_all add: receive_frame_def)
    show ?thesis
      unfolding eq using 3 device_ok_put_face[OF assms(2)] add_good[OF assms(1) add]
        put_face_known[OF assms(3,1) om add]
      by (simp add: same_device_def kv_simps)
  qed
qed

lemma PostRx_ok:
  assumes "good nd" and "device_ok dv" and "faces_known face_of dv nd"
    and "LinkDevice_PostRx add err h dv nd = Inr (dv', nd', io)"
  shows "good nd' \<and> device_ok dv' \<and> same_device dv dv' \<and> faces_known face_of dv' nd' \<and>
    dvTxQueue dv' = dvTxQueue dv"
proof (cases "\<not> err \<and> dvState dv = RX")
  case True
  then obtain pkt dv1 nd1 io1 where "dvPendingRx dv = Some pkt"
    and rf: "receive_frame add h pkt dv nd = Inr (dv1, nd1, io1)"
    and "dv' = dv1\<lparr>dvState := IDLE\<rparr>" and "nd' = nd1"
    using assms(4) by (auto simp: LinkDevice_PostRx_def and_then_Inr_iff split: option.splits)
  then show ?thesis
    using receive_frame_ok[OF assms(1-3) rf]
    by (auto simp: device_ok_def same_device_def active_states_def faces_known_def)
next
  case False
  with assms show ?thesis
    by (cases "dvState dv")
      (auto simp: LinkDevice_PostRx_def device_ok_def same_device_def active_states_def
        faces_known_def split: if_splits)
qed

text \<open>All that \<open>PostRx\<close> does to the node is to create at most one face for this device.\<close>

lemma PostRx_node:
  assumes "LinkDevice_PostRx add err h dv nd = Inr (dv', nd', io)"
  shows "nd' = nd \<or> (\<exists>m. (\<exists>f. add m (dvId dv) nd = Inr (f, nd')))"
  using assms
  by (auto simp: LinkDevice_PostRx_def receive_frame_def Let_def and_then_Inr_iff
      split: if_splits phy_state.splits option.splits)

lemma PostRx_keeps_faces:
  assumes "LinkDevice_PostRx add err h dv nd = Inr (dv', nd', io)"
    and "map_of (dvFaces dv) m = Some f"
  shows "map_of (dvFaces dv') m = Some f"
  using assms
  by (auto simp: LinkDevice_PostRx_def receive_frame_def Let_def kv_simps and_then_Inr_iff
      split: if_splits phy_state.splits option.splits)

text \<open>
  \<open>PostRx\<close> raises on a well-formed device if it is called in \<open>TX\<close>, or if the node cannot create
  the face it needs.
\<close>

lemma PostRx_fails:
  assumes "device_ok dv" and "LinkDevice_PostRx add err h dv nd = Inl e"
  shows "\<not> err \<and> (dvState dv = TX \<and> e = RuntimeError (''[LinkDevice::PostRx] illegal state: '' @ PhyStateToString TX) \<or>
    dvState dv = RX \<and> (\<exists>m. add m (dvId dv) nd = Inl e))"
  using assms
  by (auto simp: LinkDevice_PostRx_def receive_frame_def Let_def device_ok_def active_states_def and_then_Inl_iff
      split: if_splits phy_state.splits option.splits)

lemma PostRx_total:
  assumes "device_ok dv" and "err \<or> dvState dv \<noteq> TX" and "\<And>m. \<exists>r. add m (dvId dv) nd = Inr r"
  shows "\<exists>dv' nd' io. LinkDevice_PostRx add err h dv nd = Inr (dv', nd', io)"
proof (cases "LinkDevice_PostRx add err h dv nd")
  case (Inl e)
  from PostRx_fails[OF assms(1) Inl] assms(2,3) show ?thesis by (metis sum.distinct(1))
next
  case (Inr r)
  then show ?thesis by (cases r) simp
qed

end

section \<open>Properties\<close>

text \<open>
  C27: An arriving frame never fails on a well-formed device. While the device transmits the
  frame is ignored; on an idle device its reception starts; during a reception it collides
  with the frame already arriving, and when the reception ends nothing is dispatched.
\<close>

theorem StartRx_collides:
  assumes "device_ok dv"
  shows "\<exists>dv' io. LinkDevice_StartRx h pkt dv = Inr (dv', io) \<and> device_ok dv' \<and>
      (dvState dv = TX \<longrightarrow> dv' = dv \<and> io = []) \<and>
      (dvState dv = IDLE \<longrightarrow> dvState dv' = RX \<and> dvPendingRx dv' = Some pkt) \<and>
      (dvState dv = RX \<or> dvState dv = RX_COLLIDE \<longrightarrow> dvState dv' = RX_COLLIDE \<and>
         LinkDevice_PostRx add False h dv' nd = Inr (dv'\<lparr>dvState := IDLE\<rparr>, nd, []))"
  using assms
  by (cases rule: StartRx_cases[where h = h and pkt = pkt])
    (use device_ok_StartRx[OF assms, of h pkt] in \<open>auto simp: LinkDevice_PostRx_def\<close>)

definition sample_device :: device where
  "sample_device = LinkDevice_new counting_rng 3 ''d0'' 1 (Link_const sample_link) ''a''"

lemma device_ok_sample: "device_ok sample_device"
  unfolding sample_device_def
  by (intro inv_intros)
    (simp add: Link_const_def sample_link_def Link_AddNodeDevice_def Link_new_def
      link_const.truncate_def)

theorem StartRx_collides_witness:
  "\<exists>dv' io. LinkDevice_StartRx [Packet_new [1]] 0 (sample_device\<lparr>dvState := RX, dvPendingRx := Some 0\<rparr>) =
     Inr (dv', io) \<and> dvState dv' = RX_COLLIDE"
proof -
  have "device_ok (sample_device\<lparr>dvState := RX, dvPendingRx := Some 0\<rparr>)"
    using device_ok_sample by (simp add: device_ok_def active_states_def)
  from StartRx_collides[OF this, where h = "[Packet_new [1]]" and pkt = 0 and nd = "0 :: int" and
      add = "\<lambda>m d n. Inr (\<lparr>lfId = 0, lfRemoteMac = m, lfDevice = d\<rparr>, n)"]
  show ?thesis by auto
qed

text \<open>
  C28: A frame is dispatched only at the end of an undisturbed reception: the device is in
  state RX, the frame is the one it was receiving, and it was sent to the device's address or
  to all.
\<close>

theorem PostRx_dispatches_own_frames:
  assumes "LinkDevice_PostRx add err h dv nd = Inr (dv', nd', PostDispatch f wire # rest)"
  shows "\<not> err \<and> dvState dv = RX \<and> dvState dv' = IDLE \<and> rest = [] \<and>
      (\<exists>r. dvPendingRx dv = Some r \<and> wire = Packet_GetBlock h r \<and>
           Packet_GetDst h r \<in> {dvMac dv, BROADCAST_MAC})"
  using assms
  by (auto simp: LinkDevice_PostRx_def receive_frame_def Let_def and_then_Inr_iff
      split: if_splits phy_state.splits option.splits)

theorem PostRx_dispatches_own_frames_witness:
  "Packet_GetDst [\<lparr>pktDst = 1, pktSrc = 2, pktWire = [6, 0]\<rparr>] 0 \<in> {1, BROADCAST_MAC}"
proof -
  let ?dv = "sample_device\<lparr>dvState := RX, dvPendingRx := Some 0\<rparr>"
  let ?h = "[\<lparr>pktDst = 1, pktSrc = 2, pktWire = [6, 0]\<rparr>]"
  let ?add = "\<lambda>m d (n :: int). Inr (\<lparr>lfId = n, lfRemoteMac = m, lfDevice = d\<rparr>, n + 1)"
  obtain dv' nd' where "LinkDevice_PostRx ?add False ?h ?dv 4 =
      Inr (dv', nd', PostDispatch 4 [6, 0] # [])"
    by (auto simp: LinkDevice_PostRx_def receive_frame_def Packet_GetDst_def Packet_GetSrc_def
        Packet_GetBlock_def sample_device_def LinkDevice_new_def)
  from PostRx_dispatches_own_frames[OF this] show ?thesis
    by (simp add: sample_device_def LinkDevice_new_def)
qed

text \<open>
  C29: \<open>StartTx\<close> drops a frame larger than the MTU and a frame that finds the queue full, and
  otherwise appends it to the queue with the device's address as its source and starts CSMA
  with a backoff of at most seven periods; the queue never exceeds its limit.
\<close>

theorem StartTx_drop_tail:
  assumes "device_ok dv" and "rng_laws R" and "pkt < length h"
  shows "let (h', dv', io) = LinkDevice_StartTx R pkt h dv in
    device_ok dv' \<and> length (dvTxQueue dv') \<le> dvTxLimit dv' \<and>
    (if int (Packet_GetLength h pkt) > lnkMtu (dvLink dv) \<or> length (dvTxQueue dv) = dvTxLimit dv
     then h' = h \<and> dv' = dv \<and> io = []
     else dvTxQueue dv' = dvTxQueue dv @ [pkt] \<and> Packet_GetSrc h' pkt = dvMac dv \<and>
       (\<exists>t. io = [ArmCsma 0 MIN_BE t] \<and> 0 \<le> t \<and> t \<le> 7 * BACKOFF_PERIOD))"
proof -
  let ?dv = "dv\<lparr>dvTxQueue := dvTxQueue dv @ [pkt]\<rparr>"
  obtain t dv1 where d: "draw_backoff R MIN_BE ?dv = (t, dv1)" by (cases "draw_backoff R MIN_BE ?dv")
  have t: "0 \<le> t" "t \<le> 7 * BACKOFF_PERIOD"
    using draw_backoff_range[OF assms(2) d] by (simp_all add: csma_constants)
  obtain g where dv1: "dv1 = ?dv\<lparr>dvEngine := g\<rparr>" using draw_backoff_device[OF d] by blast
  have len: "length (dvTxQueue dv) \<le> dvTxLimit dv" using assms(1) by (simp add: device_ok_def)
  have "LinkDevice_StartTx R pkt h dv =
    (if int (Packet_GetLength h pkt) > lnkMtu (dvLink dv) \<or> length (dvTxQueue dv) = dvTxLimit dv
     then (h, dv, []) else (Packet_SetSrc (dvMac dv) pkt h, dv1, [ArmCsma 0 MIN_BE t]))"
    using d len by (simp add: LinkDevice_StartTx_def LinkDevice_StartCsma_def)
  then show ?thesis
    using assms(1,3) t len
    by (simp add: dv1 getters_after_setters device_ok_def)
qed

theorem StartTx_drop_tail_witness:
  "dvTxQueue (fst (snd (LinkDevice_StartTx counting_rng 0 [Packet_new [6, 0]] sample_device))) = [0]"
  using StartTx_drop_tail[OF device_ok_sample counting_rng_laws, of 0 "[Packet_new [6, 0]]"]
  by (simp add: sample_device_def LinkDevice_new_def Packet_GetLength_def Packet_GetBlock_def
      Packet_new_def Link_const_def sample_link_def Link_AddNodeDevice_def Link_new_def
      link_const.truncate_def split: prod.splits)

text \<open>
  C36: \<open>StartTx\<close> on a transmitting device replaces the timer that ends the transmission by a
  backoff of at most seven periods: when it fires, the device drops the frame on the air and
  is idle again, however long the frame takes to send.
\<close>

theorem StartTx_cuts_transmission:
  assumes "rng_laws R" and "dvState dv = TX" and "dvTxQueue dv = p # ps"
    and "int (Packet_GetLength h pkt) \<le> lnkMtu (dvLink dv)" and "length (dvTxQueue dv) < dvTxLimit dv"
  shows "\<exists>h' dv' t. LinkDevice_StartTx R pkt h dv = (h', dv', [ArmCsma 0 MIN_BE t]) \<and>
    0 \<le> t \<and> t \<le> 7 * BACKOFF_PERIOD \<and> dvState dv' = TX \<and>
    (\<forall>h2. \<exists>dv2 t2. LinkDevice_DoCsma R 0 MIN_BE False h2 dv' = Inr (dv2, [ArmCsma 0 MIN_BE t2]) \<and>
      dvState dv2 = IDLE \<and> dvTxQueue dv2 = ps @ [pkt])"
proof -
  let ?dv = "dv\<lparr>dvTxQueue := dvTxQueue dv @ [pkt]\<rparr>"
  obtain t dv1 where d: "draw_backoff R MIN_BE ?dv = (t, dv1)" by (cases "draw_backoff R MIN_BE ?dv")
  have t: "0 \<le> t" "t \<le> 7 * BACKOFF_PERIOD"
    using draw_backoff_range[OF assms(1) d] by (simp_all add: csma_constants)
  obtain g where dv1: "dv1 = ?dv\<lparr>dvEngine := g\<rparr>" using draw_backoff_device[OF d] by blast
  have tx: "LinkDevice_StartTx R pkt h dv = (Packet_SetSrc (dvMac dv) pkt h, dv1, [ArmCsma 0 MIN_BE t])"
    using d assms(4,5) by (simp add: LinkDevice_StartTx_def LinkDevice_StartCsma_def)
  let ?sent = "dv1\<lparr>dvTxQueue := ps @ [pkt], dvState := IDLE\<rparr>"
  have "LinkDevice_DoCsma R 0 MIN_BE False h2 dv1 = Inr (LinkDevice_StartCsma R ?sent)" for h2
    using assms(2,3) by (simp add: LinkDevice_DoCsma_def next_in_queue_def dv1)
  moreover obtain g' t2 where "LinkDevice_StartCsma R ?sent = (?sent\<lparr>dvEngine := g'\<rparr>, [ArmCsma 0 MIN_BE t2])"
    using StartCsma_eq by blast
  ultimately show ?thesis using tx t assms(2) by (auto simp: dv1)
qed

text \<open>A frame of 1000 bytes takes 30517 microseconds at 256 kbit/s; the backoff is 2240 at most.\<close>

theorem StartTx_cuts_transmission_witness:
  "(\<exists>h' dv' t. LinkDevice_StartTx counting_rng 1 [Packet_new (replicate 1000 6), Packet_new [6, 0]]
      (sample_device\<lparr>dvState := TX, dvTxQueue := [0]\<rparr>) = (h', dv', [ArmCsma 0 MIN_BE t]) \<and> t \<le> 2240) \<and>
    tx_delay 256 1000 = Inr 30517"
proof -
  have "7 * BACKOFF_PERIOD = 2240" by (simp add: csma_constants)
  moreover have "tx_delay 256 1000 = Inr 30517" by (simp add: tx_delay_def trunc_real_def)
  moreover note StartTx_cuts_transmission[OF counting_rng_laws, of "sample_device\<lparr>dvState := TX, dvTxQueue := [0]\<rparr>"
      0 "[]" "[Packet_new (replicate 1000 6), Packet_new [6, 0]]" 1]
  ultimately show ?thesis
    by (fastforce simp: sample_device_def LinkDevice_new_def Packet_GetLength_def Packet_GetBlock_def
      Packet_new_def Link_const_def sample_link_def Link_AddNodeDevice_def Link_new_def link_const.truncate_def)
qed

text \<open>
  The clear-channel assessments of one packet: \<open>assess\<close> runs the handler that the last
  request armed, \<open>assessments k\<close> the first \<open>k\<close> of them after \<open>StartCsma\<close>.
\<close>

definition assess :: "rng \<Rightarrow> heap \<Rightarrow> device \<times> io_req list \<Rightarrow> (device \<times> io_req list) result" where
  "assess R h s =
     (case s of (dv, [ArmCsma NB BE t]) \<Rightarrow> LinkDevice_DoCsma R NB BE False h dv | _ \<Rightarrow> Inr s)"

fun assessments :: "rng \<Rightarrow> heap \<Rightarrow> nat \<Rightarrow> device \<Rightarrow> (device \<times> io_req list) result" where
  "assessments R h 0 dv = Inr (LinkDevice_StartCsma R dv)"
| "assessments R h (Suc k) dv = and_then (assessments R h k dv) (assess R h)"

lemma draw_le_max:
  assumes "rng_laws R" and "draw_backoff R BE dv = (t, dv')" and "BE \<le> MAX_BE"
  shows "0 \<le> t \<and> t \<le> 31 * BACKOFF_PERIOD"
proof -
  have "(2 :: int) ^ nat BE \<le> 2 ^ 5"
    using assms(3) by (intro power_increasing) (auto simp: csma_constants)
  then have "((2 :: int) ^ nat BE - 1) * BACKOFF_PERIOD \<le> 31 * BACKOFF_PERIOD"
    by (intro mult_right_mono) (auto simp: csma_constants)
  with draw_backoff_range[OF assms(1,2)] show ?thesis by linarith
qed

lemma assess_busy:
  assumes "device_ok dv" and "rng_laws R" and "dvTxQueue dv \<noteq> []"
    and "dvState dv = RX \<or> dvState dv = RX_COLLIDE"
  shows "NB < MAX_CSMA_BACKOFFS \<Longrightarrow> BE \<le> MAX_BE \<Longrightarrow>
      \<exists>g t'. assess R h (dv, [ArmCsma NB BE t]) =
        Inr (dv\<lparr>dvEngine := g\<rparr>, [ArmCsma (NB + 1) (min (BE + 1) MAX_BE) t']) \<and>
        0 \<le> t' \<and> t' \<le> 31 * BACKOFF_PERIOD"
    and "NB = MAX_CSMA_BACKOFFS \<Longrightarrow>
      assess R h (dv, [ArmCsma NB BE t]) =
        Inr (next_in_queue R (dv\<lparr>dvTxQueue := tl (dvTxQueue dv)\<rparr>))"
proof -
  have do: "assess R h (dv, [ArmCsma NB BE t]) = Inr (csma_backoff R NB BE dv)"
    using assms(1,3) by (cases rule: DoCsma_cases[where R = R and NB = NB and BE = BE and h = h])
      (use assms(4) in \<open>auto simp: assess_def\<close>)
  show "assess R h (dv, [ArmCsma NB BE t]) =
      Inr (next_in_queue R (dv\<lparr>dvTxQueue := tl (dvTxQueue dv)\<rparr>))" if "NB = MAX_CSMA_BACKOFFS"
    using that do by (simp add: csma_backoff_def)
  show "\<exists>g t'. assess R h (dv, [ArmCsma NB BE t]) =
        Inr (dv\<lparr>dvEngine := g\<rparr>, [ArmCsma (NB + 1) (min (BE + 1) MAX_BE) t']) \<and>
        0 \<le> t' \<and> t' \<le> 31 * BACKOFF_PERIOD" if "NB < MAX_CSMA_BACKOFFS" "BE \<le> MAX_BE"
  proof -
    obtain t' dv' where d: "draw_backoff R (min (BE + 1) MAX_BE) dv = (t', dv')"
      by (cases "draw_backoff R (min (BE + 1) MAX_BE) dv")
    moreover have "(if BE + 1 > MAX_BE then MAX_BE else BE + 1) = min (BE + 1) MAX_BE" by auto
    moreover obtain g where "dv' = dv\<lparr>dvEngine := g\<rparr>" using draw_backoff_device[OF d] by blast
    moreover have "0 \<le> t' \<and> t' \<le> 31 * BACKOFF_PERIOD"
      using draw_le_max[OF assms(2) d] by simp
    ultimately show ?thesis
      using that do by (auto simp: csma_backoff_def Let_def)
  qed
qed

lemma assessments_busy:
  assumes "device_ok dv" and "rng_laws R" and "dvTxQueue dv \<noteq> []"
    and "dvState dv = RX \<or> dvState dv = RX_COLLIDE" and "k \<le> 4"
  shows "\<exists>g t. assessments R h k dv =
        Inr (dv\<lparr>dvEngine := g\<rparr>, [ArmCsma (int k) (min (MIN_BE + int k) MAX_BE) t]) \<and>
        0 \<le> t \<and> t \<le> 31 * BACKOFF_PERIOD"
  using assms(5)
proof (induction k)
  case 0
  obtain t dv' where d: "draw_backoff R MIN_BE dv = (t, dv')" by (cases "draw_backoff R MIN_BE dv")
  with draw_backoff_device[OF d] draw_le_max[OF assms(2) d] show ?case
    by (auto simp: LinkDevice_StartCsma_def csma_constants)
next
  case (Suc k)
  then obtain g t where a: "assessments R h k dv =
      Inr (dv\<lparr>dvEngine := g\<rparr>, [ArmCsma (int k) (min (MIN_BE + int k) MAX_BE) t])" by auto
  have "device_ok (dv\<lparr>dvEngine := g\<rparr>)" using assms(1) by (simp add: device_ok_def)
  then have "\<exists>g' t'. assess R h (dv\<lparr>dvEngine := g\<rparr>, [ArmCsma (int k) (min (MIN_BE + int k) MAX_BE) t]) =
      Inr (dv\<lparr>dvEngine := g'\<rparr>,
        [ArmCsma (int k + 1) (min (min (MIN_BE + int k) MAX_BE + 1) MAX_BE) t']) \<and>
      0 \<le> t' \<and> t' \<le> 31 * BACKOFF_PERIOD"
    using assess_busy(1)[of "dv\<lparr>dvEngine := g\<rparr>" R "int k" "min (MIN_BE + int k) MAX_BE" h t]
      assms(2-4) Suc.prems by (simp add: csma_constants)
  moreover have "min (min (MIN_BE + int k) MAX_BE + 1) MAX_BE = min (MIN_BE + int (Suc k)) MAX_BE"
    and "int k + 1 = int (Suc k)" by (simp_all add: csma_constants)
  ultimately show ?case using a by simp
qed

text \<open>
  C30: The packet at the head of the queue of a device that finds its channel busy each time
  is assessed \<open>MAX_CSMA_BACKOFFS + 1\<close> times: before assessment \<open>k + 1\<close> it has waited with
  exponent min(3 + k, 5), for at most 31 backoff periods, and the last one drops it and turns
  to the rest of the queue.
\<close>

theorem csma_gives_up:
  assumes "device_ok dv" and "rng_laws R" and "dvTxQueue dv = pkt # q"
    and "dvState dv = RX \<or> dvState dv = RX_COLLIDE"
  shows "(\<forall>k \<le> 4. \<exists>g t. assessments R h k dv =
        Inr (dv\<lparr>dvEngine := g\<rparr>, [ArmCsma (int k) (min (MIN_BE + int k) MAX_BE) t]) \<and>
        0 \<le> t \<and> t \<le> 31 * BACKOFF_PERIOD) \<and>
    (\<exists>g. assessments R h 5 dv = Inr (next_in_queue R (dv\<lparr>dvEngine := g, dvTxQueue := q\<rparr>)))"
proof
  show all: "\<forall>k \<le> 4. \<exists>g t. assessments R h k dv =
        Inr (dv\<lparr>dvEngine := g\<rparr>, [ArmCsma (int k) (min (MIN_BE + int k) MAX_BE) t]) \<and>
        0 \<le> t \<and> t \<le> 31 * BACKOFF_PERIOD"
    using assessments_busy[OF assms(1,2) _ assms(4)] assms(3) by simp
  from all obtain g t where a: "assessments R h 4 dv =
      Inr (dv\<lparr>dvEngine := g\<rparr>, [ArmCsma (int 4) (min (MIN_BE + int 4) MAX_BE) t])" by blast
  have "device_ok (dv\<lparr>dvEngine := g\<rparr>)" using assms(1) by (simp add: device_ok_def)
  then have "assess R h (dv\<lparr>dvEngine := g\<rparr>, [ArmCsma (int 4) (min (MIN_BE + int 4) MAX_BE) t]) =
      Inr (next_in_queue R (dv\<lparr>dvEngine := g, dvTxQueue := q\<rparr>))"
    using assess_busy(2)[of "dv\<lparr>dvEngine := g\<rparr>" R "int 4"] assms(2-4)
    by (simp add: csma_constants)
  moreover have "assessments R h 5 dv = and_then (assessments R h 4 dv) (assess R h)"
    by (simp add: eval_nat_numeral)
  ultimately show "\<exists>g. assessments R h 5 dv =
      Inr (next_in_queue R (dv\<lparr>dvEngine := g, dvTxQueue := q\<rparr>))"
    using a by auto
qed

theorem csma_gives_up_witness:
  "\<exists>dv'. assessments counting_rng [] 5
      (sample_device\<lparr>dvState := RX, dvPendingRx := Some 0, dvTxQueue := [0]\<rparr>) = Inr (dv', []) \<and>
     dvTxQueue dv' = []"
proof -
  let ?dv = "sample_device\<lparr>dvState := RX, dvPendingRx := Some 0, dvTxQueue := [0]\<rparr>"
  have "device_ok ?dv"
    using device_ok_sample
    by (simp add: device_ok_def active_states_def sample_device_def LinkDevice_new_def)
  from csma_gives_up[OF this counting_rng_laws, of 0 "[]" "[]"] show ?thesis
    by (auto simp: next_in_queue_def)
qed

end
