(* ===== verification/FibManager.thy ===== *)
theory FibManager
  imports Fib
begin

text \<open>
  The manager of the FIB (\<^verbatim>\<open>core/fib-manager.h\<close>, \<^verbatim>\<open>core/fib-manager.cc\<close>): it owns the
  prefix \<open>/localhost/nfd/rib\<close> on face 0 and executes the register commands of local
  applications. \<open>ProcessCommand\<close> returns the new FIB and the Data packet that
  \<open>SendResponse\<close> hands to the node's \<open>HandleData\<close>; the node composes the two.
\<close>

record 'n fib_manager =
  fmId :: int
  fmCmdPrefix :: 'n

definition FibManager_new :: "('n, 'c) ndn \<Rightarrow> int \<Rightarrow> 'n fib \<Rightarrow> 'n fib_manager \<times> 'n fib" where
  "FibManager_new L faceId fib =
     (let fm = \<lparr>fmId = faceId, fmCmdPrefix = nmOfUri L ''/localhost/nfd/rib''\<rparr>
      in (fm, Fib_AddRoute (fmCmdPrefix fm) (fmId fm) fib))"

definition FibManager_CleanUpFib :: "int \<Rightarrow> 'n fib \<Rightarrow> 'n fib" where
  "FibManager_CleanUpFib faceId fib = Fib_CleanUp faceId fib"

definition FibManager_extractParameters ::
  "('n, 'c) ndn \<Rightarrow> 'c \<Rightarrow> 'n control_parameters option" where
  "FibManager_extractParameters L c = cpDecode L c"

definition FibManager_validateParameters ::
  "('n, 'c) ndn \<Rightarrow> 'n control_parameters \<Rightarrow> 'n control_parameters option" where
  "FibManager_validateParameters L p = (if ribValidate L p then Some (ribDefaults L p) else None)"

definition FibManager_setResponse :: "nat \<Rightarrow> string \<Rightarrow> bytes option \<Rightarrow> control_response" where
  "FibManager_setResponse code txt body = \<lparr>crCode = code, crText = txt, crBody = body\<rparr>"

text \<open>
  \<open>getName\<close> and \<open>getFaceId\<close> assert that the field is there. The 64-bit face id is
  narrowed to the \<open>int\<close> that \<open>Fib::AddRoute\<close> takes.
\<close>

definition FibManager_AddNextHop ::
  "('n, 'c) ndn \<Rightarrow> 'n control_parameters \<Rightarrow> 'n fib \<Rightarrow> ('n fib \<times> control_response) result" where
  "FibManager_AddNextHop L p fib =
     (case FibManager_validateParameters L p of
        None \<Rightarrow> Inr (fib, FibManager_setResponse 400 ''Malformed command'' None)
      | Some p' \<Rightarrow>
          (case (cpName p', cpFaceId p') of
             (Some prefix, Some faceId) \<Rightarrow>
               Inr (Fib_AddRoute prefix (to_int32 (uint faceId)) fib,
                    FibManager_setResponse 200 ''Success'' (Some (cpEncode L p')))
           | _ \<Rightarrow> Inl AssertionFailed))"

definition FibManager_SendResponse ::
  "('n, 'c) ndn \<Rightarrow> 'n \<Rightarrow> control_response \<Rightarrow> 'n data" where
  "FibManager_SendResponse L name response = makeResponse L name response"

definition own_face :: "int \<Rightarrow> 'n control_parameters \<Rightarrow> 'n control_parameters" where
  "own_face faceId p =
     (if cpFaceId p = None \<or> cpFaceId p = Some 0
      then p\<lparr>cpFaceId := Some (word_of_int faceId)\<rparr> else p)"

definition FibManager_ProcessCommand ::
  "('n, 'c) ndn \<Rightarrow> 'n fib_manager \<Rightarrow> int \<Rightarrow> 'n \<Rightarrow> 'n fib \<Rightarrow> ('n fib \<times> 'n data option) result" where
  "FibManager_ProcessCommand L fm faceId command fib =
     (let n = nmSize L (fmCmdPrefix fm) in
      case (nmAt L command n, nmAt L command (n + 1)) of
        (Some verb, Some parameterComponent) \<Rightarrow>
          (if verb = cmpOfString L ''register''
           then (case FibManager_extractParameters L parameterComponent of
                   None \<Rightarrow> Inr (fib, None)
                 | Some p \<Rightarrow>
                     and_then (FibManager_AddNextHop L (own_face faceId p) fib)
                       (\<lambda>(fib', response).
                         Inr (fib', Some (FibManager_SendResponse L command response))))
           else Inr (fib, None))
      | _ \<Rightarrow> Inl (UndefinedBehaviour ''name component out of range''))"

section \<open>The commands keep the FIB well formed\<close>

lemma fib_ok_manager_new [inv_intros]: "fib_ok fib \<Longrightarrow> fib_ok (snd (FibManager_new L f fib))"
  by (simp add: FibManager_new_def Let_def fib_ok_AddRoute)

lemma fib_ok_AddNextHop:
  "fib_ok fib \<Longrightarrow> FibManager_AddNextHop L p fib = Inr (fib', r) \<Longrightarrow> fib_ok fib'"
  by (auto simp: FibManager_AddNextHop_def fib_ok_AddRoute split: option.splits)

lemma fib_ok_ProcessCommand:
  "fib_ok fib \<Longrightarrow> FibManager_ProcessCommand L fm f c fib = Inr (fib', d) \<Longrightarrow> fib_ok fib'"
  by (auto simp: FibManager_ProcessCommand_def and_then_Inr_iff Let_def
      split: option.splits if_splits dest: fib_ok_AddNextHop)

text \<open>Under the documented behaviour of the control commands \<open>getName\<close> and \<open>getFaceId\<close> succeed.\<close>

lemma own_face_has_face: "\<exists>f. cpFaceId (own_face faceId p) = Some f"
  by (cases "cpFaceId p") (auto simp: own_face_def)

lemma AddNextHop_total:
  assumes "control_laws L" and "cpFaceId p = Some f"
  shows "\<exists>fib' r. FibManager_AddNextHop L p fib = Inr (fib', r)"
  using assms
  by (fastforce simp: FibManager_AddNextHop_def FibManager_validateParameters_def control_laws_def
      split: option.splits)

lemma ProcessCommand_total:
  assumes "control_laws L" and "name_laws L" and "nmSize L (fmCmdPrefix fm) + 1 < nmSize L c"
  shows "\<exists>fib' d. FibManager_ProcessCommand L fm f c fib = Inr (fib', d)"
proof -
  obtain verb par where "nmAt L c (nmSize L (fmCmdPrefix fm)) = Some verb"
    and "nmAt L c (nmSize L (fmCmdPrefix fm) + 1) = Some par"
    using at_None_iff[OF assms(2), of c] assms(3)
    by (metis add_lessD1 linorder_not_less not_None_eq)
  then show ?thesis
    using AddNextHop_total[OF assms(1)] own_face_has_face
    by (fastforce simp: FibManager_ProcessCommand_def and_then_Inr_iff split: option.splits)
qed

lemma ProcessCommand_reply_name:
  assumes "control_laws L" and "FibManager_ProcessCommand L fm f c fib = Inr (fib', Some d)"
  shows "dName d = c"
  using assms
  by (auto simp: FibManager_ProcessCommand_def FibManager_SendResponse_def and_then_Inr_iff
      control_laws_def Let_def split: option.splits if_splits)

text \<open>The effect of a well-formed register command.\<close>

lemma register_command:
  assumes "control_laws L" and "fib_ok fib"
    and "nmAt L c (nmSize L (fmCmdPrefix fm)) = Some (cmpOfString L ''register'')"
    and "nmAt L c (nmSize L (fmCmdPrefix fm) + 1) = Some par"
    and "cpDecode L par = Some p" and "ribValidate L (own_face faceId p)" and "cpName p = Some prefix"
  shows "\<exists>fib' body. FibManager_ProcessCommand L fm faceId c fib =
      Inr (fib', Some (makeResponse L c \<lparr>crCode = 200, crText = ''Success'', crBody = Some body\<rparr>)) \<and>
    routes fib' = insert (prefix,
        case cpFaceId p of None \<Rightarrow> to_int32 (uint (word_of_int faceId :: 64 word))
        | Some f \<Rightarrow> if f = 0 then to_int32 (uint (word_of_int faceId :: 64 word))
                    else to_int32 (uint f)) (routes fib)"
proof -
  let ?q = "own_face faceId p"
  obtain f where f: "cpFaceId ?q = Some f" using own_face_has_face by blast
  have "cpName (ribDefaults L ?q) = Some prefix" and "cpFaceId (ribDefaults L ?q) = Some f"
    using assms(1,7) f by (auto simp: control_laws_def own_face_def)
  moreover have "f = (case cpFaceId p of None \<Rightarrow> word_of_int faceId
      | Some f \<Rightarrow> if f = 0 then word_of_int faceId else f)"
    using f by (auto simp: own_face_def split: option.splits if_splits)
  ultimately show ?thesis
    using assms
    by (auto simp: FibManager_ProcessCommand_def FibManager_extractParameters_def
        FibManager_AddNextHop_def FibManager_validateParameters_def FibManager_setResponse_def
        FibManager_SendResponse_def routes_AddRoute split: option.splits)
qed

section \<open>Properties\<close>

text \<open>
  A well-formed register command adds exactly one route: its prefix, to the requesting
  face when the command names no face or face 0 and otherwise to the face it names (as a
  32-bit integer), and answers with code 200 under the name of the command.
\<close>

theorem register_adds_route:
  assumes "control_laws L" and "fib_ok fib"
    and "nmAt L c (nmSize L (fmCmdPrefix fm)) = Some (cmpOfString L ''register'')"
    and "nmAt L c (nmSize L (fmCmdPrefix fm) + 1) = Some par"
    and "cpDecode L par = Some p" and "ribValidate L (own_face faceId p)" and "cpName p = Some prefix"
  shows "\<exists>fib' body. FibManager_ProcessCommand L fm faceId c fib =
      Inr (fib', Some (makeResponse L c \<lparr>crCode = 200, crText = ''Success'', crBody = Some body\<rparr>)) \<and>
    routes fib' = insert (prefix,
        case cpFaceId p of None \<Rightarrow> to_int32 (uint (word_of_int faceId :: 64 word))
        | Some f \<Rightarrow> if f = 0 then to_int32 (uint (word_of_int faceId :: 64 word))
                    else to_int32 (uint f)) (routes fib)"
  using assms by (rule register_command)

text \<open>The conversions of a face id of the node to \<open>uint64_t\<close> and back give the id.\<close>

lemma face_id_roundtrip:
  assumes "0 \<le> f" and "f < 2 ^ 31"
  shows "to_int32 (uint (word_of_int f :: 64 word)) = f"
proof -
  have "uint (word_of_int f :: 64 word) = f"
    using assms by (simp add: uint_word_of_int)
  then show ?thesis using assms by (simp add: to_int32_id)
qed

definition register_lib :: "64 word option \<Rightarrow> (string list, string) ndn" where
  "register_lib f = list_ndn [] [] [(''p'', \<lparr>cpName = Some [''app''], cpFaceId = f\<rparr>)]"

definition register_name :: "string list" where
  "register_name = [''localhost'', ''nfd'', ''rib'', ''register'', ''p'']"

definition sample_manager :: "string list fib_manager" where
  "sample_manager = \<lparr>fmId = 0, fmCmdPrefix = [''localhost'', ''nfd'', ''rib'']\<rparr>"

theorem register_adds_route_witness:
  "\<exists>fib' d. FibManager_ProcessCommand (register_lib None) sample_manager 7 register_name [] =
      Inr (fib', Some d) \<and> routes fib' = {([''app''], 7)}"
proof -
  have laws: "control_laws (register_lib None)"
    by (simp add: register_lib_def list_ndn_control_laws)
  note [simp] = register_lib_def register_name_def sample_manager_def
  have "\<exists>fib' body. FibManager_ProcessCommand (register_lib None) sample_manager 7 register_name [] =
      Inr (fib', Some (makeResponse (register_lib None) register_name
        \<lparr>crCode = 200, crText = ''Success'', crBody = Some body\<rparr>)) \<and>
    routes fib' = insert ([''app''], to_int32 (uint (word_of_int 7 :: 64 word))) (routes [])"
    using register_adds_route[OF laws fib_ok_Nil, of register_name sample_manager "''p''"
        "\<lparr>cpName = Some [''app''], cpFaceId = None\<rparr>" 7 "[''app'']"]
    by (simp add: list_ndn_def own_face_def)
  then show ?thesis using face_id_roundtrip[of 7] by fastforce
qed

text \<open>
  C37: The check that maps face id 0 to the requesting face can be passed by: a register
  command for a face id that is a multiple of 2 ^ 32 other than 0 routes its prefix to face
  0, the FIB manager, because the id is narrowed to 32 bits only after the check.
\<close>

theorem register_narrows_face_id:
  assumes "control_laws L" and "fib_ok fib"
    and "nmAt L c (nmSize L (fmCmdPrefix fm)) = Some (cmpOfString L ''register'')"
    and "nmAt L c (nmSize L (fmCmdPrefix fm) + 1) = Some par"
    and "cpDecode L par = Some \<lparr>cpName = Some prefix, cpFaceId = Some f\<rparr>"
    and "ribValidate L \<lparr>cpName = Some prefix, cpFaceId = Some f\<rparr>"
    and "f \<noteq> 0" and "uint f mod 2 ^ 32 = 0"
  shows "\<exists>fib' d. FibManager_ProcessCommand L fm faceId c fib = Inr (fib', Some d) \<and>
    (prefix, 0) \<in> routes fib'"
proof -
  have "own_face faceId \<lparr>cpName = Some prefix, cpFaceId = Some f\<rparr> =
      \<lparr>cpName = Some prefix, cpFaceId = Some f\<rparr>"
    using assms(7) by (simp add: own_face_def)
  moreover have "to_int32 (uint f) = 0"
  proof -
    have "uint f = 0 + uint f div 2 ^ 32 * 2 ^ 32"
      using assms(8) div_mult_mod_eq[of "uint f" "2 ^ 32"] by simp
    then have "to_int32 (uint f) = to_int32 0"
      using to_int32_add_multiple[of 0 "uint f div 2 ^ 32"] by metis
    then show ?thesis by (simp add: to_int32_id)
  qed
  ultimately show ?thesis
    using register_command[OF assms(1-5), of faceId prefix] assms(6,7) by auto
qed

theorem register_narrows_face_id_witness:
  "\<exists>fib' d. FibManager_ProcessCommand (register_lib (Some 0x100000000)) sample_manager 7
      register_name [] = Inr (fib', Some d) \<and> ([''app''], 0) \<in> routes fib'"
proof (rule register_narrows_face_id[where f = "0x100000000"])
  show "control_laws (register_lib (Some 0x100000000))"
    by (simp add: register_lib_def list_ndn_control_laws)
qed (simp_all add: register_lib_def register_name_def sample_manager_def fib_ok_Nil list_ndn_def)

text \<open>
  C38: \<open>ProcessCommand\<close> reads the components after the command prefix without a check: for
  a name of at most one component more than the prefix the read is out of range, for every
  longer name the command is processed without a failure.
\<close>

theorem ProcessCommand_out_of_range:
  assumes "control_laws L" and "name_laws L"
  shows "(FibManager_ProcessCommand L fm faceId c fib =
            Inl (UndefinedBehaviour ''name component out of range'')) =
         (nmSize L c \<le> nmSize L (fmCmdPrefix fm) + 1)"
proof (cases "nmSize L c \<le> nmSize L (fmCmdPrefix fm) + 1")
  case True
  then have "nmAt L c (nmSize L (fmCmdPrefix fm) + 1) = None"
    using at_None_iff[OF assms(2)] by blast
  with True show ?thesis
    by (simp add: FibManager_ProcessCommand_def Let_def split: option.split)
next
  case False
  then show ?thesis using ProcessCommand_total[OF assms, of fm c faceId fib] by auto
qed

theorem ProcessCommand_out_of_range_witness:
  "FibManager_ProcessCommand (register_lib None) sample_manager 7
     [''localhost'', ''nfd'', ''rib''] [] =
     Inl (UndefinedBehaviour ''name component out of range'')"
  using ProcessCommand_out_of_range[of "register_lib None" sample_manager 7
      "[''localhost'', ''nfd'', ''rib'']" "[]"]
  by (simp add: register_lib_def sample_manager_def list_ndn_control_laws list_ndn_name_laws)

end
