(* ===== verification/AppFace.thy ===== *)
theory AppFace
  imports Packet
begin

text \<open>
  Application faces (\<^verbatim>\<open>core/app-face.h\<close>, \<^verbatim>\<open>core/app-face.cc\<close>): the byte stream of a
  local application is cut into TLV blocks, each of which is dispatched. The dispatcher is
  an argument: the node provides it (locale \<open>packet_dispatcher\<close>). \<open>frames\<close> is the
  specification of the cutting: \<open>HandleReceive\<close> dispatches exactly the complete blocks of
  what it has buffered and keeps the rest, however the stream was split into reads.
\<close>

section \<open>State and operations\<close>

text \<open>
  \<open>afInput\<close> is the first \<open>m_inputBufferSize\<close> bytes of the receive buffer; the capacity of
  the buffer is \<open>maxPacketSize\<close> (\<open>ndn::MAX_NDN_PACKET_SIZE\<close>).
\<close>

record app_face =
  afId :: int
  afInput :: bytes

definition AppFace_new :: "int \<Rightarrow> app_face" where
  "AppFace_new faceId = \<lparr>afId = faceId, afInput = []\<rparr>"

text \<open>
  The loop of \<open>HandleReceive\<close>, over the offset. A block of size 0 would keep it from ending:
  \<open>None\<close> is the end of the fuel. The result is \<open>isOk\<close>, the offset and what the dispatcher
  made of the state.
\<close>

fun parse_loop ::
  "('n, 'c) ndn \<Rightarrow> (bytes \<Rightarrow> 's \<Rightarrow> 's result) \<Rightarrow> nat \<Rightarrow> bytes \<Rightarrow> nat \<Rightarrow> 's \<Rightarrow>
   (bool \<times> nat \<times> 's) result option" where
  "parse_loop L dispatch 0 buf offset s = None"
| "parse_loop L dispatch (Suc fuel) buf offset s =
     (if length buf - offset > 0
      then case blkFromBuffer L (drop offset buf) of
             None \<Rightarrow> Some (Inr (False, offset, s))
           | Some element \<Rightarrow>
               (case dispatch element s of
                  Inl e \<Rightarrow> Some (Inl e)
                | Inr s' \<Rightarrow> parse_loop L dispatch fuel buf (offset + length element) s')
      else Some (Inr (True, offset, s)))"

definition too_large :: error where
  "too_large = RuntimeError ''Incoming packet too large to process''"

text \<open>
  \<open>received\<close> is what the socket has written behind the buffered bytes. The face is \<open>None\<close>
  when no further receive is started: \<open>remove\<close> is the node's \<open>RemoveFace\<close>.
\<close>

definition AppFace_HandleReceive ::
  "('n, 'c) ndn \<Rightarrow> (bytes \<Rightarrow> 's \<Rightarrow> 's result) \<Rightarrow> ('s \<Rightarrow> 's result) \<Rightarrow> bool \<Rightarrow> bytes \<Rightarrow> app_face \<Rightarrow> 's \<Rightarrow>
   (app_face option \<times> 's) result option" where
  "AppFace_HandleReceive L dispatch remove err received af s =
     (if \<not> err
      then let buf = afInput af @ received in
           map_option (\<lambda>r. and_then r (\<lambda>(isOk, offset, s').
             if \<not> isOk \<and> length buf = maxPacketSize L \<and> offset = 0 then Inl too_large
             else let rest = (if offset > 0
                              then (if offset \<noteq> length buf then drop offset buf else [])
                              else buf)
                  in Inr (Some (af\<lparr>afInput := rest\<rparr>), s')))
             (parse_loop L dispatch (Suc (length buf)) buf 0 s)
      else Some (and_then (remove s) (\<lambda>s'. Inr (None, s'))))"

section \<open>Cutting a stream into blocks\<close>

function frames :: "('n, 'c) ndn \<Rightarrow> bytes \<Rightarrow> bytes list \<times> bytes" where
  "frames L [] = ([], [])"
| "frames L (b # bs) =
     (case blkFromBuffer L (b # bs) of
        None \<Rightarrow> ([], b # bs)
      | Some e \<Rightarrow>
          (if e = [] then ([], b # bs)
           else let (fs, rest) = frames L (drop (length e) (b # bs)) in (e # fs, rest)))"
  by pat_completeness auto
termination
  by (relation "measure (length \<circ> snd)") (auto simp: neq_Nil_conv)

lemma frames_None: "blkFromBuffer L bs = None \<Longrightarrow> frames L bs = ([], bs)"
  by (cases bs) auto

lemma frames_Some:
  assumes "block_laws L" and "blkFromBuffer L bs = Some e"
  shows "frames L bs =
    (e # fst (frames L (drop (length e) bs)), snd (frames L (drop (length e) bs)))"
proof -
  obtain rest where "bs = e @ rest" and "e \<noteq> []" using blockE[OF assms] by blast
  then obtain b bs' where "bs = b # bs'" by (metis append_is_Nil_conv neq_Nil_conv)
  with assms(2) \<open>e \<noteq> []\<close> show ?thesis by (simp add: split_beta)
qed

lemma frames_concat:
  assumes "block_laws L"
  shows "concat (fst (frames L bs)) @ snd (frames L bs) = bs"
proof (induction bs rule: length_induct)
  case (1 bs)
  show ?case
  proof (cases "blkFromBuffer L bs")
    case None
    then show ?thesis by (simp add: frames_None)
  next
    case (Some e)
    then obtain rest where "bs = e @ rest" and "e \<noteq> []" using blockE[OF assms] by blast
    with 1 frames_Some[OF assms Some] show ?thesis by simp
  qed
qed

lemma frames_append:
  assumes "block_laws L"
  shows "frames L (xs @ ys) =
    (fst (frames L xs) @ fst (frames L (snd (frames L xs) @ ys)),
     snd (frames L (snd (frames L xs) @ ys)))"
proof (induction xs rule: length_induct)
  case (1 xs)
  show ?case
  proof (cases "blkFromBuffer L xs")
    case None
    then show ?thesis by (simp add: frames_None)
  next
    case (Some e)
    then obtain rest where xs: "xs = e @ rest" and "e \<noteq> []" using blockE[OF assms] by blast
    have "length rest < length xs" using xs \<open>e \<noteq> []\<close> by simp
    then have "frames L (rest @ ys) =
        (fst (frames L rest) @ fst (frames L (snd (frames L rest) @ ys)),
         snd (frames L (snd (frames L rest) @ ys)))" using 1 by blast
    moreover have "blkFromBuffer L (xs @ ys) = Some e" using block_extend[OF assms Some] .
    ultimately show ?thesis
      using frames_Some[OF assms Some] frames_Some[OF assms, of "xs @ ys" e] xs by simp
  qed
qed

lemma rest_incomplete:
  assumes "block_laws L" and "snd (frames L bs) \<noteq> []"
  shows "blkFromBuffer L (snd (frames L bs)) = None"
  using assms(2)
proof (induction bs rule: length_induct)
  case (1 bs)
  show ?case
  proof (cases "blkFromBuffer L bs")
    case None
    then show ?thesis by (simp add: frames_None)
  next
    case (Some e)
    then obtain rest where "bs = e @ rest" and "e \<noteq> []" using blockE[OF assms(1)] by blast
    with 1 frames_Some[OF assms(1) Some] show ?thesis by simp
  qed
qed

lemma frames_rest:
  assumes "block_laws L"
  shows "frames L (snd (frames L bs)) = ([], snd (frames L bs))"
  using rest_incomplete[OF assms, of bs] by (cases "snd (frames L bs) = []") (auto simp: frames_None)

text \<open>With fuel for every buffered byte the loop ends and has dispatched the frames in order.\<close>

lemma parse_loop_frames:
  assumes "block_laws L" and "offset \<le> length buf" and "length buf - offset < fuel"
  shows "parse_loop L dispatch fuel buf offset s =
    Some (and_then (each dispatch (fst (frames L (drop offset buf))) s)
      (\<lambda>s'. Inr (snd (frames L (drop offset buf)) = [],
                 length buf - length (snd (frames L (drop offset buf))), s')))"
  using assms(2,3)
proof (induction fuel arbitrary: offset s)
  case (Suc fuel)
  show ?case
  proof (cases "offset = length buf")
    case True
    then show ?thesis by simp
  next
    case False
    then have off: "offset < length buf" using Suc.prems by simp
    show ?thesis
    proof (cases "blkFromBuffer L (drop offset buf)")
      case None
      then show ?thesis using off by (auto simp: frames_None)
    next
      case (Some e)
      then obtain rest where rest: "drop offset buf = e @ rest" and "e \<noteq> []"
        using blockE[OF assms(1)] by blast
      then have len: "length buf - offset = length e + length rest"
        by (metis length_append length_drop)
      have drop: "drop (offset + length e) buf = rest"
        by (metis rest add.commute append_eq_conv_conj drop_drop)
      have "0 < length e" using \<open>e \<noteq> []\<close> by simp
      then have "offset + length e \<le> length buf" and "length buf - (offset + length e) < fuel"
        using len off Suc.prems by linarith+
      note IH = Suc.IH[OF this, unfolded drop]
      show ?thesis
        using off Some IH frames_Some[OF assms(1) Some] rest
        by (auto split: sum.splits)
    qed
  qed
qed simp

declare parse_loop.simps(2) [simp del]

text \<open>What one call of \<open>HandleReceive\<close> does, in terms of the frames.\<close>

definition absorb ::
  "('n, 'c) ndn \<Rightarrow> (bytes \<Rightarrow> 's \<Rightarrow> 's result) \<Rightarrow> bytes \<Rightarrow> 's \<Rightarrow> (bytes \<times> 's) result" where
  "absorb L dispatch buf s =
     (let (fs, rest) = frames L buf in
      and_then (each dispatch fs s) (\<lambda>s'.
        if fs = [] \<and> length rest = maxPacketSize L then Inl too_large else Inr (rest, s')))"

lemma HandleReceive_absorb:
  assumes "block_laws L" and "0 < maxPacketSize L"
  shows "AppFace_HandleReceive L dispatch remove False received af s =
    Some (and_then (absorb L dispatch (afInput af @ received) s)
      (\<lambda>(rest, s'). Inr (Some (af\<lparr>afInput := rest\<rparr>), s')))"
proof -
  let ?buf = "afInput af @ received"
  obtain fs rest where fr: "frames L ?buf = (fs, rest)" by (cases "frames L ?buf")
  have buf: "?buf = concat fs @ rest" using frames_concat[OF assms(1), of ?buf] fr by simp
  have fs_Nil: "fs = [] \<longleftrightarrow> length (concat fs) = 0"
  proof -
    have "hd fs \<noteq> []" if "fs \<noteq> []"
    proof (cases "blkFromBuffer L ?buf")
      case None
      then show ?thesis using fr frames_None[OF None] that by simp
    next
      case (Some e)
      then have "e \<noteq> []" using blockE[OF assms(1)] by blast
      moreover have "hd fs = e" using fr frames_Some[OF assms(1) Some] by (metis fst_conv list.sel(1))
      ultimately show ?thesis by simp
    qed
    then show ?thesis by (cases fs) auto
  qed
  have loop: "parse_loop L dispatch (Suc (length ?buf)) ?buf 0 s =
      Some (and_then (each dispatch fs s) (\<lambda>s'. Inr (rest = [], length (concat fs), s')))"
    using parse_loop_frames[OF assms(1), of 0 ?buf "Suc (length ?buf)" dispatch s] fr buf by simp
  have len: "length ?buf = length (concat fs) + length rest"
    by (simp only: buf length_append)
  have cond: "(rest \<noteq> [] \<and> length ?buf = maxPacketSize L \<and> length (concat fs) = 0) =
      (fs = [] \<and> length rest = maxPacketSize L)"
    using fs_Nil assms(2) len by auto
  have "drop (length (concat fs)) ?buf = rest" unfolding buf by (metis append_eq_conv_conj)
  then have rest: "(if length (concat fs) > 0
      then (if length (concat fs) \<noteq> length ?buf then drop (length (concat fs)) ?buf else [])
      else ?buf) = rest"
    using len by (cases "concat fs = []") (auto simp del: length_concat)
  show ?thesis
  proof (cases "each dispatch fs s")
    case (Inl e)
    then show ?thesis unfolding AppFace_HandleReceive_def absorb_def Let_def loop fr by simp
  next
    case (Inr s')
    then show ?thesis
      unfolding AppFace_HandleReceive_def absorb_def Let_def loop fr
      using cond rest by simp
  qed
qed

section \<open>The interface to the node\<close>

text \<open>
  What a face asks of the node it dispatches to: a dispatched packet keeps the state good
  and the face in it (\<open>serving\<close>), the removal of the face keeps the state good.
\<close>

locale packet_dispatcher =
  fixes dispatch :: "bytes \<Rightarrow> 's \<Rightarrow> 's result"
    and remove :: "'s \<Rightarrow> 's result"
    and good :: "'s \<Rightarrow> bool"
    and serving :: "'s \<Rightarrow> bool"
  assumes dispatch_good: "good s \<Longrightarrow> dispatch wire s = Inr s' \<Longrightarrow> good s'"
    and dispatch_serving: "good s \<Longrightarrow> serving s \<Longrightarrow> dispatch wire s = Inr s' \<Longrightarrow> serving s'"
    and remove_good: "good s \<Longrightarrow> serving s \<Longrightarrow> remove s = Inr s' \<Longrightarrow> good s'"
begin

lemma dispatch_all_good:
  assumes "good s" and "serving s" and "each dispatch fs s = Inr s'"
  shows "good s' \<and> serving s'"
  using assms(3) conjI[OF assms(1,2)]
  by (rule each_invariant[where I = "\<lambda>s. good s \<and> serving s"])
    (use dispatch_good dispatch_serving in blast)

lemma parse_loop_good:
  "good s \<Longrightarrow> serving s \<Longrightarrow> parse_loop L dispatch fuel buf offset s = Some (Inr (b, k, s')) \<Longrightarrow>
     good s' \<and> serving s'"
proof (induction fuel arbitrary: offset s)
  case (Suc fuel)
  then show ?case
    by (auto simp: parse_loop.simps(2) split: if_splits option.splits sum.splits)
      (metis Suc.IH dispatch_good dispatch_serving)+
qed simp

lemma HandleReceive_good:
  assumes "good s" and "serving s"
    and "AppFace_HandleReceive L dispatch remove err received af s = Some (Inr (af', s'))"
  shows "good s' \<and> (af' \<noteq> None \<longrightarrow> serving s')"
  using assms
  by (cases err)
    (auto simp: AppFace_HandleReceive_def and_then_Inr_iff Let_def split: if_splits
      dest: parse_loop_good remove_good)

lemma parse_loop_raises:
  "good s \<Longrightarrow> serving s \<Longrightarrow> parse_loop L dispatch fuel buf offset s = Some (Inl e) \<Longrightarrow>
     \<exists>wire s. good s \<and> serving s \<and> dispatch wire s = Inl e"
proof (induction fuel arbitrary: offset s)
  case (Suc fuel)
  then show ?case
    by (auto simp: parse_loop.simps(2) split: if_splits option.splits sum.splits)
      (metis Suc.IH dispatch_good dispatch_serving)
qed simp

lemma HandleReceive_raises:
  assumes "good s" and "serving s"
    and "AppFace_HandleReceive L dispatch remove err received af s = Some (Inl e)"
  shows "e = too_large \<or> remove s = Inl e \<or> (\<exists>wire s. good s \<and> serving s \<and> dispatch wire s = Inl e)"
  using assms
  by (cases err)
    (auto simp: AppFace_HandleReceive_def and_then_Inl_iff Let_def split: if_splits
      dest: parse_loop_raises)

lemma HandleReceive_face:
  "AppFace_HandleReceive L dispatch remove err received af s = Some (Inr (Some af', s')) \<Longrightarrow>
     afId af' = afId af"
  by (cases err)
    (auto simp: AppFace_HandleReceive_def and_then_Inr_iff Let_def split: if_splits)

end

section \<open>Properties\<close>

text \<open>
  C22: \<open>HandleReceive\<close> always returns, and with room in the buffer: it dispatches the complete
  blocks of the buffered bytes in order, keeps the incomplete rest, and raises only what a
  dispatch raises or, when the buffer is full and holds no complete block, "too large". So
  the next receive always has at least one byte to fill.
\<close>

theorem HandleReceive_makes_room:
  assumes "block_laws L" and "length (afInput af @ received) \<le> maxPacketSize L"
    and "0 < maxPacketSize L"
  shows "AppFace_HandleReceive L dispatch remove False received af s =
    Some (let (fs, rest) = frames L (afInput af @ received) in
      and_then (each dispatch fs s) (\<lambda>s'.
        if length rest = maxPacketSize L then Inl too_large
        else Inr (Some (af\<lparr>afInput := rest\<rparr>), s'))) \<and>
    length (snd (frames L (afInput af @ received))) + length (concat (fst (frames L (afInput af @ received))))
      \<le> maxPacketSize L"
proof -
  let ?buf = "afInput af @ received"
  obtain fs rest where fr: "frames L ?buf = (fs, rest)" by (cases "frames L ?buf")
  have len: "length (concat fs) + length rest \<le> maxPacketSize L"
    using frames_concat[OF assms(1), of ?buf] fr assms(2) by (metis fst_conv length_append snd_conv)
  have "fs = []" if "length rest = maxPacketSize L"
  proof (cases "blkFromBuffer L ?buf")
    case (Some e)
    have "concat fs = []" using len that by simp
    moreover have "hd fs = e" and "fs \<noteq> []"
      using fr frames_Some[OF assms(1) Some] by (metis fst_conv list.sel(1) list.discI)+
    moreover have "e \<noteq> []" using blockE[OF assms(1) Some] by blast
    ultimately show ?thesis by (metis concat_eq_Nil_conv list.set_sel(1))
  qed (use fr frames_None[of L ?buf] in simp)
  then have "absorb L dispatch ?buf s = and_then (each dispatch fs s) (\<lambda>s'.
        if length rest = maxPacketSize L then Inl too_large else Inr (rest, s'))"
    by (simp add: absorb_def fr) metis
  with HandleReceive_absorb[OF assms(1,3), of dispatch remove received af s] len fr
  show ?thesis by (cases "each dispatch fs s") (simp_all add: add.commute)
qed

text \<open>The reads of a stream, one after the other.\<close>

fun receive_all ::
  "('n, 'c) ndn \<Rightarrow> (bytes \<Rightarrow> 's \<Rightarrow> 's result) \<Rightarrow> ('s \<Rightarrow> 's result) \<Rightarrow> bytes list \<Rightarrow> app_face \<Rightarrow> 's \<Rightarrow>
   (app_face \<times> 's) result option" where
  "receive_all L dispatch remove [] af s = Some (Inr (af, s))"
| "receive_all L dispatch remove (c # cs) af s =
     (case AppFace_HandleReceive L dispatch remove False c af s of
        Some (Inr (Some af', s')) \<Rightarrow> receive_all L dispatch remove cs af' s'
      | Some (Inl e) \<Rightarrow> Some (Inl e)
      | _ \<Rightarrow> None)"

lemma receive_all_frames:
  assumes "block_laws L" and "0 < maxPacketSize L"
    and "receive_all L dispatch remove cs af s = Some (Inr (af', s'))"
    and "snd (frames L (afInput af)) = afInput af"
  shows "each dispatch (fst (frames L (afInput af @ concat cs))) s = Inr s' \<and>
    afInput af' = snd (frames L (afInput af @ concat cs)) \<and> afId af' = afId af"
  using assms(3,4)
proof (induction cs arbitrary: af s)
  case Nil
  moreover have "fst (frames L (afInput af)) = []"
    using Nil.prems(2) frames_rest[OF assms(1), of "afInput af"] by (metis fst_conv)
  ultimately show ?case by simp
next
  case (Cons c cs)
  let ?fr = "frames L (afInput af @ c)"
  from Cons.prems(1) obtain s1 where
    hd: "each dispatch (fst ?fr) s = Inr s1" and
    tl: "receive_all L dispatch remove cs (af\<lparr>afInput := snd ?fr\<rparr>) s1 = Some (Inr (af', s'))"
    by (auto simp: HandleReceive_absorb[OF assms(1,2)] absorb_def split_beta and_then_Inr_iff
        split: sum.splits if_splits option.splits)
  have app: "frames L (afInput af @ concat (c # cs)) =
      (fst ?fr @ fst (frames L (snd ?fr @ concat cs)), snd (frames L (snd ?fr @ concat cs)))"
    using frames_append[OF assms(1), of "afInput af @ c" "concat cs"] by simp
  have "snd (frames L (snd ?fr)) = snd ?fr" using frames_rest[OF assms(1)] by simp
  with Cons.IH[OF tl] show ?case unfolding app using hd by (simp add: each_append)
qed

text \<open>
  C21: The packets dispatched do not depend on how the stream was split into reads: if all
  reads are processed without an exception, the dispatched packets are the frames of the
  whole stream in order, and the buffer holds its incomplete rest.
\<close>

theorem receive_chunking_irrelevant:
  assumes "block_laws L" and "0 < maxPacketSize L"
    and "receive_all L dispatch remove cs (AppFace_new f) s = Some (Inr (af', s'))"
  shows "each dispatch (fst (frames L (concat cs))) s = Inr s' \<and>
    afInput af' = snd (frames L (concat cs)) \<and> concat (fst (frames L (concat cs))) @ afInput af' = concat cs"
  using receive_all_frames[OF assms] frames_concat[OF assms(1), of "concat cs"]
  by (simp add: AppFace_new_def)

definition sample_dispatch :: "bytes \<Rightarrow> bytes list \<Rightarrow> bytes list result" where
  "sample_dispatch wire seen = Inr (seen @ [wire])"

theorem HandleReceive_makes_room_witness:
  "AppFace_HandleReceive (list_ndn [] [] []) sample_dispatch Inr False [7, 5, 1, 9, 6] (AppFace_new 1) [] =
     Some (Inr (Some \<lparr>afId = 1, afInput = [7, 5, 1, 9, 6]\<rparr>, [])) \<and>
   AppFace_HandleReceive (list_ndn [] [] []) sample_dispatch Inr False [7, 1, 1, 6] (AppFace_new 1) [] =
     Some (Inr (Some \<lparr>afId = 1, afInput = [6]\<rparr>, [[7, 1, 1]]))"
  using HandleReceive_makes_room[OF list_ndn_block_laws, of "AppFace_new 1" "[7, 5, 1, 9, 6]" "[]" "[]" "[]"
      sample_dispatch Inr "[]"]
    HandleReceive_makes_room[OF list_ndn_block_laws, of "AppFace_new 1" "[7, 1, 1, 6]" "[]" "[]" "[]"
      sample_dispatch Inr "[]"]
  by (simp add: AppFace_new_def sample_dispatch_def)

theorem receive_chunking_irrelevant_witness:
  "each sample_dispatch (fst (frames (list_ndn [] [] []) [7, 1, 1, 6])) [] = Inr [[7, 1, 1]]"
  using receive_chunking_irrelevant[OF list_ndn_block_laws, of "[]" "[]" "[]" sample_dispatch Inr "[[7], [1, 1, 6]]" 1 "[]"
      "\<lparr>afId = 1, afInput = [6]\<rparr>" "[[7, 1, 1]]"]
  by (simp add: AppFace_HandleReceive_def AppFace_new_def sample_dispatch_def eval_nat_numeral parse_loop.simps)

end
