(* ===== verification/Node.thy ===== *)
theory Node
  imports Pit FibManager Cache Device AppFace "HOL-Library.List_Lexorder" "HOL-Library.Char_ord"
begin

text \<open>
  Emulated nodes (\<^verbatim>\<open>core/node.h\<close>, \<^verbatim>\<open>core/node.cc\<close>, \<^verbatim>\<open>core/face.cc\<close>): the face and device
  tables of a node, its PIT, FIB, FIB manager and content store, and the forwarding of
  Interests and Data between faces. The handlers pass on a triple: the packet store, the
  node, and the list of what they ask of the operating system and of the io service, in
  order. The clock reading of a handler is the argument \<open>now\<close>.
\<close>

section \<open>State\<close>

datatype face = AppFc app_face | LinkFc link_face

fun Face_GetId :: "face \<Rightarrow> int" where
  "Face_GetId (AppFc af) = afId af"
| "Face_GetId (LinkFc lf) = lfId lf"

record 'n node =
  ndId :: string
  ndPath :: string
  ndIsListening :: bool
  ndFaceCounter :: int
  ndFaceTable :: "(int \<times> face) list"
  ndDeviceTable :: "(string \<times> device) list"
  ndPit :: "'n pit"
  ndFib :: "'n fib"
  ndFibManager :: "'n fib_manager option"
  ndCacheManager :: "'n cache"

text \<open>
  \<open>AppSend\<close> is \<open>async_send\<close> on the socket of an application face, \<open>AppReceive\<close>
  \<open>async_receive\<close> into the rest of its buffer, \<open>AsyncAccept\<close> \<open>async_accept\<close> with a new
  application face, \<open>ArmPitCleanUp\<close> the clean-up timer of the PIT, and \<open>DevIO\<close> a request of
  a device.
\<close>

datatype node_out =
    AppSend int bytes
  | AppReceive int
  | AsyncAccept int
  | ArmPitCleanUp time
  | DevIO string io_req

type_synonym 'n node_state = "heap \<times> 'n node \<times> node_out list"

definition Node_new :: "string \<Rightarrow> string \<Rightarrow> int \<Rightarrow> 'n node" where
  "Node_new nid path cacheLimit =
     \<lparr>ndId = nid, ndPath = path, ndIsListening = False, ndFaceCounter = 1, ndFaceTable = [],
      ndDeviceTable = [], ndPit = Pit_new (10000 * 1000000), ndFib = [],
      ndFibManager = None, ndCacheManager = CacheManager_new cacheLimit\<rparr>"

definition Node_GetId :: "'n node \<Rightarrow> string" where
  "Node_GetId nd = ndId nd"

definition Node_GetPath :: "'n node \<Rightarrow> string" where
  "Node_GetPath nd = ndPath nd"

section \<open>Configuration\<close>

definition Node_AddLinkFace :: "64 word \<Rightarrow> string \<Rightarrow> 'n node \<Rightarrow> (link_face \<times> 'n node) result" where
  "Node_AddLinkFace remoteMac dev nd =
     (let faceId = ndFaceCounter nd in
      and_then (int_succ faceId) (\<lambda>counter.
        let face = LinkFace_new faceId remoteMac dev
        in Inr (face, nd\<lparr>ndFaceCounter := counter,
                        ndFaceTable := om_put faceId (LinkFc face) (ndFaceTable nd)\<rparr>)))"

definition Node_AddDevice ::
  "rng \<Rightarrow> nat \<Rightarrow> string \<Rightarrow> 64 word \<Rightarrow> link_const \<Rightarrow> 'n node \<Rightarrow> 'n node result" where
  "Node_AddDevice R seed devId macAddr lk nd =
     (if map_of (ndDeviceTable nd) devId \<noteq> None
      then Inl (RuntimeError (''[Node::AddDevice] duplicate device id '' @ devId @
             '' on node '' @ ndId nd))
      else and_then (LinkDevice_AddBroadcastFace Node_AddLinkFace
               (LinkDevice_new R seed devId macAddr lk (ndId nd)) nd) (\<lambda>(dev, nd').
             Inr (nd'\<lparr>ndDeviceTable := om_put devId dev (ndDeviceTable nd')\<rparr>)))"

definition Node_GetDevice :: "string \<Rightarrow> 'n node \<Rightarrow> device result" where
  "Node_GetDevice devId nd =
     (case map_of (ndDeviceTable nd) devId of
        None \<Rightarrow> Inl (RuntimeError (''[Node::GetDevice] device '' @ devId @
             '' doesn't exist on node '' @ ndId nd))
      | Some dev \<Rightarrow> Inr dev)"

definition Node_AddRoute ::
  "('n, 'c) ndn \<Rightarrow> string \<Rightarrow> string \<Rightarrow> 64 word \<Rightarrow> 'n node \<Rightarrow> 'n node result" where
  "Node_AddRoute L pfx devId nexthop nd =
     (case map_of (ndDeviceTable nd) devId of
        Some dev \<Rightarrow>
          and_then (case LinkDevice_GetLinkFace nexthop dev of
                Some face \<Rightarrow> Inr (face, nd)
              | None \<Rightarrow> Node_AddLinkFace nexthop devId nd) (\<lambda>(face, nd').
            Inr (nd'\<lparr>ndFib := Fib_AddRoute (nmOfUri L pfx) (lfId face) (ndFib nd')\<rparr>))
      | None \<Rightarrow> Inl (RuntimeError (''[Node::AddRoute] ('' @ ndId nd @ '') dev '' @ devId @
             '' doesn't exist in local device table'')))"

section \<open>Starting, accepting and removing faces\<close>

text \<open>
  \<open>Start\<close> first removes the file at the path of the socket and sets the acceptor up; each of the
  four calls throws what the operating system answers.
\<close>

fun acceptor_calls :: "('n, 'c) ndn \<Rightarrow> string \<Rightarrow> acceptor_call list \<Rightarrow> unit result" where
  "acceptor_calls L n [] = Inr ()"
| "acceptor_calls L n (c # cs) =
     (case acceptorCall L n c of Some msg \<Rightarrow> Inl (RuntimeError msg) | None \<Rightarrow> acceptor_calls L n cs)"

definition Node_Start :: "('n, 'c) ndn \<Rightarrow> 'n node \<Rightarrow> ('n node \<times> node_out list) result" where
  "Node_Start L nd =
     and_then (acceptor_calls L (ndId nd) [RemovePath, OpenAcceptor, BindAcceptor, ListenAcceptor]) (\<lambda>_.
       let (fm, fib) = FibManager_new L 0 (ndFib nd);
           faceId = ndFaceCounter nd
       in and_then (int_succ faceId) (\<lambda>counter.
         Inr (nd\<lparr>ndIsListening := True, ndFib := fib, ndFibManager := Some fm,
                ndFaceCounter := counter\<rparr>,
              [ArmPitCleanUp (Pit_ScheduleCleanUp (ndPit nd)), AsyncAccept faceId])))"

text \<open>\<open>HandleAccept\<close> for the face with id \<open>f\<close>: its error argument is not looked at.\<close>

definition Node_HandleAccept :: "int \<Rightarrow> bool \<Rightarrow> 'n node \<Rightarrow> ('n node \<times> node_out list) result" where
  "Node_HandleAccept f err nd =
     (let faceId = ndFaceCounter nd in
      and_then (int_succ faceId) (\<lambda>counter.
        Inr (nd\<lparr>ndFaceCounter := counter,
               ndFaceTable := om_put f (AppFc (AppFace_new f)) (ndFaceTable nd)\<rparr>,
             [AsyncAccept faceId, AppReceive f])))"

definition Node_RemoveFace :: "int \<Rightarrow> 'n node \<Rightarrow> 'n node result" where
  "Node_RemoveFace faceId nd =
     (case ndFibManager nd of
        None \<Rightarrow> Inl (UndefinedBehaviour ''null fib manager'')
      | Some _ \<Rightarrow> Inr (nd\<lparr>ndFaceTable := kv_erase faceId (ndFaceTable nd),
                         ndFib := FibManager_CleanUpFib faceId (ndFib nd)\<rparr>))"

section \<open>Forwarding\<close>

text \<open>
  \<open>Face::Send\<close>: an application face hands the bytes of the packet to its socket, a link
  face to its device.
\<close>

fun Face_Send :: "rng \<Rightarrow> pkt_ref \<Rightarrow> face \<Rightarrow> 'n node_state \<Rightarrow> 'n node_state result" where
  "Face_Send R pkt (AppFc af) (h, nd, out) =
     Inr (h, nd, out @ [AppSend (afId af) (Packet_GetBlock h pkt)])"
| "Face_Send R pkt (LinkFc lf) (h, nd, out) =
     (case map_of (ndDeviceTable nd) (lfDevice lf) of
        None \<Rightarrow> Inl (UndefinedBehaviour ''face without device'')
      | Some dv \<Rightarrow>
          (let (h', dv', io) = LinkFace_Send R pkt lf h dv
           in Inr (h', nd\<lparr>ndDeviceTable := om_put (lfDevice lf) dv' (ndDeviceTable nd)\<rparr>,
                   out @ map (DevIO (lfDevice lf)) io)))"

definition Node_ForwardToFace ::
  "rng \<Rightarrow> pkt_ref \<Rightarrow> int \<Rightarrow> 'n node_state \<Rightarrow> 'n node_state result" where
  "Node_ForwardToFace R pkt outId s =
     (case map_of (ndFaceTable (fst (snd s))) outId of
        Some face \<Rightarrow> Face_Send R pkt face s
      | None \<Rightarrow> Inr s)"

definition Node_ForwardToFaces ::
  "rng \<Rightarrow> pkt_ref \<Rightarrow> int list \<Rightarrow> 'n node_state \<Rightarrow> 'n node_state result" where
  "Node_ForwardToFaces R pkt outList s = each (Node_ForwardToFace R pkt) outList s"

definition Node_HandleData ::
  "('n, 'c) ndn \<Rightarrow> rng \<Rightarrow> time \<Rightarrow> int \<Rightarrow> 'n data \<Rightarrow> 'n node_state \<Rightarrow> 'n node_state result" where
  "Node_HandleData L R now faceId d s =
     (case s of (h, nd, out) \<Rightarrow>
       (let (outList, pit) = Pit_ConsumeInterestWithDataName L now (dName d) [] (ndPit nd);
            nd1 = nd\<lparr>ndPit := pit\<rparr>
        in if outList \<noteq> []
           then and_then (CacheManager_Insert L now d (ndCacheManager nd1)) (\<lambda>cache.
                  let nd2 = nd1\<lparr>ndCacheManager := cache\<rparr>; (pkt, h') = DataPacket_new L d h
                  in Node_ForwardToFaces R pkt outList (h', nd2, out))
           else Inr (h, nd1, out)))"

text \<open>
  \<open>ProcessCommand\<close> through the node's manager: the response goes to \<open>HandleData\<close> as if from
  face 0.
\<close>

definition Node_ProcessCommand ::
  "('n, 'c) ndn \<Rightarrow> rng \<Rightarrow> time \<Rightarrow> int \<Rightarrow> 'n \<Rightarrow> 'n node_state \<Rightarrow> 'n node_state result" where
  "Node_ProcessCommand L R now faceId command s =
     (case s of (h, nd, out) \<Rightarrow>
       (case ndFibManager nd of
          None \<Rightarrow> Inl (UndefinedBehaviour ''null fib manager'')
        | Some fm \<Rightarrow>
            and_then (FibManager_ProcessCommand L fm faceId command (ndFib nd)) (\<lambda>(fib, reply).
              let nd1 = nd\<lparr>ndFib := fib\<rparr> in
              case reply of None \<Rightarrow> Inr (h, nd1, out)
              | Some d \<Rightarrow> Node_HandleData L R now (fmId fm) d (h, nd1, out))))"

definition Node_HandleInterest ::
  "('n, 'c) ndn \<Rightarrow> rng \<Rightarrow> time \<Rightarrow> int \<Rightarrow> 'n interest \<Rightarrow> 'n node_state \<Rightarrow> 'n node_state result" where
  "Node_HandleInterest L R now faceId i s =
     (case s of (h, nd, out) \<Rightarrow>
       (case CacheManager_FindMatchingData L now i (ndCacheManager nd) of
          Some d \<Rightarrow>
            (let (pkt, h') = DataPacket_new L d h
             in Node_ForwardToFace R pkt faceId (h', nd, out))
        | None \<Rightarrow>
            (let (fresh, pit) = Pit_AddInterest now faceId i (ndPit nd);
                 nd1 = nd\<lparr>ndPit := pit\<rparr>
             in if fresh
                then let outList = ss_erase faceId (Fib_LookUp L (iName i) [] (ndFib nd1))
                     in if outList = [] then Inr (h, nd1, out)
                        else if 0 \<in> set outList
                        then Node_ProcessCommand L R now faceId (iName i) (h, nd1, out)
                        else let (pkt, h') = InterestPacket_new L i h
                             in Node_ForwardToFaces R pkt outList (h', nd1, out)
                else Inr (h, nd1, out))))"

text \<open>\<open>Face::Dispatch\<close>, for the face with id \<open>faceId\<close>.\<close>

definition unknown_packet_type :: error where
  "unknown_packet_type = RuntimeError ''Unknown NDN packet type''"

definition decoding_error :: error where
  "decoding_error = RuntimeError ''NDN packet decoding error''"

definition Face_Dispatch ::
  "('n, 'c) ndn \<Rightarrow> rng \<Rightarrow> time \<Rightarrow> int \<Rightarrow> bytes \<Rightarrow> 'n node_state \<Rightarrow> 'n node_state result" where
  "Face_Dispatch L R now faceId blk s =
     (if blkType L blk = tlvInterest L
      then case decodeInterest L blk of
             Some i \<Rightarrow> Node_HandleInterest L R now faceId i s
           | None \<Rightarrow> Inl decoding_error
      else if blkType L blk = tlvData L
      then case decodeData L blk of
             Some d \<Rightarrow> Node_HandleData L R now faceId d s
           | None \<Rightarrow> Inl decoding_error
      else Inl unknown_packet_type)"

text \<open>
  The handlers the io service calls on a node: a read on the socket of an application face,
  the end of the wait for the PIT clean-up, and \<open>PostRx\<close> and \<open>DoCsma\<close> of its devices.
\<close>

definition remove_face :: "int \<Rightarrow> 'n node_state \<Rightarrow> 'n node_state result" where
  "remove_face f s =
     (case s of (h, nd, out) \<Rightarrow> and_then (Node_RemoveFace f nd) (\<lambda>nd'. Inr (h, nd', out)))"

definition Node_HandleReceive ::
  "('n, 'c) ndn \<Rightarrow> rng \<Rightarrow> time \<Rightarrow> int \<Rightarrow> bool \<Rightarrow> bytes \<Rightarrow> 'n node_state \<Rightarrow> 'n node_state result option" where
  "Node_HandleReceive L R now f err received s =
     (case map_of (ndFaceTable (fst (snd s))) f of
        Some (AppFc af) \<Rightarrow>
          map_option (\<lambda>r. and_then r (\<lambda>(af', (h, nd, out)).
            case af' of
              None \<Rightarrow> Inr (h, nd, out)
            | Some af1 \<Rightarrow> Inr (h, nd\<lparr>ndFaceTable := om_put f (AppFc af1) (ndFaceTable nd)\<rparr>,
                             out @ [AppReceive f])))
            (AppFace_HandleReceive L (Face_Dispatch L R now f) (remove_face f) err received af s)
      | _ \<Rightarrow> Some (Inl (UndefinedBehaviour ''receive on a removed face'')))"

definition Node_PitCleanUp :: "bool \<Rightarrow> time \<Rightarrow> 'n node \<Rightarrow> 'n node \<times> node_out list" where
  "Node_PitCleanUp err now nd =
     (let (pit, again) = Pit_CleanUp err now (ndPit nd)
      in (nd\<lparr>ndPit := pit\<rparr>, case again of None \<Rightarrow> [] | Some t \<Rightarrow> [ArmPitCleanUp t]))"

text \<open>A device handler on the device \<open>d\<close> of a node; the node's table is changed in place.\<close>

definition Node_on_device ::
  "string \<Rightarrow> (device \<Rightarrow> 'n node \<Rightarrow> (device \<times> 'n node \<times> io_req list) result) \<Rightarrow> 'n node \<Rightarrow>
   ('n node \<times> node_out list) result" where
  "Node_on_device d handler nd =
     and_then (Node_GetDevice d nd) (\<lambda>dv.
       and_then (handler dv nd) (\<lambda>(dv', nd', io).
         Inr (nd'\<lparr>ndDeviceTable := om_put d dv' (ndDeviceTable nd')\<rparr>, map (DevIO d) io)))"

definition Node_StartRx ::
  "heap \<Rightarrow> pkt_ref \<Rightarrow> string \<Rightarrow> 'n node \<Rightarrow> ('n node \<times> node_out list) result" where
  "Node_StartRx h pkt d =
     Node_on_device d (\<lambda>dv nd. and_then (LinkDevice_StartRx h pkt dv) (\<lambda>(dv', io). Inr (dv', nd, io)))"

definition Node_PostRx ::
  "heap \<Rightarrow> bool \<Rightarrow> string \<Rightarrow> 'n node \<Rightarrow> ('n node \<times> node_out list) result" where
  "Node_PostRx h err d = Node_on_device d (\<lambda>dv nd. LinkDevice_PostRx Node_AddLinkFace err h dv nd)"

definition Node_DoCsma ::
  "rng \<Rightarrow> heap \<Rightarrow> int \<Rightarrow> int \<Rightarrow> bool \<Rightarrow> string \<Rightarrow> 'n node \<Rightarrow> ('n node \<times> node_out list) result" where
  "Node_DoCsma R h NB BE err d =
     Node_on_device d (\<lambda>dv nd. and_then (LinkDevice_DoCsma R NB BE err h dv)
       (\<lambda>(dv', io). Inr (dv', nd, io)))"

section \<open>Well-formed nodes\<close>

definition Node_link_face :: "'n node \<Rightarrow> int \<Rightarrow> link_face option" where
  "Node_link_face nd k =
     (case map_of (ndFaceTable nd) k of Some (LinkFc f) \<Rightarrow> Some f | _ \<Rightarrow> None)"

definition is_app_face :: "'n node \<Rightarrow> int \<Rightarrow> bool" where
  "is_app_face nd k = (case map_of (ndFaceTable nd) k of Some (AppFc _) \<Rightarrow> True | _ \<Rightarrow> False)"

text \<open>
  \<open>tables_ok\<close>: every face is filed under its id, below the counter and above 0; every device
  is filed under its id, is well formed, has a broadcast face, and its faces are the node's.
  \<open>node_ok\<close> adds that the device of every link face is in the table, that the three tables
  of names are well formed, and that a route to face 0 needs a FIB manager, whose id is 0.
\<close>

definition face_entry_ok :: "int \<Rightarrow> int \<times> face \<Rightarrow> bool" where
  "face_entry_ok n e \<longleftrightarrow> Face_GetId (snd e) = fst e \<and> 0 < fst e \<and> fst e < n"

definition device_entry_ok :: "'n node \<Rightarrow> string \<times> device \<Rightarrow> bool" where
  "device_entry_ok nd e \<longleftrightarrow> dvId (snd e) = fst e \<and> dvNodeId (snd e) = ndId nd \<and>
     device_ok (snd e) \<and> faces_known Node_link_face (snd e) nd \<and>
     map_of (dvFaces (snd e)) BROADCAST_MAC \<noteq> None"

definition tables_ok :: "'n node \<Rightarrow> bool" where
  "tables_ok nd \<longleftrightarrow> om_ok (ndFaceTable nd) \<and> 0 < ndFaceCounter nd \<and>
     (\<forall>e \<in> set (ndFaceTable nd). face_entry_ok (ndFaceCounter nd) e) \<and>
     om_ok (ndDeviceTable nd) \<and> (\<forall>e \<in> set (ndDeviceTable nd). device_entry_ok nd e)"

definition links_ok :: "'n node \<Rightarrow> bool" where
  "links_ok nd \<longleftrightarrow> (\<forall>k f. map_of (ndFaceTable nd) k = Some (LinkFc f) \<longrightarrow>
     map_of (ndDeviceTable nd) (lfDevice f) \<noteq> None)"

definition manager_ok :: "'n node \<Rightarrow> bool" where
  "manager_ok nd \<longleftrightarrow> (\<forall>fm. ndFibManager nd = Some fm \<longrightarrow> fmId fm = 0) \<and>
     (ndFibManager nd = None \<longrightarrow> (\<forall>k. (k, 0) \<notin> routes (ndFib nd)))"

definition node_ok :: "'n node \<Rightarrow> bool" where
  "node_ok nd \<longleftrightarrow> tables_ok nd \<and> links_ok nd \<and> pit_ok (ndPit nd) \<and> fib_ok (ndFib nd) \<and>
     cache_ok (ndCacheManager nd) \<and> manager_ok nd"

lemma Node_link_face_update [simp]:
  "Node_link_face (nd\<lparr>ndDeviceTable := x\<rparr>) = Node_link_face nd"
  "Node_link_face (nd\<lparr>ndPit := p\<rparr>) = Node_link_face nd"
  "Node_link_face (nd\<lparr>ndFib := fb\<rparr>) = Node_link_face nd"
  "Node_link_face (nd\<lparr>ndCacheManager := c\<rparr>) = Node_link_face nd"
  "Node_link_face (nd\<lparr>ndFibManager := fm\<rparr>) = Node_link_face nd"
  "Node_link_face (nd\<lparr>ndFaceCounter := n\<rparr>) = Node_link_face nd"
  "Node_link_face (nd\<lparr>ndIsListening := l\<rparr>) = Node_link_face nd"
  by (simp_all add: Node_link_face_def fun_eq_iff)

lemma faces_known_cong:
  "Node_link_face nd' = Node_link_face nd \<Longrightarrow>
     faces_known Node_link_face dv nd' = faces_known Node_link_face dv nd"
  by (simp add: faces_known_def)

lemma device_entry_ok_cong:
  "Node_link_face nd' = Node_link_face nd \<Longrightarrow> ndId nd' = ndId nd \<Longrightarrow>
     device_entry_ok nd' e = device_entry_ok nd e"
  by (simp add: device_entry_ok_def faces_known_def)

lemma node_ok_new:
  assumes "0 \<le> cacheLimit" and "cacheLimit < 2 ^ 31"
  shows "node_ok (Node_new nid path cacheLimit)"
  using assms
  by (simp add: node_ok_def tables_ok_def links_ok_def manager_ok_def Node_new_def pit_ok_new
      fib_ok_Nil cache_ok_def CacheManager_new_def)

lemma node_okD:
  assumes "node_ok nd"
  shows "tables_ok nd" and "links_ok nd" and "pit_ok (ndPit nd)" and "fib_ok (ndFib nd)"
    and "cache_ok (ndCacheManager nd)" and "manager_ok nd"
  using assms by (simp_all add: node_ok_def)

lemma tables_ok_device:
  assumes "tables_ok nd" and "map_of (ndDeviceTable nd) d = Some dv"
  shows "dvId dv = d" and "dvNodeId dv = ndId nd" and "device_ok dv"
    and "faces_known Node_link_face dv nd" and "map_of (dvFaces dv) BROADCAST_MAC \<noteq> None"
proof -
  have "device_entry_ok nd (d, dv)"
    using assms by (auto simp: tables_ok_def dest: map_of_SomeD)
  then show "dvId dv = d" and "dvNodeId dv = ndId nd" and "device_ok dv"
    and "faces_known Node_link_face dv nd" and "map_of (dvFaces dv) BROADCAST_MAC \<noteq> None"
    by (simp_all add: device_entry_ok_def)
qed

lemma tables_ok_face:
  assumes "tables_ok nd" and "map_of (ndFaceTable nd) k = Some face"
  shows "Face_GetId face = k" and "0 < k" and "k < ndFaceCounter nd"
  using assms by (auto simp: tables_ok_def face_entry_ok_def dest!: map_of_SomeD)

text \<open>The node keeps the contract of a provider of link faces.\<close>

lemma AddLinkFace_fields:
  assumes "Node_AddLinkFace m d nd = Inr (f, nd')"
  shows "f = \<lparr>lfId = ndFaceCounter nd, lfRemoteMac = m, lfDevice = d\<rparr>"
    and "nd' = nd\<lparr>ndFaceCounter := ndFaceCounter nd + 1,
                 ndFaceTable := om_put (ndFaceCounter nd) (LinkFc f) (ndFaceTable nd)\<rparr>"
  using assms by (auto simp: Node_AddLinkFace_def Let_def and_then_Inr_iff int_succ_Inr_iff)

lemma AddLinkFace_total:
  "ndFaceCounter nd < 2 ^ 31 - 1 \<Longrightarrow> \<exists>f nd'. Node_AddLinkFace m d nd = Inr (f, nd')"
  "Node_AddLinkFace m d nd = Inl e \<longleftrightarrow> 2 ^ 31 - 1 \<le> ndFaceCounter nd \<and> e = int_overflow"
  by (auto simp: Node_AddLinkFace_def Let_def int_succ_def)

lemma fresh_face:
  assumes "tables_ok nd"
  shows "map_of (ndFaceTable nd) (ndFaceCounter nd) = None"
  using tables_ok_face[OF assms, of "ndFaceCounter nd"] by fastforce

lemma AddLinkFace_known:
  assumes "tables_ok nd" and "Node_AddLinkFace m d nd = Inr (f, nd')"
  shows "Node_link_face nd' = (Node_link_face nd)(lfId f \<mapsto> f)"
  using AddLinkFace_fields[OF assms(2)]
  by (auto simp: Node_link_face_def kv_simps fun_eq_iff)

lemma AddLinkFace_tables:
  assumes "tables_ok nd" and "Node_AddLinkFace m d nd = Inr (f, nd')"
  shows "tables_ok nd'"
proof -
  note f = AddLinkFace_fields[OF assms(2)]
  have "Node_link_face nd (lfId f) = None"
    using fresh_face[OF assms(1)] f(1) by (simp add: Node_link_face_def)
  then have keep: "faces_known Node_link_face dv nd'" if "faces_known Node_link_face dv nd" for dv
    using that unfolding faces_known_def AddLinkFace_known[OF assms] by fastforce
  have "device_entry_ok nd' e" if "e \<in> set (ndDeviceTable nd)" for e
    using assms(1) that keep f(2) by (auto simp: tables_ok_def device_entry_ok_def)
  moreover have "face_entry_ok (ndFaceCounter nd + 1) e"
    if "e \<in> set (om_put (ndFaceCounter nd) (LinkFc f) (ndFaceTable nd))" for e
    using assms(1) that f(1)
    by (auto simp: tables_ok_def om.entries_put face_entry_ok_def)
  ultimately show ?thesis
    using assms(1) f(2) by (simp add: tables_ok_def om.ok_put)
qed

interpretation node: link_face_provider Node_AddLinkFace Node_link_face tables_ok
proof
  fix nd nd' :: "'n node" and m d f
  assume ok: "tables_ok nd" and add: "Node_AddLinkFace m d nd = Inr (f, nd')"
  show "tables_ok nd'" by (rule AddLinkFace_tables[OF ok add])
  show "Node_link_face nd (lfId f) = None"
    using fresh_face[OF ok] AddLinkFace_fields(1)[OF add] by (simp add: Node_link_face_def)
  show "lfRemoteMac f = m \<and> lfDevice f = d \<and>
      Node_link_face nd' = (Node_link_face nd)(lfId f \<mapsto> f)"
    using AddLinkFace_known[OF ok add] AddLinkFace_fields(1)[OF add] by simp
qed

section \<open>The operations keep a node well formed\<close>

lemma links_ok_put_device: "links_ok nd \<Longrightarrow> links_ok (nd\<lparr>ndDeviceTable := om_put d dv (ndDeviceTable nd)\<rparr>)"
  by (simp add: links_ok_def kv_simps)

lemma tables_ok_put_device:
  assumes "tables_ok nd" and "device_entry_ok nd (d, dv)"
  shows "tables_ok (nd\<lparr>ndDeviceTable := om_put d dv (ndDeviceTable nd)\<rparr>)"
proof -
  let ?nd = "nd\<lparr>ndDeviceTable := om_put d dv (ndDeviceTable nd)\<rparr>"
  have om: "om_ok (ndDeviceTable nd)" using assms(1) by (simp add: tables_ok_def)
  have "device_entry_ok ?nd e = device_entry_ok nd e" for e
    by (rule device_entry_ok_cong) simp_all
  then have "\<forall>e \<in> set (ndDeviceTable ?nd). device_entry_ok ?nd e"
    using assms by (auto simp: om.entries_put[OF om] tables_ok_def)
  with assms(1) show ?thesis by (simp add: tables_ok_def om.ok_put)
qed

lemma node_ok_put_device [inv_intros]:
  assumes "node_ok nd" and "device_entry_ok nd (d, dv)"
  shows "node_ok (nd\<lparr>ndDeviceTable := om_put d dv (ndDeviceTable nd)\<rparr>)"
  using assms by (simp add: node_ok_def tables_ok_put_device links_ok_put_device manager_ok_def)

lemma device_entry_same:
  assumes "tables_ok nd" and "map_of (ndDeviceTable nd) d = Some dv"
    and "device_ok dv'" and "same_device dv dv'" and "dvFaces dv' = dvFaces dv"
  shows "device_entry_ok nd (d, dv')"
  using tables_ok_device[OF assms(1,2)] assms(3-5)
  by (simp add: device_entry_ok_def same_device_def faces_known_def)

lemma node_ok_AddLinkFace:
  assumes "node_ok nd" and "map_of (ndDeviceTable nd) d \<noteq> None"
    and "Node_AddLinkFace m d nd = Inr (f, nd')"
  shows "node_ok nd'"
proof -
  note f = AddLinkFace_fields[OF assms(3)]
  have "links_ok nd'"
    using node_okD(2)[OF assms(1)] assms(2) f by (auto simp: links_ok_def kv_simps)
  with AddLinkFace_tables[OF node_okD(1)[OF assms(1)] assms(3)] assms(1) f
  show ?thesis by (simp add: node_ok_def manager_ok_def)
qed

lemma node_ok_AddDevice [inv_intros]:
  assumes "node_ok nd" and "lnkTxRate lk \<noteq> 0" and "Node_AddDevice R seed d mac lk nd = Inr nd'"
  shows "node_ok nd' \<and> ndId nd' = ndId nd \<and> map_of (ndDeviceTable nd) d = None \<and>
    (\<exists>dv. ndDeviceTable nd' = om_put d dv (ndDeviceTable nd) \<and> dvMac dv = mac \<and> dvLink dv = lk \<and> idle dv)"
proof -
  let ?dv = "LinkDevice_new R seed d mac lk (ndId nd)"
  from assms(3) obtain dv nd1 where b: "LinkDevice_AddBroadcastFace Node_AddLinkFace ?dv nd = Inr (dv, nd1)"
    and nd': "nd' = nd1\<lparr>ndDeviceTable := om_put d dv (ndDeviceTable nd1)\<rparr>"
    by (auto simp: Node_AddDevice_def and_then_Inr_iff split: if_splits)
  have dvok: "device_ok ?dv" using assms(2) by (rule device_ok_new)
  have known: "faces_known Node_link_face ?dv nd"
    by (simp add: faces_known_def LinkDevice_new_def)
  note ok = node.AddBroadcastFace_ok[OF node_okD(1)[OF assms(1)] dvok known b]
  have flds: "dvId ?dv = d" "dvNodeId ?dv = ndId nd" "dvMac ?dv = mac" "dvLink ?dv = lk"
    by (simp_all add: LinkDevice_new_def)
  obtain f where add: "Node_AddLinkFace BROADCAST_MAC d nd = Inr (f, nd1)"
    using b flds(1) by (auto simp: LinkDevice_AddBroadcastFace_def and_then_Inr_iff)
  note f = AddLinkFace_fields[OF add]
  have id: "ndId nd1 = ndId nd" by (subst f(2)) simp
  have "device_entry_ok nd1 (d, dv)"
    using ok flds id by (auto simp: device_entry_ok_def same_device_def)
  with ok nd' have "tables_ok nd'" by (simp add: tables_ok_put_device)
  moreover have "links_ok nd'"
    using node_okD(2)[OF assms(1)] f unfolding nd' by (auto simp: links_ok_def kv_simps)
  moreover have "ndDeviceTable nd' = om_put d dv (ndDeviceTable nd)" using f(2) by (simp add: nd')
  moreover have "map_of (ndDeviceTable nd) d = None"
    using assms(3) by (auto simp: Node_AddDevice_def split: if_splits)
  moreover have "ndId nd' = ndId nd" using id by (simp add: nd')
  moreover have "dvMac dv = mac \<and> dvLink dv = lk" using ok flds by (simp add: same_device_def)
  moreover have "idle dv"
    using b by (auto simp: LinkDevice_AddBroadcastFace_def LinkDevice_new_def idle_def and_then_Inr_iff)
  moreover have "pit_ok (ndPit nd')" "fib_ok (ndFib nd')" "cache_ok (ndCacheManager nd')" "manager_ok nd'"
    using node_okD[OF assms(1)] f(2) by (simp_all add: nd' manager_ok_def)
  ultimately show ?thesis unfolding node_ok_def by blast
qed

lemma node_ok_fib:
  assumes "node_ok nd" and "fib_ok fib"
    and "ndFibManager nd = None \<Longrightarrow> (\<forall>k. (k, 0) \<notin> routes fib)"
  shows "node_ok (nd\<lparr>ndFib := fib\<rparr>)"
  using assms
  by (simp add: node_ok_def tables_ok_def links_ok_def manager_ok_def
      device_entry_ok_cong[of "nd\<lparr>ndFib := fib\<rparr>" nd])

lemma node_ok_pit: "node_ok nd \<Longrightarrow> pit_ok p \<Longrightarrow> node_ok (nd\<lparr>ndPit := p\<rparr>)"
  by (simp add: node_ok_def tables_ok_def links_ok_def manager_ok_def
      device_entry_ok_cong[of "nd\<lparr>ndPit := p\<rparr>" nd])

lemma node_ok_cache: "node_ok nd \<Longrightarrow> cache_ok c \<Longrightarrow> node_ok (nd\<lparr>ndCacheManager := c\<rparr>)"
  by (simp add: node_ok_def tables_ok_def links_ok_def manager_ok_def
      device_entry_ok_cong[of "nd\<lparr>ndCacheManager := c\<rparr>" nd])

text \<open>A face of a device that is attached is a face of the node, so its id is not 0.\<close>

lemma known_face:
  assumes "tables_ok nd" and "map_of (ndDeviceTable nd) d = Some dv"
    and "map_of (dvFaces dv) m = Some f"
  shows "map_of (ndFaceTable nd) (lfId f) = Some (LinkFc f)" and "lfId f \<noteq> 0"
proof -
  show face: "map_of (ndFaceTable nd) (lfId f) = Some (LinkFc f)"
    using faces_knownD[OF tables_ok_device(4)[OF assms(1,2)] assms(3)]
    by (auto simp: Node_link_face_def split: option.splits face.splits)
  then show "lfId f \<noteq> 0" using tables_ok_face[OF assms(1)] by fastforce
qed

lemma AddRoute_cases:
  assumes "Node_AddRoute L p d m nd = Inr nd'"
  obtains (existing) dv f where "map_of (ndDeviceTable nd) d = Some dv"
      and "map_of (dvFaces dv) m = Some f"
      and "nd' = nd\<lparr>ndFib := Fib_AddRoute (nmOfUri L p) (lfId f) (ndFib nd)\<rparr>"
  | (new) dv f nd1 where "map_of (ndDeviceTable nd) d = Some dv"
      and "map_of (dvFaces dv) m = None" and "Node_AddLinkFace m d nd = Inr (f, nd1)"
      and "nd' = nd1\<lparr>ndFib := Fib_AddRoute (nmOfUri L p) (lfId f) (ndFib nd1)\<rparr>"
  using assms
  by (auto simp: Node_AddRoute_def LinkDevice_GetLinkFace_def and_then_Inr_iff split: option.splits)

lemma node_ok_add_route:
  assumes "node_ok nd" and "f \<noteq> 0"
  shows "node_ok (nd\<lparr>ndFib := Fib_AddRoute p f (ndFib nd)\<rparr>)"
  using assms node_okD[OF assms(1)]
  by (intro node_ok_fib) (auto simp: fib_ok_AddRoute routes_AddRoute manager_ok_def)

lemma node_ok_AddRoute [inv_intros]:
  assumes "node_ok nd" and "Node_AddRoute L p d m nd = Inr nd'"
  shows "node_ok nd'"
  using assms(2)
proof (cases rule: AddRoute_cases)
  case (existing dv f)
  with known_face(2)[OF node_okD(1)[OF assms(1)]] show ?thesis
    by (auto intro: node_ok_add_route[OF assms(1)])
next
  case (new dv f nd1)
  have "node_ok nd1" using node_ok_AddLinkFace[OF assms(1) _ new(3)] new(1) by simp
  moreover have "lfId f \<noteq> 0"
    using node_okD(1)[OF assms(1)] AddLinkFace_fields(1)[OF new(3)] by (simp add: tables_ok_def)
  ultimately show ?thesis unfolding new(4) by (rule node_ok_add_route)
qed

lemma tables_ok_cong:
  assumes "tables_ok nd" and "ndId nd' = ndId nd" and "ndFaceTable nd' = ndFaceTable nd"
    and "ndDeviceTable nd' = ndDeviceTable nd" and "ndFaceCounter nd \<le> ndFaceCounter nd'"
  shows "tables_ok nd'"
proof -
  have "Node_link_face nd' = Node_link_face nd" using assms(3) by (simp add: Node_link_face_def fun_eq_iff)
  then show ?thesis
    using assms by (auto simp: tables_ok_def face_entry_ok_def device_entry_ok_cong[of nd' nd])
qed

lemma acceptor_calls_Inl:
  "acceptor_calls L n cs = Inl e \<Longrightarrow> \<exists>c \<in> set cs. \<exists>msg. acceptorCall L n c = Some msg \<and> e = RuntimeError msg"
  by (induction cs) (auto split: option.splits)

lemma acceptor_calls_None: "\<forall>c \<in> set cs. acceptorCall L n c = None \<Longrightarrow> acceptor_calls L n cs = Inr ()"
  by (induction cs) auto

text \<open>The node when it is started.\<close>

lemma Start_fields:
  assumes "Node_Start L nd = Inr (nd', out)"
  shows "nd' = nd\<lparr>ndIsListening := True,
      ndFib := Fib_AddRoute (nmOfUri L ''/localhost/nfd/rib'') 0 (ndFib nd),
      ndFibManager := Some \<lparr>fmId = 0, fmCmdPrefix = nmOfUri L ''/localhost/nfd/rib''\<rparr>,
      ndFaceCounter := ndFaceCounter nd + 1\<rparr>"
    and "out = [ArmPitCleanUp (pCleanupInterval (ndPit nd)), AsyncAccept (ndFaceCounter nd)]"
  using assms
  by (auto simp: Node_Start_def FibManager_new_def Pit_ScheduleCleanUp_def Let_def and_then_Inr_iff int_succ_Inr_iff)

lemma Start_total:
  assumes "\<forall>c. acceptorCall L (ndId nd) c = None" and "ndFaceCounter nd < 2 ^ 31 - 1"
  shows "\<exists>nd' out. Node_Start L nd = Inr (nd', out)"
  using assms by (simp add: Node_Start_def acceptor_calls_None FibManager_new_def int_succ_def Let_def)

lemma Start_raises:
  assumes "Node_Start L nd = Inl e"
  shows "(\<exists>c msg. acceptorCall L (ndId nd) c = Some msg \<and> e = RuntimeError msg) \<or>
    2 ^ 31 - 1 \<le> ndFaceCounter nd \<and> e = int_overflow"
  using assms
  by (auto simp: Node_Start_def FibManager_new_def Let_def and_then_Inl_iff int_succ_Inl_iff
      simp del: acceptor_calls.simps dest!: acceptor_calls_Inl)

lemma acceptor_calls_Inr: "acceptor_calls L n cs = Inr u \<Longrightarrow> c \<in> set cs \<Longrightarrow> acceptorCall L n c = None"
  by (induction cs) (auto split: option.splits)

lemma Start_succeeds:
  assumes "Node_Start L nd = Inr (nd', out)"
  shows "(\<forall>c. acceptorCall L (ndId nd) c = None) \<and> ndFaceCounter nd < 2 ^ 31 - 1"
proof -
  from assms obtain u where
    "acceptor_calls L (ndId nd) [RemovePath, OpenAcceptor, BindAcceptor, ListenAcceptor] = Inr u"
    unfolding Node_Start_def and_then_Inr_iff by blast
  then have "acceptorCall L (ndId nd) c = None" for c by (rule acceptor_calls_Inr) (cases c; simp)
  moreover have "ndFaceCounter nd < 2 ^ 31 - 1"
    using assms by (auto simp: Node_Start_def Let_def and_then_Inr_iff int_succ_Inr_iff split: prod.splits)
  ultimately show ?thesis by blast
qed

lemma node_ok_Start [inv_intros]:
  assumes "node_ok nd" and "Node_Start L nd = Inr (nd', out)"
  shows "node_ok nd' \<and> map_of (ndFaceTable nd') (ndFaceCounter nd) = None \<and>
    out = [ArmPitCleanUp (pCleanupInterval (ndPit nd)), AsyncAccept (ndFaceCounter nd)]"
proof -
  note nd' = Start_fields(1)[OF assms(2)]
  have "tables_ok nd'" by (rule tables_ok_cong[OF node_okD(1)[OF assms(1)]]) (simp_all add: nd')
  then show ?thesis
    using assms(1) fresh_face[OF node_okD(1)[OF assms(1)]] Start_fields(2)[OF assms(2)]
    by (simp add: nd' node_ok_def links_ok_def manager_ok_def fib_ok_AddRoute)
qed

lemma HandleAccept_fields:
  assumes "Node_HandleAccept f err nd = Inr (nd', out)"
  shows "nd' = nd\<lparr>ndFaceCounter := ndFaceCounter nd + 1,
      ndFaceTable := om_put f (AppFc (AppFace_new f)) (ndFaceTable nd)\<rparr>"
    and "out = [AsyncAccept (ndFaceCounter nd), AppReceive f]"
  using assms by (auto simp: Node_HandleAccept_def Let_def and_then_Inr_iff int_succ_Inr_iff)

lemma HandleAccept_raises:
  "Node_HandleAccept f err nd = Inl e \<longleftrightarrow> 2 ^ 31 - 1 \<le> ndFaceCounter nd \<and> e = int_overflow"
  by (auto simp: Node_HandleAccept_def Let_def and_then_Inl_iff int_succ_Inl_iff)

lemma node_ok_HandleAccept [inv_intros]:
  assumes "node_ok nd" and "map_of (ndFaceTable nd) f = None" and "0 < f" and "f < ndFaceCounter nd"
    and "Node_HandleAccept f err nd = Inr (nd', out)"
  shows "node_ok nd'"
proof -
  let ?nd = "nd\<lparr>ndFaceCounter := ndFaceCounter nd + 1,
      ndFaceTable := om_put f (AppFc (AppFace_new f)) (ndFaceTable nd)\<rparr>"
  note tab = node_okD(1)[OF assms(1)]
  have "Node_link_face ?nd = Node_link_face nd"
    using assms(2) by (auto simp: Node_link_face_def fun_eq_iff kv_simps)
  then have "device_entry_ok ?nd e = device_entry_ok nd e" for e
    by (rule device_entry_ok_cong) simp
  then have "tables_ok ?nd"
    using tab assms(3,4)
    by (auto simp: tables_ok_def om.ok_put om.entries_put face_entry_ok_def AppFace_new_def)
  moreover have "links_ok ?nd"
    using node_okD(2)[OF assms(1)] by (simp add: links_ok_def kv_simps)
  ultimately show ?thesis
    using assms(1) by (simp add: node_ok_def manager_ok_def HandleAccept_fields(1)[OF assms(5)])
qed

lemma node_ok_RemoveFace [inv_intros]:
  assumes "node_ok nd" and "is_app_face nd f" and "Node_RemoveFace f nd = Inr nd'"
  shows "node_ok nd' \<and> map_of (ndFaceTable nd') f = None \<and> (\<forall>k. (k, f) \<notin> routes (ndFib nd'))"
proof -
  have nd': "nd' = nd\<lparr>ndFaceTable := kv_erase f (ndFaceTable nd), ndFib := Fib_CleanUp f (ndFib nd)\<rparr>"
    using assms(3) by (auto simp: Node_RemoveFace_def FibManager_CleanUpFib_def split: option.splits)
  have look: "map_of (ndFaceTable nd') = (map_of (ndFaceTable nd))(f := None)"
    by (simp add: nd' om.lookup_erase)
  have "Node_link_face nd' = Node_link_face nd"
    using assms(2)
    by (auto simp: Node_link_face_def is_app_face_def look fun_eq_iff split: option.splits face.splits)
  then have "device_entry_ok nd' e = device_entry_ok nd e" for e
    by (rule device_entry_ok_cong) (simp add: nd')
  then have "tables_ok nd'"
    using node_okD(1)[OF assms(1)]
    by (auto simp: tables_ok_def nd' om.ok_filter kv_erase_def face_entry_ok_def)
  moreover have "links_ok nd'"
    using node_okD(2)[OF assms(1)] by (simp add: links_ok_def look) (simp add: nd')
  moreover have "manager_ok nd'" and "fib_ok (ndFib nd')"
    using node_okD(4,6)[OF assms(1)]
    by (simp_all add: manager_ok_def nd' routes_CleanUp fib_ok_CleanUp)
  ultimately show ?thesis
    using assms(1) look by (simp add: node_ok_def) (simp add: nd' routes_CleanUp)
qed

section \<open>Forwarding\<close>

text \<open>
  \<open>forwarded nd h nd' h'\<close>: sending changed nothing of the node but the devices (of which
  the queues and the generators), and nothing of a packet but its addresses.
\<close>

definition forwarded :: "'n node \<Rightarrow> heap \<Rightarrow> 'n node \<Rightarrow> heap \<Rightarrow> bool" where
  "forwarded nd h nd' h' \<longleftrightarrow> node_ok nd' \<and> nd' = nd\<lparr>ndDeviceTable := ndDeviceTable nd'\<rparr> \<and>
     length h' = length h \<and> (\<forall>x. Packet_GetBlock h' x = Packet_GetBlock h x) \<and>
     (\<forall>d. map_option dvFaces (map_of (ndDeviceTable nd') d) =
          map_option dvFaces (map_of (ndDeviceTable nd) d))"

lemma forwarded_refl: "node_ok nd \<Longrightarrow> forwarded nd h nd h"
  by (simp add: forwarded_def)

lemma forwarded_trans:
  assumes "forwarded nd h nd1 h1" and "forwarded nd1 h1 nd2 h2"
  shows "forwarded nd h nd2 h2"
proof -
  have "nd1 = nd\<lparr>ndDeviceTable := ndDeviceTable nd1\<rparr>" using assms(1) by (simp add: forwarded_def)
  moreover have "nd2 = nd1\<lparr>ndDeviceTable := ndDeviceTable nd2\<rparr>"
    using assms(2) by (simp add: forwarded_def)
  ultimately have "nd2 = nd\<lparr>ndDeviceTable := ndDeviceTable nd2\<rparr>"
    by (metis (no_types, lifting) node.surjective node.update_convs(6))
  with assms show ?thesis by (simp add: forwarded_def)
qed

lemma forwarded_face_table:
  assumes "forwarded nd h nd' h'"
  shows "ndFaceTable nd' = ndFaceTable nd" and "ndPit nd' = ndPit nd" and "ndFib nd' = ndFib nd"
    and "ndCacheManager nd' = ndCacheManager nd" and "ndFibManager nd' = ndFibManager nd"
    and "ndFaceCounter nd' = ndFaceCounter nd" and "ndId nd' = ndId nd" and "node_ok nd'"
proof -
  have eq: "nd' = nd\<lparr>ndDeviceTable := ndDeviceTable nd'\<rparr>" and "node_ok nd'"
    using assms by (simp_all add: forwarded_def)
  then show "node_ok nd'" by simp
  show "ndFaceTable nd' = ndFaceTable nd" and "ndPit nd' = ndPit nd" and "ndFib nd' = ndFib nd"
    and "ndCacheManager nd' = ndCacheManager nd" and "ndFibManager nd' = ndFibManager nd"
    and "ndFaceCounter nd' = ndFaceCounter nd" and "ndId nd' = ndId nd"
    by (subst eq, simp)+
qed

fun is_app_send :: "node_out \<Rightarrow> bool" where
  "is_app_send (AppSend f bs) = True"
| "is_app_send out = False"

text \<open>What forwarding a packet with these bytes sends to application faces.\<close>

definition app_sends :: "'n node \<Rightarrow> int list \<Rightarrow> bytes \<Rightarrow> node_out list" where
  "app_sends nd fs bs = map (\<lambda>f. AppSend f bs) (filter (is_app_face nd) fs)"

lemma no_app_send_DevIO [simp]: "filter is_app_send (map (DevIO d) io) = []"
  by (induction io) auto

lemma Face_Send_spec:
  assumes "node_ok nd" and "map_of (ndFaceTable nd) f = Some face"
  shows "\<exists>h' nd' io. Face_Send R pkt face (h, nd, out) = Inr (h', nd', out @ io) \<and>
    forwarded nd h nd' h' \<and> filter is_app_send io = app_sends nd [f] (Packet_GetBlock h pkt) \<and>
    (\<forall>af. face = AppFc af \<longrightarrow> h' = h \<and> nd' = nd \<and> io = [AppSend f (Packet_GetBlock h pkt)])"
proof (cases face)
  case (AppFc af)
  then have "afId af = f" using tables_ok_face(1)[OF node_okD(1)[OF assms(1)] assms(2)] by simp
  with AppFc assms show ?thesis by (simp add: forwarded_refl app_sends_def is_app_face_def)
next
  case (LinkFc lf)
  then obtain dv where dv: "map_of (ndDeviceTable nd) (lfDevice lf) = Some dv"
    using node_okD(2)[OF assms(1)] assms(2) by (fastforce simp: links_ok_def)
  obtain h' dv' io where send: "LinkFace_Send R pkt lf h dv = (h', dv', io)"
    by (cases "LinkFace_Send R pkt lf h dv")
  have dvok: "device_ok dv" using tables_ok_device(3)[OF node_okD(1)[OF assms(1)] dv] .
  note sent = device_ok_Send[OF dvok send]
  let ?nd = "nd\<lparr>ndDeviceTable := om_put (lfDevice lf) dv' (ndDeviceTable nd)\<rparr>"
  have "device_entry_ok nd (lfDevice lf, dv')"
    using device_entry_same[OF node_okD(1)[OF assms(1)] dv] sent by blast
  then have "node_ok ?nd" by (rule node_ok_put_device[OF assms(1)])
  moreover have "Packet_GetBlock h' x = Packet_GetBlock h x" for x
    using send by (auto simp: LinkFace_Send_def LinkDevice_StartTx_def split: if_splits prod.splits)
  ultimately have "forwarded nd h ?nd h'"
    using sent dv by (simp add: forwarded_def kv_simps)
  then show ?thesis
    using dv send assms(2) LinkFc by (simp add: app_sends_def is_app_face_def)
qed

lemma ForwardToFace_spec:
  assumes "node_ok nd"
  shows "\<exists>h' nd' io. Node_ForwardToFace R pkt f (h, nd, out) = Inr (h', nd', out @ io) \<and>
    forwarded nd h nd' h' \<and> filter is_app_send io = app_sends nd [f] (Packet_GetBlock h pkt) \<and>
    (is_app_face nd f \<or> map_of (ndFaceTable nd) f = None \<longrightarrow>
       h' = h \<and> nd' = nd \<and> io = app_sends nd [f] (Packet_GetBlock h pkt))"
proof (cases "map_of (ndFaceTable nd) f")
  case None
  then show ?thesis
    using assms by (simp add: Node_ForwardToFace_def forwarded_refl app_sends_def is_app_face_def)
next
  case (Some face)
  with Face_Send_spec[OF assms Some, of R pkt h out] show ?thesis
    by (cases face) (auto simp: Node_ForwardToFace_def app_sends_def is_app_face_def)
qed

lemma app_sends_cong:
  "ndFaceTable nd' = ndFaceTable nd \<Longrightarrow> app_sends nd' fs bs = app_sends nd fs bs"
  by (simp add: app_sends_def is_app_face_def [abs_def])

lemma app_sends_Cons: "app_sends nd (f # fs) bs = app_sends nd [f] bs @ app_sends nd fs bs"
  by (simp add: app_sends_def)

lemma ForwardToFaces_spec:
  assumes "node_ok nd"
  shows "\<exists>h' nd' io. Node_ForwardToFaces R pkt fs (h, nd, out) = Inr (h', nd', out @ io) \<and>
    forwarded nd h nd' h' \<and> filter is_app_send io = app_sends nd fs (Packet_GetBlock h pkt)"
  using assms
proof (induction fs arbitrary: h nd out)
  case Nil
  then show ?case by (simp add: Node_ForwardToFaces_def forwarded_refl app_sends_def)
next
  case (Cons f fs)
  obtain h1 nd1 io1 where one: "Node_ForwardToFace R pkt f (h, nd, out) = Inr (h1, nd1, out @ io1)"
    "forwarded nd h nd1 h1" "filter is_app_send io1 = app_sends nd [f] (Packet_GetBlock h pkt)"
    using ForwardToFace_spec[OF Cons.prems] by metis
  obtain h2 nd2 io2 where rest: "Node_ForwardToFaces R pkt fs (h1, nd1, out @ io1) =
      Inr (h2, nd2, (out @ io1) @ io2)" "forwarded nd1 h1 nd2 h2"
    "filter is_app_send io2 = app_sends nd1 fs (Packet_GetBlock h1 pkt)"
    using Cons.IH[OF forwarded_face_table(8)[OF one(2)]] by metis
  have "Packet_GetBlock h1 pkt = Packet_GetBlock h pkt" using one(2) by (simp add: forwarded_def)
  then show ?case
    using one rest forwarded_trans[OF one(2) rest(2)]
      app_sends_cong[OF forwarded_face_table(1)[OF one(2)]] app_sends_Cons[of nd f fs]
    by (simp add: Node_ForwardToFaces_def)
qed

section \<open>The handlers\<close>

text \<open>What no packet handler changes: the face table, the counter, the manager and the identity.\<close>

definition same_node :: "'n node \<Rightarrow> 'n node \<Rightarrow> bool" where
  "same_node nd nd' \<longleftrightarrow> ndFaceTable nd' = ndFaceTable nd \<and> ndFaceCounter nd' = ndFaceCounter nd \<and>
     ndFibManager nd' = ndFibManager nd \<and> ndId nd' = ndId nd"

lemma same_node_refl [simp]: "same_node nd nd"
  by (simp add: same_node_def)

lemma same_node_updates [simp]:
  "same_node nd (nd\<lparr>ndPit := p\<rparr>)" "same_node nd (nd\<lparr>ndFib := fb\<rparr>)"
  "same_node nd (nd\<lparr>ndCacheManager := c\<rparr>)"
  by (simp_all add: same_node_def)

lemma same_node_trans: "same_node a b \<Longrightarrow> same_node b c \<Longrightarrow> same_node a c"
  by (simp add: same_node_def)

lemma same_node_forwarded: "forwarded nd h nd' h' \<Longrightarrow> same_node nd nd'"
  by (simp add: same_node_def forwarded_face_table)

lemma new_packet:
  "DataPacket_new L d h = (pkt, h') \<Longrightarrow>
     Packet_GetBlock h' pkt = encodeData L d \<and> pkt < length h' \<and>
     (\<forall>x < length h. Packet_GetBlock h' x = Packet_GetBlock h x)"
  "InterestPacket_new L i h = (pkt, h') \<Longrightarrow>
     Packet_GetBlock h' pkt = encodeInterest L i \<and> pkt < length h' \<and>
     (\<forall>x < length h. Packet_GetBlock h' x = Packet_GetBlock h x)"
  by (auto simp: packet_defs nth_append)

lemma HandleData_spec:
  assumes "node_ok nd"
    and "Pit_ConsumeInterestWithDataName L now (dName d) [] (ndPit nd) = (fs, pit)"
  shows "\<exists>h' nd' io. Node_HandleData L R now f d (h, nd, out) = Inr (h', nd', out @ io) \<and>
    node_ok nd' \<and> same_node nd nd' \<and> ndPit nd' = pit \<and> ndFib nd' = ndFib nd \<and>
    filter is_app_send io = app_sends nd fs (encodeData L d) \<and>
    (if fs = [] then h' = h \<and> nd' = nd\<lparr>ndPit := pit\<rparr> \<and> io = []
     else CacheManager_Insert L now d (ndCacheManager nd) = Inr (ndCacheManager nd'))"
proof -
  have "pit_ok pit"
    using pit_ok_Consume[OF node_okD(3)[OF assms(1)], of L now "dName d" "[]"] assms(2) by simp
  then have ok1: "node_ok (nd\<lparr>ndPit := pit\<rparr>)" by (rule node_ok_pit[OF assms(1)])
  obtain c where c: "CacheManager_Insert L now d (ndCacheManager nd) = Inr c" "cache_ok c"
    using cache_ok_Insert[OF node_okD(5)[OF assms(1)]] by blast
  let ?nd = "nd\<lparr>ndPit := pit, ndCacheManager := c\<rparr>"
  obtain pkt h1 where p: "DataPacket_new L d h = (pkt, h1)" by (cases "DataPacket_new L d h")
  have ok2: "node_ok ?nd" by (rule node_ok_cache[OF ok1 c(2)])
  obtain h' nd' io where fwd: "Node_ForwardToFaces R pkt fs (h1, ?nd, out) = Inr (h', nd', out @ io)"
    "forwarded ?nd h1 nd' h'" "filter is_app_send io = app_sends ?nd fs (Packet_GetBlock h1 pkt)"
    using ForwardToFaces_spec[OF ok2] by metis
  note stays = forwarded_face_table[OF fwd(2)]
  have app: "app_sends ?nd fs bs = app_sends nd fs bs" for bs by (rule app_sends_cong) simp
  show ?thesis
  proof (cases "fs = []")
    case True
    then show ?thesis using assms(2) ok1 by (simp add: Node_HandleData_def app_sends_def)
  next
    case False
    then have "Node_HandleData L R now f d (h, nd, out) = Inr (h', nd', out @ io)"
      using assms(2) c p fwd(1) by (simp add: Node_HandleData_def)
    moreover have "same_node nd nd'" using stays by (simp add: same_node_def)
    ultimately show ?thesis using fwd(3) stays c False new_packet(1)[OF p] app by simp
  qed
qed

text \<open>Handlers append to the requests, and send only to application faces of the node.\<close>

definition to_faces :: "'n node \<Rightarrow> node_out list \<Rightarrow> bool" where
  "to_faces nd io \<longleftrightarrow> (\<forall>g bs. AppSend g bs \<in> set io \<longrightarrow> is_app_face nd g)"

lemma to_faces_sends:
  assumes "filter is_app_send io = app_sends nd fs bs"
  shows "to_faces nd io"
proof -
  have "AppSend g b \<in> set io \<Longrightarrow> AppSend g b \<in> set (filter is_app_send io)" for g b by simp
  then show ?thesis unfolding to_faces_def assms app_sends_def by auto
qed

lemma to_faces_cong: "ndFaceTable nd' = ndFaceTable nd \<Longrightarrow> to_faces nd' = to_faces nd"
  by (simp add: to_faces_def is_app_face_def fun_eq_iff)

lemma to_faces_Nil [simp]: "to_faces nd []"
  by (simp add: to_faces_def)

lemma ProcessCommand_node_ok:
  assumes "node_ok nd"
    and "Node_ProcessCommand L R now f c (h, nd, out) = Inr (h', nd', out')"
  shows "node_ok nd' \<and> same_node nd nd' \<and> (\<exists>io. out' = out @ io \<and> to_faces nd io)"
proof -
  from assms(2) obtain fm fib reply where fm: "ndFibManager nd = Some fm"
    and cmd: "FibManager_ProcessCommand L fm f c (ndFib nd) = Inr (fib, reply)"
    and res: "(case reply of None \<Rightarrow> Inr (h, nd\<lparr>ndFib := fib\<rparr>, out)
      | Some d \<Rightarrow> Node_HandleData L R now (fmId fm) d (h, nd\<lparr>ndFib := fib\<rparr>, out)) = Inr (h', nd', out')"
    by (auto simp: Node_ProcessCommand_def and_then_Inr_iff Let_def split: option.splits)
  have ok: "node_ok (nd\<lparr>ndFib := fib\<rparr>)"
    using fib_ok_ProcessCommand[OF node_okD(4)[OF assms(1)] cmd] fm by (intro node_ok_fib[OF assms(1)]) auto
  show ?thesis
  proof (cases reply)
    case None
    with res ok show ?thesis by auto
  next
    case (Some d)
    obtain fs pit where "Pit_ConsumeInterestWithDataName L now (dName d) []
        (ndPit (nd\<lparr>ndFib := fib\<rparr>)) = (fs, pit)" by fastforce
    from HandleData_spec[OF ok this, of R "fmId fm" h out] Some res
    show ?thesis
      by (auto intro: same_node_trans[of _ "nd\<lparr>ndFib := fib\<rparr>"]
          simp: to_faces_cong[of "nd\<lparr>ndFib := fib\<rparr>" nd, symmetric] dest: to_faces_sends)
  qed
qed

text \<open>The outcomes of \<open>HandleInterest\<close>.\<close>

definition interest_faces :: "('n, 'c) ndn \<Rightarrow> int \<Rightarrow> 'n interest \<Rightarrow> 'n node \<Rightarrow> int list" where
  "interest_faces L f i nd = ss_erase f (Fib_LookUp L (iName i) [] (ndFib nd))"

lemma HandleInterest_cases:
  obtains (hit) d pkt h1 where "CacheManager_FindMatchingData L now i (ndCacheManager nd) = Some d"
      and "DataPacket_new L d h = (pkt, h1)"
      and "Node_HandleInterest L R now f i (h, nd, out) = Node_ForwardToFace R pkt f (h1, nd, out)"
  | (silent) pit where "CacheManager_FindMatchingData L now i (ndCacheManager nd) = None"
      and "pit = snd (Pit_AddInterest now f i (ndPit nd))"
      and "\<not> fst (Pit_AddInterest now f i (ndPit nd)) \<or> interest_faces L f i nd = []"
      and "Node_HandleInterest L R now f i (h, nd, out) = Inr (h, nd\<lparr>ndPit := pit\<rparr>, out)"
  | (command) pit where "CacheManager_FindMatchingData L now i (ndCacheManager nd) = None"
      and "fst (Pit_AddInterest now f i (ndPit nd))"
      and "pit = snd (Pit_AddInterest now f i (ndPit nd))" and "0 \<in> set (interest_faces L f i nd)"
      and "Node_HandleInterest L R now f i (h, nd, out) =
        Node_ProcessCommand L R now f (iName i) (h, nd\<lparr>ndPit := pit\<rparr>, out)"
  | (forward) pit pkt h1 where "CacheManager_FindMatchingData L now i (ndCacheManager nd) = None"
      and "fst (Pit_AddInterest now f i (ndPit nd))"
      and "pit = snd (Pit_AddInterest now f i (ndPit nd))" and "0 \<notin> set (interest_faces L f i nd)"
      and "interest_faces L f i nd \<noteq> []" and "InterestPacket_new L i h = (pkt, h1)"
      and "Node_HandleInterest L R now f i (h, nd, out) =
        Node_ForwardToFaces R pkt (interest_faces L f i nd) (h1, nd\<lparr>ndPit := pit\<rparr>, out)"
proof (cases "CacheManager_FindMatchingData L now i (ndCacheManager nd)")
  case (Some d)
  obtain pkt h1 where p: "DataPacket_new L d h = (pkt, h1)" by (cases "DataPacket_new L d h")
  with Some show thesis by (intro hit[OF Some p]) (simp add: Node_HandleInterest_def)
next
  case None
  obtain fresh pit where a: "Pit_AddInterest now f i (ndPit nd) = (fresh, pit)"
    by (cases "Pit_AddInterest now f i (ndPit nd)")
  obtain pkt h1 where p: "InterestPacket_new L i h = (pkt, h1)" by (cases "InterestPacket_new L i h")
  let ?fs = "interest_faces L f i nd"
  have eq: "Node_HandleInterest L R now f i (h, nd, out) =
     (let nd1 = nd\<lparr>ndPit := pit\<rparr> in
      if fresh
      then if ?fs = [] then Inr (h, nd1, out)
           else if 0 \<in> set ?fs then Node_ProcessCommand L R now f (iName i) (h, nd1, out)
           else Node_ForwardToFaces R pkt ?fs (h1, nd1, out)
      else Inr (h, nd1, out))"
    using None a p by (simp add: Node_HandleInterest_def interest_faces_def Let_def)
  consider "\<not> fresh \<or> ?fs = []" | "fresh" "?fs \<noteq> []" "0 \<in> set ?fs" | "fresh" "?fs \<noteq> []" "0 \<notin> set ?fs"
    by blast
  then show thesis
  proof cases
    case 1
    then show thesis by (intro silent[OF None]) (use a eq in \<open>auto simp: Let_def\<close>)
  next
    case 2
    then show thesis by (intro command[OF None]) (use a eq in \<open>auto simp: Let_def\<close>)
  next
    case 3
    then show thesis by (intro forward[OF None _ _ _ _ p]) (use a eq in \<open>auto simp: Let_def\<close>)
  qed
qed

lemma HandleInterest_node_ok:
  assumes "node_ok nd" and "Node_HandleInterest L R now f i (h, nd, out) = Inr (h', nd', out')"
  shows "node_ok nd' \<and> same_node nd nd' \<and> (\<exists>io. out' = out @ io \<and> to_faces nd io)"
proof -
  let ?nd = "nd\<lparr>ndPit := snd (Pit_AddInterest now f i (ndPit nd))\<rparr>"
  have ok: "node_ok ?nd" by (rule node_ok_pit[OF assms(1) pit_ok_AddInterest[OF node_okD(3)[OF assms(1)]]])
  show ?thesis
  proof (cases rule: HandleInterest_cases[where L = L and R = R and now = now and f = f and i = i
        and h = h and nd = nd and out = out])
    case (hit d pkt h1)
    obtain h2 nd2 io where "Node_ForwardToFace R pkt f (h1, nd, out) = Inr (h2, nd2, out @ io)"
      "forwarded nd h1 nd2 h2" "to_faces nd io"
      using ForwardToFace_spec[OF assms(1)] to_faces_sends by metis
    with hit assms(2) show ?thesis
      by (auto intro: same_node_forwarded forwarded_face_table(8))
  next
    case (silent pit)
    with assms ok show ?thesis by auto
  next
    case (command pit)
    with assms(2) ProcessCommand_node_ok[OF ok, of L R now f "iName i" h out h' nd' out']
    show ?thesis
      by (auto intro: same_node_trans[of _ ?nd] simp: to_faces_cong[of ?nd nd])
  next
    case (forward pit pkt h1)
    obtain h2 nd2 io where
      "Node_ForwardToFaces R pkt (interest_faces L f i nd) (h1, ?nd, out) = Inr (h2, nd2, out @ io)"
      "forwarded ?nd h1 nd2 h2" "to_faces ?nd io"
      using ForwardToFaces_spec[OF ok] to_faces_sends by metis
    with forward assms(2) show ?thesis
      by (auto intro: forwarded_face_table(8) same_node_trans[of _ ?nd] same_node_forwarded
          simp: to_faces_cong[of ?nd nd])
  qed
qed

lemma Dispatch_node_ok:
  assumes "node_ok nd" and "Face_Dispatch L R now f wire (h, nd, out) = Inr (h', nd', out')"
  shows "node_ok nd' \<and> same_node nd nd' \<and> (\<exists>io. out' = out @ io \<and> to_faces nd io)"
proof -
  have "node_ok nd' \<and> same_node nd nd' \<and> (\<exists>io. out' = out @ io \<and> to_faces nd io)"
    if "Node_HandleData L R now f d (h, nd, out) = Inr (h', nd', out')" for d
  proof -
    obtain fs pit where "Pit_ConsumeInterestWithDataName L now (dName d) [] (ndPit nd) = (fs, pit)"
      by fastforce
    from HandleData_spec[OF assms(1) this, of R f h out] that show ?thesis
      by (auto dest: to_faces_sends)
  qed
  with assms show ?thesis
    by (auto simp: Face_Dispatch_def split: if_splits option.splits dest: HandleInterest_node_ok)
qed

text \<open>The node is what an application face dispatches its packets to.\<close>

interpretation app: packet_dispatcher "Face_Dispatch L R now f" "remove_face f"
  "\<lambda>s. node_ok (fst (snd s))" "\<lambda>s. is_app_face (fst (snd s)) f"
  for L R now f
proof
  fix s s' :: "'a node_state" and wire
  obtain h nd out h' nd' out' where s: "s = (h, nd, out)" "s' = (h', nd', out')"
    by (cases s, cases s')
  assume ok: "node_ok (fst (snd s))"
  {
    assume "Face_Dispatch L R now f wire s = Inr s'"
    with Dispatch_node_ok[of nd L R now f wire h out h' nd' out'] ok s
    have "node_ok nd' \<and> same_node nd nd'" by auto
    note this
  }
  note dispatched = this
  show "node_ok (fst (snd s'))" if "Face_Dispatch L R now f wire s = Inr s'"
    using dispatched[OF that] s by simp
  show "is_app_face (fst (snd s')) f"
    if "is_app_face (fst (snd s)) f" and "Face_Dispatch L R now f wire s = Inr s'"
    using dispatched[OF that(2)] s that(1) by (simp add: is_app_face_def same_node_def)
  show "node_ok (fst (snd s'))"
    if "is_app_face (fst (snd s)) f" and "remove_face f s = Inr s'"
    using that s ok node_ok_RemoveFace[of nd f nd'] by (auto simp: remove_face_def and_then_Inr_iff)
qed

lemma node_ok_put_app_face:
  assumes "node_ok nd" and "is_app_face nd f" and "afId af = f"
  shows "node_ok (nd\<lparr>ndFaceTable := om_put f (AppFc af) (ndFaceTable nd)\<rparr>)"
proof -
  let ?nd = "nd\<lparr>ndFaceTable := om_put f (AppFc af) (ndFaceTable nd)\<rparr>"
  note tab = node_okD(1)[OF assms(1)]
  obtain af0 where af0: "map_of (ndFaceTable nd) f = Some (AppFc af0)"
    using assms(2) by (auto simp: is_app_face_def split: option.splits face.splits)
  have "Node_link_face ?nd = Node_link_face nd"
    using af0 by (auto simp: Node_link_face_def fun_eq_iff kv_simps)
  then have "device_entry_ok ?nd e = device_entry_ok nd e" for e
    by (rule device_entry_ok_cong) simp
  then have "tables_ok ?nd"
    using tab assms(3) tables_ok_face[OF tab af0]
    by (auto simp: tables_ok_def om.ok_put om.entries_put face_entry_ok_def)
  moreover have "links_ok ?nd" using node_okD(2)[OF assms(1)] by (simp add: links_ok_def kv_simps)
  ultimately show ?thesis using assms(1) by (simp add: node_ok_def manager_ok_def)
qed

lemma HandleReceive_node_ok:
  assumes "node_ok nd" and "Node_HandleReceive L R now f err rcv (h, nd, out) = Some (Inr (h', nd', out'))"
  shows "node_ok nd'"
proof -
  from assms(2) obtain af where af: "map_of (ndFaceTable nd) f = Some (AppFc af)"
    by (auto simp: Node_HandleReceive_def split: option.splits face.splits)
  then have app: "is_app_face nd f" by (simp add: is_app_face_def)
  have id: "afId af = f" using tables_ok_face(1)[OF node_okD(1)[OF assms(1)] af] by simp
  from assms(2) af obtain af' h1 nd1 out1 where
    rcv: "AppFace_HandleReceive L (Face_Dispatch L R now f) (remove_face f) err rcv af (h, nd, out) =
      Some (Inr (af', (h1, nd1, out1)))"
    and res: "(case af' of None \<Rightarrow> Inr (h1, nd1, out1)
      | Some af1 \<Rightarrow> Inr (h1, nd1\<lparr>ndFaceTable := om_put f (AppFc af1) (ndFaceTable nd1)\<rparr>,
          out1 @ [AppReceive f])) = (Inr (h', nd', out') :: 'a node_state result)"
    by (auto simp: Node_HandleReceive_def and_then_Inr_iff)
  have good: "node_ok nd1" "af' \<noteq> None \<Longrightarrow> is_app_face nd1 f"
    using app.HandleReceive_good[OF _ _ rcv] assms(1) app by simp_all
  show ?thesis
  proof (cases af')
    case None
    with res good show ?thesis by simp
  next
    case (Some af1)
    then have "afId af1 = f" using app.HandleReceive_face rcv id by blast
    with Some res good node_ok_put_app_face show ?thesis by force
  qed
qed

lemma node_ok_PitCleanUp [inv_intros]:
  "node_ok nd \<Longrightarrow> node_ok (fst (Node_PitCleanUp err now nd))"
  using pit_ok_CleanUp[OF node_okD(3), of nd err now]
  by (auto simp: Node_PitCleanUp_def split: prod.splits intro: node_ok_pit)

text \<open>The device handlers: the other devices and the faces that exist stay as they are.\<close>

lemma on_device_cases:
  assumes "Node_on_device d handler nd = Inr (nd', out)"
  obtains dv dv' nd1 io where "map_of (ndDeviceTable nd) d = Some dv"
    and "handler dv nd = Inr (dv', nd1, io)" and "out = map (DevIO d) io"
    and "nd' = nd1\<lparr>ndDeviceTable := om_put d dv' (ndDeviceTable nd1)\<rparr>"
  using assms
  by (auto simp: Node_on_device_def Node_GetDevice_def and_then_Inr_iff split: option.splits)

lemma node_ok_StartRx:
  assumes "node_ok nd" and "Node_StartRx h pkt d nd = Inr (nd', out)"
  shows "node_ok nd'"
  using assms(2) unfolding Node_StartRx_def
proof (cases rule: on_device_cases)
  case (1 dv dv' nd1 io)
  then have rx: "LinkDevice_StartRx h pkt dv = Inr (dv', io)" and "nd1 = nd"
    by (auto simp: and_then_Inr_iff)
  have "device_ok dv" by (rule tables_ok_device(3)[OF node_okD(1)[OF assms(1)] 1(1)])
  from device_ok_StartRx[OF this rx] device_entry_same[OF node_okD(1)[OF assms(1)] 1(1)]
  show ?thesis unfolding 1(4) \<open>nd1 = nd\<close> by (intro node_ok_put_device[OF assms(1)]) blast
qed

lemma node_ok_DoCsma:
  assumes "node_ok nd" and "Node_DoCsma R h NB BE err d nd = Inr (nd', out)"
  shows "node_ok nd'"
  using assms(2) unfolding Node_DoCsma_def
proof (cases rule: on_device_cases)
  case (1 dv dv' nd1 io)
  then have cs: "LinkDevice_DoCsma R NB BE err h dv = Inr (dv', io)" and "nd1 = nd"
    by (auto simp: and_then_Inr_iff)
  have "device_ok dv" by (rule tables_ok_device(3)[OF node_okD(1)[OF assms(1)] 1(1)])
  from device_ok_DoCsma[OF this cs] device_entry_same[OF node_okD(1)[OF assms(1)] 1(1)]
  show ?thesis unfolding 1(4) \<open>nd1 = nd\<close> by (intro node_ok_put_device[OF assms(1)]) blast
qed

lemma node_ok_PostRx:
  assumes "node_ok nd" and "Node_PostRx h err d nd = Inr (nd', out)"
  shows "node_ok nd'"
  using assms(2) unfolding Node_PostRx_def
proof (cases rule: on_device_cases)
  case (1 dv dv' nd1 io)
  note dv = tables_ok_device[OF node_okD(1)[OF assms(1)] 1(1)]
  note rx = node.PostRx_ok[OF node_okD(1)[OF assms(1)] dv(3,4) 1(2)]
  have nd1: "node_ok nd1 \<and> ndId nd1 = ndId nd"
  proof (cases "nd1 = nd")
    case False
    then obtain m f where add: "Node_AddLinkFace m d nd = Inr (f, nd1)"
      using node.PostRx_node[OF 1(2)] dv(1) by auto
    then show ?thesis
      using node_ok_AddLinkFace[OF assms(1) _ add] 1(1) AddLinkFace_fields(2)[OF add] by simp
  qed (simp add: assms(1))
  have "map_of (dvFaces dv') BROADCAST_MAC \<noteq> None"
    using node.PostRx_keeps_faces[OF 1(2)] dv(5) by blast
  then have "device_entry_ok nd1 (d, dv')"
    using rx dv nd1 by (simp add: device_entry_ok_def same_device_def)
  then show ?thesis unfolding 1(4) using nd1 by (intro node_ok_put_device) simp_all
qed

end
