(* ===== verification/Forwarding.thy ===== *)
theory Forwarding
  imports Node
begin

text \<open>
  What a node does with Interests and Data, as seen from its faces. \<open>asked\<close> and
  \<open>routed\<close> are the specifications: the faces that wait for a Data packet, and the faces an
  Interest has a route to.
\<close>

section \<open>Specifications\<close>

definition asked :: "('n, 'c) ndn \<Rightarrow> time \<Rightarrow> 'n data \<Rightarrow> 'n node \<Rightarrow> int set" where
  "asked L now d nd = {g. \<exists>k x t. (k, x, g, t) \<in> pending (ndPit nd) \<and> nmIsPrefixOf L k (dName d) \<and> now < t}"

definition routed :: "('n, 'c) ndn \<Rightarrow> 'n interest \<Rightarrow> 'n node \<Rightarrow> int set" where
  "routed L i nd = {g. \<exists>k. (k, g) \<in> routes (ndFib nd) \<and> nmIsPrefixOf L k (iName i)}"

text \<open>The sends of one packet to the application faces in a set, in ascending order.\<close>

definition sends :: "'n node \<Rightarrow> int set \<Rightarrow> bytes \<Rightarrow> node_out list" where
  "sends nd G bs = map (\<lambda>g. AppSend g bs) (sorted_list_of_set {g \<in> G. is_app_face nd g})"

lemma finite_app_faces: "finite {g \<in> G. is_app_face nd g}"
proof -
  have "{g \<in> G. is_app_face nd g} \<subseteq> fst ` set (ndFaceTable nd)"
    by (auto simp: is_app_face_def split: option.splits dest!: map_of_SomeD simp: rev_image_eqI)
  then show ?thesis by (rule finite_subset) simp
qed

lemma app_sends_set:
  assumes "ss_ok fs" and "set fs = G"
  shows "app_sends nd fs bs = sends nd G bs"
proof -
  have "sorted_wrt (<) (filter (is_app_face nd) fs)" using assms(1) by (rule sorted_wrt_filter)
  moreover have "set (filter (is_app_face nd) fs) = {g \<in> G. is_app_face nd g}"
    using assms(2) by auto
  ultimately have "filter (is_app_face nd) fs = sorted_list_of_set {g \<in> G. is_app_face nd g}"
    by (metis strict_sorted_iff sorted_list_of_set.idem_if_sorted_distinct)
  then show ?thesis by (simp add: app_sends_def sends_def)
qed

lemma Consume_spec:
  assumes "Pit_ConsumeInterestWithDataName L now (dName d) [] (ndPit nd) = (fs, pit)"
  shows "ss_ok fs \<and> set fs = asked L now d nd \<and>
    pending pit = {q \<in> pending (ndPit nd). \<not> nmIsPrefixOf L (fst q) (dName d)}"
  using faces_Consume_ok[of "[]" L now "dName d" "ndPit nd"]
    faces_Consume[of L now "dName d" "[]" "ndPit nd"] pending_Consume[of L now "dName d" "[]" "ndPit nd"]
  by (simp add: assms asked_def)

lemma interest_faces_spec:
  assumes "node_ok nd" and "name_laws L"
  shows "ss_ok (interest_faces L f i nd) \<and> set (interest_faces L f i nd) = routed L i nd - {f}"
proof
  show "ss_ok (interest_faces L f i nd)"
    by (simp add: interest_faces_def LookUp_ok)
  show "set (interest_faces L f i nd) = routed L i nd - {f}"
    using set_LookUp[OF node_okD(4)[OF assms(1)] assms(2), of "iName i" "[]"]
    by (auto simp: interest_faces_def routed_def)
qed

lemma HandleData_asked:
  assumes "node_ok nd"
  shows "\<exists>h' nd' io. Node_HandleData L R now f d (h, nd, out) = Inr (h', nd', out @ io) \<and>
    node_ok nd' \<and> same_node nd nd' \<and> ndFib nd' = ndFib nd \<and>
    pending (ndPit nd') = {q \<in> pending (ndPit nd). \<not> nmIsPrefixOf L (fst q) (dName d)} \<and>
    filter is_app_send io = sends nd (asked L now d nd) (encodeData L d) \<and>
    (if asked L now d nd = {} then h' = h \<and> io = [] \<and> ndCacheManager nd' = ndCacheManager nd \<and>
        ndDeviceTable nd' = ndDeviceTable nd
     else CacheManager_Insert L now d (ndCacheManager nd) = Inr (ndCacheManager nd'))"
proof -
  obtain fs pit where con: "Pit_ConsumeInterestWithDataName L now (dName d) [] (ndPit nd) = (fs, pit)"
    by (cases "Pit_ConsumeInterestWithDataName L now (dName d) [] (ndPit nd)")
  note spec = Consume_spec[OF con]
  have Nil: "asked L now d nd = {} \<longleftrightarrow> fs = []" using spec by (metis set_empty)
  have sends: "app_sends nd fs (encodeData L d) = sends nd (asked L now d nd) (encodeData L d)"
    using spec by (intro app_sends_set) simp_all
  obtain h' nd' io where hd: "Node_HandleData L R now f d (h, nd, out) = Inr (h', nd', out @ io)"
    "node_ok nd'" "same_node nd nd'" "ndPit nd' = pit" "ndFib nd' = ndFib nd"
    "filter is_app_send io = app_sends nd fs (encodeData L d)"
    "if fs = [] then h' = h \<and> nd' = nd\<lparr>ndPit := pit\<rparr> \<and> io = []
     else CacheManager_Insert L now d (ndCacheManager nd) = Inr (ndCacheManager nd')"
    using HandleData_spec[OF assms con, of R f h out] by (elim exE conjE) (rule that)
  show ?thesis
  proof (intro exI conjI)
    show "if asked L now d nd = {} then h' = h \<and> io = [] \<and> ndCacheManager nd' = ndCacheManager nd \<and>
        ndDeviceTable nd' = ndDeviceTable nd
     else CacheManager_Insert L now d (ndCacheManager nd) = Inr (ndCacheManager nd')"
      using hd(7) Nil by (cases "fs = []") simp_all
  qed (use hd spec sends in simp_all)
qed

text \<open>A fresh Interest that the cache does not answer is recorded; a known nonce changes nothing.\<close>

lemma AddInterest_node:
  assumes "node_ok nd"
  shows "fst (Pit_AddInterest now f i (ndPit nd)) \<longleftrightarrow>
      (\<forall>g t. (iName i, iNonce i, g, t) \<notin> pending (ndPit nd))"
    and "pending (snd (Pit_AddInterest now f i (ndPit nd))) =
      (if fst (Pit_AddInterest now f i (ndPit nd))
       then insert (iName i, iNonce i, f, now + iLifetime i) (pending (ndPit nd))
       else pending (ndPit nd))"
    and "node_ok (nd\<lparr>ndPit := snd (Pit_AddInterest now f i (ndPit nd))\<rparr>)"
  using AddInterest_result[of now f i "ndPit nd"] pending_AddInterest[OF node_okD(3)[OF assms], of now f i]
    nonce_known_pending[OF node_okD(3)[OF assms], of "iName i" "iNonce i"]
    node_ok_pit[OF assms pit_ok_AddInterest[OF node_okD(3)[OF assms]], of now f i]
  by auto

lemma count_list_distinct: "distinct xs \<Longrightarrow> x \<in> set xs \<Longrightarrow> count_list xs x = 1"
  by (induction xs) auto

section \<open>Properties\<close>

text \<open>
  C5: Data is delivered to exactly the faces that wait for it. On a well-formed node
  \<open>HandleData\<close> never fails; it sends the packet once to each application face with an
  unexpired Interest under the Data's name, in ascending order, and to no other; every
  Interest under that name is no longer pending; the Data is cached only when some face
  waits for it, and otherwise nothing is sent at all.
\<close>

theorem HandleData_delivers:
  assumes "node_ok nd"
  shows "\<exists>h' nd' io. Node_HandleData L R now f d (h, nd, out) = Inr (h', nd', out @ io) \<and> node_ok nd' \<and>
    filter is_app_send io = sends nd (asked L now d nd) (encodeData L d) \<and>
    pending (ndPit nd') = {q \<in> pending (ndPit nd). \<not> nmIsPrefixOf L (fst q) (dName d)} \<and>
    (if asked L now d nd = {} then io = [] \<and> ndCacheManager nd' = ndCacheManager nd
     else CacheManager_Insert L now d (ndCacheManager nd) = Inr (ndCacheManager nd'))"
  using HandleData_asked[OF assms, of L R now f d h out]
  by (elim ex_forward) (auto split: if_splits)

text \<open>
  C10: An Interest that the content store can answer is answered from there to the face it
  came from and to no other; it is neither recorded nor forwarded.
\<close>

theorem HandleInterest_cache_hit:
  assumes "node_ok nd" and "CacheManager_FindMatchingData L now i (ndCacheManager nd) = Some d"
  shows "\<exists>h' nd' io. Node_HandleInterest L R now f i (h, nd, out) = Inr (h', nd', out @ io) \<and> node_ok nd' \<and>
    ndPit nd' = ndPit nd \<and> ndFib nd' = ndFib nd \<and> ndCacheManager nd' = ndCacheManager nd \<and>
    filter is_app_send io = sends nd {f} (encodeData L d) \<and>
    (is_app_face nd f \<longrightarrow> io = [AppSend f (encodeData L d)] \<and> nd' = nd)"
proof (cases rule: HandleInterest_cases[where L = L and R = R and now = now and f = f and i = i
      and h = h and nd = nd and out = out])
  case (hit d' pkt h1)
  then have "d' = d" using assms(2) by simp
  then have blk: "Packet_GetBlock h1 pkt = encodeData L d" using new_packet(1)[OF hit(2)] by simp
  obtain h' nd' io where fwd: "Node_ForwardToFace R pkt f (h1, nd, out) = Inr (h', nd', out @ io)"
    "forwarded nd h1 nd' h'" "filter is_app_send io = app_sends nd [f] (encodeData L d)"
    "is_app_face nd f \<longrightarrow> nd' = nd \<and> io = app_sends nd [f] (encodeData L d)"
    using ForwardToFace_spec[OF assms(1), of R pkt f h1 out] blk by metis
  have "app_sends nd [f] (encodeData L d) = sends nd {f} (encodeData L d)"
    by (intro app_sends_set) simp_all
  moreover have "app_sends nd [f] (encodeData L d) = [AppSend f (encodeData L d)]" if "is_app_face nd f"
    using that by (simp add: app_sends_def)
  ultimately show ?thesis using hit(3) fwd forwarded_face_table[OF fwd(2)] by auto
qed (use assms(2) in auto)

text \<open>
  C9: A looping Interest (its name and nonce are pending) that the cache does not answer is
  dropped: nothing is sent and the pending Interests stay the same.
\<close>

theorem HandleInterest_drops_loops:
  assumes "node_ok nd" and "CacheManager_FindMatchingData L now i (ndCacheManager nd) = None"
    and "(iName i, iNonce i, g, t) \<in> pending (ndPit nd)"
  shows "\<exists>nd'. Node_HandleInterest L R now f i (h, nd, out) = Inr (h, nd', out) \<and> node_ok nd' \<and>
    pending (ndPit nd') = pending (ndPit nd) \<and> nd' = nd\<lparr>ndPit := ndPit nd'\<rparr>"
proof -
  have known: "\<not> fst (Pit_AddInterest now f i (ndPit nd))"
    using AddInterest_node(1)[OF assms(1)] assms(3) by blast
  show ?thesis
    by (cases rule: HandleInterest_cases[where L = L and R = R and now = now and f = f and i = i
        and h = h and nd = nd and out = out])
      (use known assms(2) AddInterest_node(2,3)[OF assms(1), of now f i] in auto)
qed

lemma HandleInterest_fresh:
  assumes "node_ok nd" and "name_laws L"
    and "CacheManager_FindMatchingData L now i (ndCacheManager nd) = None"
    and "\<forall>g t. (iName i, iNonce i, g, t) \<notin> pending (ndPit nd)" and "0 \<notin> routed L i nd - {f}"
  shows "\<exists>h' nd' io. Node_HandleInterest L R now f i (h, nd, out) = Inr (h', nd', out @ io) \<and> node_ok nd' \<and>
    same_node nd nd' \<and> ndCacheManager nd' = ndCacheManager nd \<and>
    pending (ndPit nd') = insert (iName i, iNonce i, f, now + iLifetime i) (pending (ndPit nd)) \<and>
    ndFib nd' = ndFib nd \<and>
    filter is_app_send io = sends nd (routed L i nd - {f}) (encodeInterest L i)"
proof -
  have fresh: "fst (Pit_AddInterest now f i (ndPit nd))"
    using AddInterest_node(1)[OF assms(1)] assms(4) by blast
  note add = AddInterest_node(2,3)[OF assms(1), of now f i]
  note faces = interest_faces_spec[OF assms(1,2), of f i]
  have sends: "app_sends nd (interest_faces L f i nd) (encodeInterest L i) =
      sends nd (routed L i nd - {f}) (encodeInterest L i)"
    using faces by (intro app_sends_set) simp_all
  show ?thesis
  proof (cases rule: HandleInterest_cases[where L = L and R = R and now = now and f = f and i = i
        and h = h and nd = nd and out = out])
    case (silent pit)
    with fresh sends add show ?thesis by (auto simp: app_sends_def)
  next
    case (forward pit pkt h1)
    let ?nd = "nd\<lparr>ndPit := pit\<rparr>"
    obtain h' nd' io where fwd:
      "Node_ForwardToFaces R pkt (interest_faces L f i nd) (h1, ?nd, out) = Inr (h', nd', out @ io)"
      "forwarded ?nd h1 nd' h'"
      "filter is_app_send io = app_sends ?nd (interest_faces L f i nd) (Packet_GetBlock h1 pkt)"
      using ForwardToFaces_spec add(2) forward(3) by metis
    have "app_sends ?nd fs bs = app_sends nd fs bs" for fs bs by (rule app_sends_cong) simp
    then show ?thesis
      using forward fwd forwarded_face_table[OF fwd(2)] same_node_forwarded[OF fwd(2)]
        new_packet(2)[OF forward(6)] sends add fresh
      by (auto intro: same_node_trans[of _ ?nd])
  qed (use assms(3,5) faces in auto)
qed

text \<open>
  C6: A fresh Interest that the cache does not answer and that no route takes to face 0 is
  recorded for its face and sent exactly to the application faces with a route at one of the
  prefixes of its name, never back to the face it came from.
\<close>

theorem HandleInterest_forwards:
  assumes "node_ok nd" and "name_laws L"
    and "CacheManager_FindMatchingData L now i (ndCacheManager nd) = None"
    and "\<forall>g t. (iName i, iNonce i, g, t) \<notin> pending (ndPit nd)" and "0 \<notin> routed L i nd - {f}"
  shows "\<exists>h' nd' io. Node_HandleInterest L R now f i (h, nd, out) = Inr (h', nd', out @ io) \<and> node_ok nd' \<and>
    pending (ndPit nd') = insert (iName i, iNonce i, f, now + iLifetime i) (pending (ndPit nd)) \<and>
    filter is_app_send io = sends nd (routed L i nd - {f}) (encodeInterest L i) \<and>
    (\<forall>bs. AppSend f bs \<notin> set io)"
proof -
  obtain h' nd' io where hi: "Node_HandleInterest L R now f i (h, nd, out) = Inr (h', nd', out @ io)"
    "node_ok nd'" "pending (ndPit nd') = insert (iName i, iNonce i, f, now + iLifetime i) (pending (ndPit nd))"
    "filter is_app_send io = sends nd (routed L i nd - {f}) (encodeInterest L i)"
    using HandleInterest_fresh[OF assms] by metis
  have fin: "finite (routed L i nd - {f})"
    using interest_faces_spec[OF assms(1,2), of f i] by (metis List.finite_set)
  have "AppSend f bs \<notin> set io" for bs
  proof
    assume "AppSend f bs \<in> set io"
    then have "AppSend f bs \<in> set (filter is_app_send io)" by simp
    then show False unfolding hi(4) sends_def using fin by auto
  qed
  with hi show ?thesis by blast
qed

text \<open>
  C4: An application that sends a fresh Interest gets the Data that answers it exactly once:
  when matching Data arrives on any face before the Interest expires, both handlers succeed,
  the application's face is sent the Data once, and the Interest is no longer pending.
\<close>

theorem request_gets_reply:
  assumes "node_ok nd" and "name_laws L" and "is_app_face nd f"
    and "CacheManager_FindMatchingData L now i (ndCacheManager nd) = None"
    and "\<forall>g t. (iName i, iNonce i, g, t) \<notin> pending (ndPit nd)" and "0 \<notin> routed L i nd - {f}"
    and "nmIsPrefixOf L (iName i) (dName d)" and "later < now + iLifetime i"
  shows "\<exists>h1 nd1 io1 h2 nd2 io2.
    Node_HandleInterest L R now f i (h, nd, out) = Inr (h1, nd1, out @ io1) \<and>
    Node_HandleData L R later g d (h1, nd1, out @ io1) = Inr (h2, nd2, (out @ io1) @ io2) \<and>
    node_ok nd2 \<and> count_list io2 (AppSend f (encodeData L d)) = 1 \<and>
    (\<forall>x g t. (iName i, x, g, t) \<notin> pending (ndPit nd2))"
proof -
  obtain h1 nd1 io1 where hi: "Node_HandleInterest L R now f i (h, nd, out) = Inr (h1, nd1, out @ io1)"
    "node_ok nd1" "same_node nd nd1"
    "pending (ndPit nd1) = insert (iName i, iNonce i, f, now + iLifetime i) (pending (ndPit nd))"
    using HandleInterest_fresh[OF assms(1,2,4-6)] by metis
  obtain h2 nd2 io2 where hd: "Node_HandleData L R later g d (h1, nd1, out @ io1) = Inr (h2, nd2, (out @ io1) @ io2)"
    "node_ok nd2" "filter is_app_send io2 = sends nd1 (asked L later d nd1) (encodeData L d)"
    "pending (ndPit nd2) = {q \<in> pending (ndPit nd1). \<not> nmIsPrefixOf L (fst q) (dName d)}"
    using HandleData_asked[OF hi(2), of L R later g d h1 "out @ io1"] by (elim exE conjE) (rule that)
  let ?G = "{g \<in> asked L later d nd1. is_app_face nd1 g}"
  have "f \<in> asked L later d nd1"
    unfolding asked_def hi(4) using assms(7,8) by blast
  moreover have "is_app_face nd1 f" using assms(3) hi(3) by (simp add: is_app_face_def same_node_def)
  moreover have "finite ?G" by (rule finite_app_faces)
  ultimately have "AppSend f (encodeData L d) \<in>
      set (map (\<lambda>g. AppSend g (encodeData L d)) (sorted_list_of_set ?G))" by auto
  then have "count_list (map (\<lambda>g. AppSend g (encodeData L d)) (sorted_list_of_set ?G))
      (AppSend f (encodeData L d)) = 1"
    by (intro count_list_distinct) (auto simp: distinct_map inj_on_def)
  then have "count_list (filter is_app_send io2) (AppSend f (encodeData L d)) = 1"
    unfolding hd(3) sends_def .
  moreover have "count_list (filter is_app_send io2) (AppSend f (encodeData L d)) =
      count_list io2 (AppSend f (encodeData L d))"
    by (induction io2) auto
  ultimately show ?thesis using hi hd assms(7) by fastforce
qed

text \<open>
  C13: After \<open>RemoveFace\<close> no Interest is routed to the face and nothing is sent to it any
  more, whatever packet the node handles next, although the Pending Interest Table still
  holds the face's records.
\<close>

theorem removed_face_is_silent:
  assumes "node_ok nd" and "is_app_face nd f" and "Node_RemoveFace f nd = Inr nd1"
    and "Face_Dispatch L R now g wire (h, nd1, out) = Inr (h2, nd2, out2)"
  shows "node_ok nd1 \<and> pending (ndPit nd1) = pending (ndPit nd) \<and> f \<notin> routed L i nd1 \<and>
    (\<exists>io. out2 = out @ io \<and> (\<forall>bs. AppSend f bs \<notin> set io))"
proof -
  note rem = node_ok_RemoveFace[OF assms(1-3)]
  have "ndPit nd1 = ndPit nd" using assms(3) by (auto simp: Node_RemoveFace_def split: option.splits)
  moreover have "\<not> is_app_face nd1 f" using rem by (simp add: is_app_face_def)
  moreover obtain io where "out2 = out @ io" "to_faces nd1 io"
    using Dispatch_node_ok[OF _ assms(4)] rem by blast
  ultimately show ?thesis using rem by (auto simp: routed_def to_faces_def)
qed

section \<open>Failures\<close>

text \<open>
  A command that ends the emulator: an Interest that reaches the FIB manager with fewer than
  two components after the command prefix.
\<close>

definition bad_command :: "('n, 'c) ndn \<Rightarrow> time \<Rightarrow> int \<Rightarrow> 'n interest \<Rightarrow> 'n node \<Rightarrow> bool" where
  "bad_command L now f i nd \<longleftrightarrow>
     CacheManager_FindMatchingData L now i (ndCacheManager nd) = None \<and>
     (\<forall>g t. (iName i, iNonce i, g, t) \<notin> pending (ndPit nd)) \<and> 0 \<in> routed L i nd - {f} \<and>
     (\<exists>fm. ndFibManager nd = Some fm \<and> nmSize L (iName i) \<le> nmSize L (fmCmdPrefix fm) + 1)"

definition out_of_range :: error where
  "out_of_range = UndefinedBehaviour ''name component out of range''"

lemma ProcessCommand_Inl:
  assumes "node_ok nd" and "name_laws L" and "control_laws L" and "ndFibManager nd = Some fm"
  shows "Node_ProcessCommand L R now f c (h, nd, out) = Inl e \<longleftrightarrow>
    nmSize L c \<le> nmSize L (fmCmdPrefix fm) + 1 \<and> e = out_of_range"
proof (cases "nmSize L c \<le> nmSize L (fmCmdPrefix fm) + 1")
  case True
  then have "nmAt L c (nmSize L (fmCmdPrefix fm) + 1) = None"
    using at_None_iff[OF assms(2)] by blast
  then have "FibManager_ProcessCommand L fm f c (ndFib nd) = Inl out_of_range"
    by (simp add: FibManager_ProcessCommand_def Let_def out_of_range_def split: option.split)
  with True assms(4) show ?thesis by (auto simp: Node_ProcessCommand_def)
next
  case False
  then obtain fib reply where cmd: "FibManager_ProcessCommand L fm f c (ndFib nd) = Inr (fib, reply)"
    using ProcessCommand_total[OF assms(3,2), of fm c f "ndFib nd"] by auto
  have ok: "node_ok (nd\<lparr>ndFib := fib\<rparr>)"
    using fib_ok_ProcessCommand[OF node_okD(4)[OF assms(1)] cmd] assms(4)
    by (intro node_ok_fib[OF assms(1)]) auto
  have "\<exists>s. Node_HandleData L R now (fmId fm) d (h, nd\<lparr>ndFib := fib\<rparr>, out) = Inr s" for d
    using HandleData_asked[OF ok, of L R now "fmId fm" d h out] by blast
  then have "\<exists>s. Node_ProcessCommand L R now f c (h, nd, out) = Inr s"
    using cmd assms(4) by (cases reply) (auto simp: Node_ProcessCommand_def)
  with False show ?thesis by auto
qed

lemma HandleInterest_Inl:
  assumes "node_ok nd" and "name_laws L" and "control_laws L"
  shows "Node_HandleInterest L R now f i (h, nd, out) = Inl e \<longleftrightarrow> bad_command L now f i nd \<and> e = out_of_range"
proof -
  let ?nd = "nd\<lparr>ndPit := snd (Pit_AddInterest now f i (ndPit nd))\<rparr>"
  note fresh = AddInterest_node(1)[OF assms(1), of now f i]
  note ok = AddInterest_node(3)[OF assms(1), of now f i]
  note faces = interest_faces_spec[OF assms(1,2), of f i]
  show ?thesis
  proof (cases rule: HandleInterest_cases[where L = L and R = R and now = now and f = f and i = i
        and h = h and nd = nd and out = out])
    case (hit d pkt h1)
    with ForwardToFace_spec[OF assms(1), of R pkt f h1 out] show ?thesis by (auto simp: bad_command_def)
  next
    case (silent pit)
    with fresh faces show ?thesis by (auto simp: bad_command_def)
  next
    case (command pit)
    then obtain k where "(k, 0) \<in> routes (ndFib nd)" using faces by (auto simp: routed_def)
    then obtain fm where fm: "ndFibManager nd = Some fm"
      using node_okD(6)[OF assms(1)] by (auto simp: manager_ok_def)
    then show ?thesis
      using command fresh faces ProcessCommand_Inl[OF ok assms(2,3), of fm R now f "iName i" h out e]
      by (auto simp: bad_command_def)
  next
    case (forward pit pkt h1)
    obtain s where "Node_ForwardToFaces R pkt (interest_faces L f i nd) (h1, ?nd, out) = Inr s"
      using ForwardToFaces_spec[OF ok, of R pkt "interest_faces L f i nd" h1 out] by blast
    then have "Node_HandleInterest L R now f i (h, nd, out) = Inr s" using forward by simp
    moreover have "\<not> bad_command L now f i nd" using forward(4) faces by (simp add: bad_command_def)
    ultimately show ?thesis by simp
  qed
qed

lemma Dispatch_raises:
  assumes "node_ok nd" and "name_laws L" and "control_laws L"
    and "Face_Dispatch L R now f wire (h, nd, out) = Inl e"
  shows "e \<in> {decoding_error, unknown_packet_type, out_of_range}"
proof -
  have "Node_HandleData L R now f d (h, nd, out) \<noteq> Inl e" for d
    using HandleData_asked[OF assms(1), of L R now f d h out] by auto
  with assms(4) HandleInterest_Inl[OF assms(1-3), of R now f _ h out e] show ?thesis
    by (auto simp: Face_Dispatch_def split: if_splits option.splits)
qed

text \<open>
  C11: On a well-formed node \<open>Dispatch\<close> fails in exactly four cases: a block that is neither
  an Interest nor Data, an Interest or a Data block that does not decode, and an Interest
  for the FIB manager whose name is too short. In every other case it succeeds and the node
  stays well formed.
\<close>

theorem Dispatch_failures:
  assumes "node_ok nd" and "name_laws L" and "control_laws L"
  shows "(Face_Dispatch L R now f wire (h, nd, out) = Inl e) =
    (if blkType L wire = tlvInterest L
     then (case decodeInterest L wire of None \<Rightarrow> e = decoding_error
           | Some i \<Rightarrow> bad_command L now f i nd \<and> e = out_of_range)
     else if blkType L wire = tlvData L then decodeData L wire = None \<and> e = decoding_error
     else e = unknown_packet_type) \<and>
    (\<forall>h' nd' out'. Face_Dispatch L R now f wire (h, nd, out) = Inr (h', nd', out') \<longrightarrow> node_ok nd')"
proof -
  have "\<exists>s. Node_HandleData L R now f d (h, nd, out) = Inr s" for d
    using HandleData_asked[OF assms(1), of L R now f d h out] by blast
  then have hd: "Node_HandleData L R now f d (h, nd, out) \<noteq> Inl e" for d by (metis Inl_Inr_False)
  note hi = HandleInterest_Inl[OF assms, of R now f _ h out e]
  have "Face_Dispatch L R now f wire (h, nd, out) = Inl e \<longleftrightarrow>
    (if blkType L wire = tlvInterest L
     then (case decodeInterest L wire of None \<Rightarrow> e = decoding_error
           | Some i \<Rightarrow> bad_command L now f i nd \<and> e = out_of_range)
     else if blkType L wire = tlvData L then decodeData L wire = None \<and> e = decoding_error
     else e = unknown_packet_type)"
    by (cases "decodeInterest L wire"; cases "decodeData L wire")
      (auto simp: Face_Dispatch_def hi hd)
  then show ?thesis using Dispatch_node_ok[OF assms(1), of L R now f wire h out] by blast
qed

section \<open>Commands of local applications\<close>

text \<open>
  C12: A register command of an application for itself takes effect and is answered: its
  prefix is routed to the application's face, no other route changes, and the response with
  code 200, under the name of the command, is sent back to that face.
\<close>

theorem register_command_answered:
  assumes "node_ok nd" and "name_laws L" and "control_laws L" and "is_app_face nd f" and "f < 2 ^ 31"
    and "ndFibManager nd = Some fm" and "0 \<in> routed L i nd"
    and "CacheManager_FindMatchingData L now i (ndCacheManager nd) = None"
    and "\<forall>g t. (iName i, iNonce i, g, t) \<notin> pending (ndPit nd)" and "0 < iLifetime i"
    and "nmAt L (iName i) (nmSize L (fmCmdPrefix fm)) = Some (cmpOfString L ''register'')"
    and "nmAt L (iName i) (nmSize L (fmCmdPrefix fm) + 1) = Some par"
    and "cpDecode L par = Some p" and "cpFaceId p = None" and "cpName p = Some pfx"
    and "ribValidate L (own_face f p)"
  shows "\<exists>h' nd' io body. Node_HandleInterest L R now f i (h, nd, out) = Inr (h', nd', out @ io) \<and>
    node_ok nd' \<and> routes (ndFib nd') = insert (pfx, f) (routes (ndFib nd)) \<and>
    AppSend f (encodeData L (makeResponse L (iName i)
      \<lparr>crCode = 200, crText = ''Success'', crBody = Some body\<rparr>)) \<in> set io"
proof -
  let ?nd = "nd\<lparr>ndPit := snd (Pit_AddInterest now f i (ndPit nd))\<rparr>"
  have fresh: "fst (Pit_AddInterest now f i (ndPit nd))"
    using AddInterest_node(1)[OF assms(1)] assms(9) by blast
  note add = AddInterest_node(2,3)[OF assms(1), of now f i]
  obtain af where af: "map_of (ndFaceTable nd) f = Some (AppFc af)"
    using assms(4) by (auto simp: is_app_face_def split: option.splits face.splits)
  have f: "0 < f" using tables_ok_face(2)[OF node_okD(1)[OF assms(1)] af] .
  then have "0 \<in> set (interest_faces L f i nd)"
    using interest_faces_spec[OF assms(1,2), of f i] assms(7) by simp
  then have hi: "Node_HandleInterest L R now f i (h, nd, out) =
      Node_ProcessCommand L R now f (iName i) (h, ?nd, out)"
    by (cases rule: HandleInterest_cases[where L = L and R = R and now = now and f = f and i = i
        and h = h and nd = nd and out = out]) (use fresh assms(8) in auto)
  obtain fib body where
    cmd: "FibManager_ProcessCommand L fm f (iName i) (ndFib ?nd) = Inr (fib,
      Some (makeResponse L (iName i) \<lparr>crCode = 200, crText = ''Success'', crBody = Some body\<rparr>))"
    and rts: "routes fib = insert (pfx, to_int32 (uint (word_of_int f :: 64 word))) (routes (ndFib nd))"
    using register_command[OF assms(3) node_okD(4)[OF add(2)] assms(11-13,16,15)] assms(14) by auto
  let ?d = "makeResponse L (iName i) \<lparr>crCode = 200, crText = ''Success'', crBody = Some body\<rparr>"
  let ?nd1 = "?nd\<lparr>ndFib := fib\<rparr>"
  have ok1: "node_ok ?nd1"
    using fib_ok_ProcessCommand[OF node_okD(4)[OF add(2)] cmd] assms(6) by (intro node_ok_fib[OF add(2)]) auto
  obtain h' nd' io where hd: "Node_HandleData L R now (fmId fm) ?d (h, ?nd1, out) = Inr (h', nd', out @ io)"
    "node_ok nd'" "ndFib nd' = ndFib ?nd1"
    "filter is_app_send io = sends ?nd1 (asked L now ?d ?nd1) (encodeData L ?d)"
    using HandleData_asked[OF ok1, of L R now "fmId fm" ?d h out] by (elim exE conjE) (rule that)
  have "(iName i, iNonce i, f, now + iLifetime i) \<in> pending (ndPit ?nd1)"
    using add(1) fresh by simp
  moreover have "nmIsPrefixOf L (iName i) (dName ?d)"
    using assms(3) prefix_refl[OF assms(2)] by (simp add: control_laws_def)
  ultimately have "f \<in> asked L now ?d ?nd1" unfolding asked_def using assms(10) by force
  moreover have "is_app_face ?nd1 f" using assms(4) by (simp add: is_app_face_def)
  moreover have "finite {g \<in> asked L now ?d ?nd1. is_app_face ?nd1 g}" by (rule finite_app_faces)
  ultimately have "AppSend f (encodeData L ?d) \<in> set (filter is_app_send io)"
    unfolding hd(4) sends_def by simp
  then have "AppSend f (encodeData L ?d) \<in> set io" by simp
  moreover have "Node_HandleInterest L R now f i (h, nd, out) = Inr (h', nd', out @ io)"
    unfolding hi using cmd hd(1) assms(6) by (simp add: Node_ProcessCommand_def)
  ultimately show ?thesis
    using hd rts face_id_roundtrip[of f] f assms(5) by auto
qed

section \<open>One packet object for all faces\<close>

text \<open>A send on a link face leaves its address in the packet, and queues the packet if it can.\<close>

lemma Send_link_face:
  assumes "node_ok nd" and "map_of (ndFaceTable nd) f = Some (LinkFc a)" and "pkt < length h"
    and "Node_ForwardToFace R pkt f (h, nd, out) = Inr (h', nd', out')"
  shows "Packet_GetDst h' pkt = lfRemoteMac a" and "pkt < length h'"
    and "map_of (ndDeviceTable nd) d = Some dv \<Longrightarrow>
      \<exists>dv'. map_of (ndDeviceTable nd') d = Some dv' \<and> set (dvTxQueue dv) \<subseteq> set (dvTxQueue dv') \<and>
        (d = lfDevice a \<and> int (Packet_GetLength h pkt) \<le> lnkMtu (dvLink dv) \<and>
         length (dvTxQueue dv) < dvTxLimit dv \<longrightarrow> pkt \<in> set (dvTxQueue dv'))"
proof -
  obtain dva where dva: "map_of (ndDeviceTable nd) (lfDevice a) = Some dva"
    using node_okD(2)[OF assms(1)] assms(2) by (fastforce simp: links_ok_def)
  obtain h1 dv1 io where send: "LinkFace_Send R pkt a h dva = (h1, dv1, io)"
    by (cases "LinkFace_Send R pkt a h dva")
  have res: "h' = h1" "nd' = nd\<lparr>ndDeviceTable := om_put (lfDevice a) dv1 (ndDeviceTable nd)\<rparr>"
    using assms(2,4) dva send by (simp_all add: Node_ForwardToFace_def)
  let ?h = "Packet_SetDst (lfRemoteMac a) pkt h"
  have tx: "LinkDevice_StartTx R pkt ?h dva = (h1, dv1, io)" using send by (simp add: LinkFace_Send_def)
  have "Packet_GetDst h1 pkt = lfRemoteMac a \<and> length h1 = length h \<and>
      set (dvTxQueue dva) \<subseteq> set (dvTxQueue dv1) \<and>
      (int (Packet_GetLength h pkt) \<le> lnkMtu (dvLink dva) \<and> length (dvTxQueue dva) < dvTxLimit dva \<longrightarrow>
       pkt \<in> set (dvTxQueue dv1))"
    using tx assms(3)
    by (cases rule: StartTx_cases[where R = R and pkt = pkt and h = ?h and dv = dva])
      (auto simp: getters_after_setters)
  then show "Packet_GetDst h' pkt = lfRemoteMac a" and "pkt < length h'"
    and "map_of (ndDeviceTable nd) d = Some dv \<Longrightarrow>
      \<exists>dv'. map_of (ndDeviceTable nd') d = Some dv' \<and> set (dvTxQueue dv) \<subseteq> set (dvTxQueue dv') \<and>
        (d = lfDevice a \<and> int (Packet_GetLength h pkt) \<le> lnkMtu (dvLink dv) \<and>
         length (dvTxQueue dv) < dvTxLimit dv \<longrightarrow> pkt \<in> set (dvTxQueue dv'))"
    using res dva assms(3) by (auto simp: kv_simps)
qed

text \<open>
  C39: \<open>ForwardToFaces\<close> sends the same packet object on every face, and a link face writes its
  address into it. Forwarded to two link faces, the packet waits in the queue of the first
  face's device with the second face's address: the neighbour it was meant for drops it.
\<close>

theorem forwarding_overwrites_address:
  assumes "node_ok nd" and "pkt < length h"
    and "map_of (ndFaceTable nd) f = Some (LinkFc a)" and "map_of (ndFaceTable nd) g = Some (LinkFc b)"
    and "lfRemoteMac b \<noteq> lfRemoteMac a" and "lfRemoteMac b \<noteq> BROADCAST_MAC"
    and "map_of (ndDeviceTable nd) (lfDevice a) = Some dv"
    and "int (Packet_GetLength h pkt) \<le> lnkMtu (dvLink dv)" and "length (dvTxQueue dv) < dvTxLimit dv"
  shows "\<exists>h' nd' out' dv'. Node_ForwardToFaces R pkt [f, g] (h, nd, out) = Inr (h', nd', out') \<and>
    map_of (ndDeviceTable nd') (lfDevice a) = Some dv' \<and> pkt \<in> set (dvTxQueue dv') \<and>
    Packet_GetDst h' pkt = lfRemoteMac b \<and>
    (\<forall>rcv add. dvMac rcv = lfRemoteMac a \<and> dvState rcv = RX \<and> dvPendingRx rcv = Some pkt \<longrightarrow>
       LinkDevice_PostRx add False h' rcv nd' = Inr (rcv\<lparr>dvState := IDLE\<rparr>, nd', []))"
proof -
  obtain h1 nd1 io1 where one: "Node_ForwardToFace R pkt f (h, nd, out) = Inr (h1, nd1, out @ io1)"
    "forwarded nd h nd1 h1" using ForwardToFace_spec[OF assms(1)] by metis
  note stays = forwarded_face_table[OF one(2)]
  note s1 = Send_link_face[OF assms(1,3,2) one(1)]
  obtain dv1 where dv1: "map_of (ndDeviceTable nd1) (lfDevice a) = Some dv1" "pkt \<in> set (dvTxQueue dv1)"
    using s1(3)[OF assms(7)] assms(8,9) by auto
  obtain h2 nd2 io2 where two: "Node_ForwardToFace R pkt g (h1, nd1, out @ io1) = Inr (h2, nd2, (out @ io1) @ io2)"
    using ForwardToFace_spec[OF stays(8)] by metis
  have g: "map_of (ndFaceTable nd1) g = Some (LinkFc b)" using assms(4) stays(1) by simp
  note s2 = Send_link_face[OF stays(8) g s1(2) two]
  obtain dv2 where dv2: "map_of (ndDeviceTable nd2) (lfDevice a) = Some dv2" "pkt \<in> set (dvTxQueue dv2)"
    using s2(3)[OF dv1(1)] dv1(2) by auto
  have "LinkDevice_PostRx add False h2 rcv nd2 = Inr (rcv\<lparr>dvState := IDLE\<rparr>, nd2, [])"
    if "dvMac rcv = lfRemoteMac a" "dvState rcv = RX" "dvPendingRx rcv = Some pkt" for rcv add
    using that s2(1) assms(5,6) by (simp add: LinkDevice_PostRx_def receive_frame_def)
  moreover have "Node_ForwardToFaces R pkt [f, g] (h, nd, out) = Inr (h2, nd2, (out @ io1) @ io2)"
    using one(1) two by (simp add: Node_ForwardToFaces_def)
  ultimately show ?thesis using dv2 s2(1) by blast
qed

section \<open>Routes to neighbours\<close>

text \<open>
  C40: The face that \<open>AddRoute\<close> creates for a new neighbour is not the face that the
  neighbour's packets arrive on: the device does not know it and, at the end of the first
  reception from the neighbour, creates another one. So an Interest from that neighbour is
  forwarded back to it, although the node never forwards an Interest to its incoming face.
\<close>

theorem AddRoute_bounces_interests:
  assumes "node_ok nd" and "name_laws L" and "map_of (ndDeviceTable nd) d = Some dv"
    and "map_of (dvFaces dv) m = None" and "dvState dv = IDLE"
    and "Packet_GetSrc h pkt = m" and "Packet_GetDst h pkt = dvMac dv"
    and "Node_AddRoute L p d m nd = Inr nd1" and "ndFaceCounter nd1 < 2 ^ 31 - 1"
  shows "\<exists>a f g nd2 t nd3. map_of (ndFaceTable nd1) f = Some (LinkFc a) \<and> lfRemoteMac a = m \<and> lfDevice a = d \<and>
    (nmOfUri L p, f) \<in> routes (ndFib nd1) \<and> Node_StartRx h pkt d nd1 = Inr (nd2, [DevIO d (ArmRx t)]) \<and>
    Node_PostRx h False d nd2 = Inr (nd3, [DevIO d (PostDispatch g (Packet_GetBlock h pkt))]) \<and>
    node_ok nd3 \<and> g \<noteq> f \<and>
    (\<forall>i. nmIsPrefixOf L (nmOfUri L p) (iName i) \<longrightarrow> f \<in> set (interest_faces L g i nd3))"
  using assms(8)
proof (cases rule: AddRoute_cases)
  case (existing dv' f)
  with assms(3,4) show ?thesis by simp
next
  case (new dv' a nd0)
  then have dv: "dv' = dv" using assms(3) by simp
  note a = AddLinkFace_fields[OF new(3)]
  have ok1: "node_ok nd1" by (rule node_ok_AddRoute[OF assms(1,8)])
  have dv1: "map_of (ndDeviceTable nd1) d = Some dv" using assms(3) by (simp add: new(4) a(2))
  let ?dv = "dv\<lparr>dvState := RX, dvPendingRx := Some pkt\<rparr>"
  let ?nd2 = "nd1\<lparr>ndDeviceTable := om_put d ?dv (ndDeviceTable nd1)\<rparr>"
  obtain t where "LinkDevice_StartRx h pkt dv = Inr (?dv, [ArmRx t])"
    using StartRx_cases[OF tables_ok_device(3)[OF node_okD(1)[OF assms(1)] assms(3)], of h pkt] assms(5) by auto
  then have start: "Node_StartRx h pkt d nd1 = Inr (?nd2, [DevIO d (ArmRx t)])"
    using dv1 by (simp add: Node_StartRx_def Node_on_device_def Node_GetDevice_def)
  have ok2: "node_ok ?nd2" by (rule node_ok_StartRx[OF ok1 start])
  obtain b nd3 where add: "Node_AddLinkFace m d ?nd2 = Inr (b, nd3)"
    using AddLinkFace_total(1)[of ?nd2 m d] assms(9) by auto
  note b = AddLinkFace_fields[OF add]
  let ?nd3 = "nd3\<lparr>ndDeviceTable := om_put d (?dv\<lparr>dvFaces := om_put m b (dvFaces dv), dvState := IDLE\<rparr>)
      (ndDeviceTable nd3)\<rparr>"
  have id: "dvId dv = d" using tables_ok_device(1)[OF node_okD(1)[OF assms(1)] assms(3)] .
  have rx: "Node_PostRx h False d ?nd2 =
      Inr (?nd3, [DevIO d (PostDispatch (lfId b) (Packet_GetBlock h pkt))])"
    using add assms(4-7) id
    by (simp add: Node_PostRx_def Node_on_device_def Node_GetDevice_def LinkDevice_PostRx_def
        receive_frame_def kv_simps)
  have fib: "fib_ok (ndFib nd0)" using node_okD(4)[OF assms(1)] by (simp add: a(2))
  have route: "(nmOfUri L p, lfId a) \<in> routes (ndFib nd1)"
    using routes_AddRoute[OF fib] by (simp add: new(4))
  have ok3: "node_ok ?nd3" by (rule node_ok_PostRx[OF ok2 rx])
  have ne: "lfId b \<noteq> lfId a" using a b(1) by (simp add: new(4))
  have "lfId a \<in> set (interest_faces L (lfId b) i ?nd3)" if "nmIsPrefixOf L (nmOfUri L p) (iName i)" for i
    using interest_faces_spec[OF ok3 assms(2), of "lfId b" i] route that ne
    by (auto simp: routed_def b(2))
  moreover have "map_of (ndFaceTable nd1) (lfId a) = Some (LinkFc a)" by (simp add: new(4) a kv_simps)
  moreover have "lfRemoteMac a = m" "lfDevice a = d" by (simp_all add: a(1))
  ultimately show ?thesis using start rx ok3 ne route by blast
qed

section \<open>Instances\<close>

text \<open>A node with two applications, on faces 1 and 2, and the route of face 2.\<close>

definition sample_node :: "string list node" where
  "sample_node =
     (let nd = fst (projr (Node_Start (list_ndn [] [] []) (Node_new ''a'' ''/tmp/a'' 100000)));
          nd = fst (projr (Node_HandleAccept 1 False nd));
          nd = fst (projr (Node_HandleAccept 2 False nd))
      in nd\<lparr>ndFib := Fib_AddRoute [''x''] 2 (ndFib nd)\<rparr>)"

definition asking_node :: "string list node" where
  "asking_node = sample_node\<lparr>ndPit := snd (Pit_AddInterest 0 1 (ask [''x''] 7 10) (ndPit sample_node))\<rparr>"

lemmas sample_defs = sample_node_def Node_Start_def Node_HandleAccept_def Node_new_def FibManager_new_def
  AppFace_new_def Fib_AddRoute_def CacheManager_new_def Pit_new_def int_succ_def

lemma sample_fields:
  "ndFaceTable sample_node = [(1, AppFc \<lparr>afId = 1, afInput = []\<rparr>), (2, AppFc \<lparr>afId = 2, afInput = []\<rparr>)]"
  "ndFib sample_node = [([''localhost'', ''nfd'', ''rib''], [0]), ([''x''], [2])]"
  "ndFibManager sample_node = Some sample_manager"
  "ndPit sample_node = Pit_new 10000000000"
  "ndCacheManager sample_node = CacheManager_new 100000"
  "ndFaceCounter sample_node = 4"
  "ndDeviceTable sample_node = []"
  by (simp_all add: sample_defs sample_manager_def Let_def)

lemma sample_node_ok: "node_ok sample_node"
proof -
  let ?L = "list_ndn [] [] [] :: (string list, string) ndn"
  let ?n0 = "Node_new ''a'' ''/tmp/a'' 100000 :: string list node"
  obtain n1 o1 where s: "Node_Start ?L ?n0 = Inr (n1, o1)"
    using Start_total[of ?L ?n0] by (auto simp: Node_new_def)
  obtain n2 o2 where a1: "Node_HandleAccept 1 False n1 = Inr (n2, o2)"
    using Start_fields(1)[OF s] by (simp add: Node_HandleAccept_def Node_new_def int_succ_def)
  obtain n3 o3 where a2: "Node_HandleAccept 2 False n2 = Inr (n3, o3)"
    using Start_fields(1)[OF s] HandleAccept_fields(1)[OF a1] by (simp add: Node_HandleAccept_def Node_new_def int_succ_def)
  have "node_ok ?n0" by (rule node_ok_new) simp_all
  then have "node_ok n1" using node_ok_Start[OF _ s] by simp
  then have "node_ok n2"
    by (rule node_ok_HandleAccept[OF _ _ _ _ a1]) (simp_all add: Start_fields(1)[OF s] Node_new_def)
  then have "node_ok n3"
    by (rule node_ok_HandleAccept[OF _ _ _ _ a2])
      (simp_all add: HandleAccept_fields(1)[OF a1] Start_fields(1)[OF s] Node_new_def)
  then show ?thesis unfolding sample_node_def Let_def s a1 a2 by (simp add: node_ok_add_route s a1 a2)
qed

lemma asking_node_ok: "node_ok asking_node"
  unfolding asking_node_def by (rule AddInterest_node(3)[OF sample_node_ok])

lemma sample_faces:
  "is_app_face sample_node g \<longleftrightarrow> g = 1 \<or> g = 2"
  "is_app_face asking_node g \<longleftrightarrow> g = 1 \<or> g = 2"
  by (simp_all add: is_app_face_def asking_node_def sample_fields)

lemma sample_routed: "iName i = [''x''] \<Longrightarrow> routed (list_ndn is ds cs) i sample_node = {2}"
  by (auto simp: routed_def mem_routes sample_fields intro!: exI[of _ "[''x'']"])

lemma sample_pending: "pending (ndPit sample_node) = {}"
  by (auto simp: mem_pending pending_def sample_fields Pit_new_def)

lemma asking_pending: "pending (ndPit asking_node) = {([''x''], 7, 1, 10)}"
  using AddInterest_node(1,2)[OF sample_node_ok, of 0 1 "ask [''x''] 7 10"] sample_pending
  by (simp add: asking_node_def ask_def)

lemma sample_miss:
  "CacheManager_FindMatchingData L now i (ndCacheManager sample_node) = None"
  "CacheManager_FindMatchingData L now i (ndCacheManager asking_node) = None"
  by (simp_all add: asking_node_def sample_fields CacheManager_FindMatchingData_def CacheManager_new_def)

definition xy_data :: "string list data" where
  "xy_data = \<lparr>dName = [''x'', ''y''], dFreshness = 100, dContent = [5], dWire = []\<rparr>"

lemma asking_asked: "asked (list_ndn is ds cs) 4 xy_data asking_node = {1}"
  by (auto simp: asked_def asking_pending xy_data_def)

theorem HandleData_delivers_witness:
  "\<exists>h' nd' io. Node_HandleData (list_ndn [] [] []) counting_rng 4 2 xy_data ([], asking_node, []) =
     Inr (h', nd', io) \<and> filter is_app_send io = [AppSend 1 [6, 0]]"
proof -
  have set: "{g. g = (1 :: int) \<and> (g = 1 \<or> g = 2)} = {1}" by auto
  show ?thesis
    using HandleData_delivers[OF asking_node_ok, of "list_ndn [] [] []" counting_rng 4 2 xy_data "[]" "[]"]
    by (auto simp: asking_asked sends_def sample_faces set) (auto simp: list_ndn_def)
qed

theorem HandleInterest_cache_hit_witness:
  "\<exists>h' io. Node_HandleInterest (list_ndn [] [] []) counting_rng 0 1 (ask [''x''] 7 10) ([],
       sample_node\<lparr>ndCacheManager := (CacheManager_new 100000)\<lparr>cmQueue := [CacheEntry_new (list_ndn [] [] []) xy_data 9],
         cmCount := 2\<rparr>\<rparr>, []) =
     Inr (h', sample_node\<lparr>ndCacheManager := (CacheManager_new 100000)\<lparr>cmQueue := [CacheEntry_new (list_ndn [] [] []) xy_data 9],
         cmCount := 2\<rparr>\<rparr>, io) \<and> io = [AppSend 1 [6, 0]]"
proof -
  let ?L = "list_ndn [] [] [] :: (string list, string) ndn"
  let ?c = "(CacheManager_new 100000)\<lparr>cmQueue := [CacheEntry_new ?L xy_data 9], cmCount := 2\<rparr>"
  let ?nd = "sample_node\<lparr>ndCacheManager := ?c\<rparr>"
  have size: "data_size ?L xy_data = 2" by (simp add: data_size_def list_ndn_def)
  have "cache_ok ?c"
    by (simp add: cache_ok_def CacheManager_new_def CacheEntry_new_def size)
  then have ok: "node_ok ?nd" by (rule node_ok_cache[OF sample_node_ok])
  have hit: "CacheManager_FindMatchingData ?L 0 (ask [''x''] 7 10) (ndCacheManager ?nd) = Some xy_data"
    by (simp add: CacheManager_FindMatchingData_def CacheManager_new_def CacheEntry_new_def entry_matches_def
        ask_def xy_data_def)
  have "is_app_face ?nd 1" using sample_faces(1)[of 1] by (simp add: is_app_face_def)
  with HandleInterest_cache_hit[OF ok hit, of counting_rng 1 "[]" "[]"] show ?thesis
    by (auto simp: list_ndn_def)
qed

theorem HandleInterest_drops_loops_witness:
  "\<exists>nd'. Node_HandleInterest (list_ndn [] [] []) counting_rng 3 2 (ask [''x''] 7 10) ([], asking_node, []) =
     Inr ([], nd', [])"
  using HandleInterest_drops_loops[OF asking_node_ok sample_miss(2), of "ask [''x''] 7 10" 1 10
      "list_ndn [] [] []" counting_rng 3 2 "[]" "[]"]
  by (auto simp: asking_pending ask_def)

theorem HandleInterest_forwards_witness:
  "\<exists>h' nd' io. Node_HandleInterest (list_ndn [] [] []) counting_rng 0 1 (ask [''x''] 7 10) ([], sample_node, []) =
     Inr (h', nd', io) \<and> filter is_app_send io = [AppSend 2 [5, 0]]"
proof -
  have set: "{g. g = (2 :: int) \<and> (g = 1 \<or> g = 2)} = {2}" by auto
  show ?thesis
    using HandleInterest_forwards[OF sample_node_ok list_ndn_name_laws sample_miss(1), of "ask [''x''] 7 10"
        "[]" "[]" "[]" 1 counting_rng 0 "[]" "[]"]
    by (auto simp: sample_pending sample_routed ask_def sends_def sample_faces set) (auto simp: list_ndn_def)
qed

theorem request_gets_reply_witness:
  "\<exists>h1 nd1 io1 h2 nd2 io2.
    Node_HandleInterest (list_ndn [] [] []) counting_rng 0 1 (ask [''x''] 7 10) ([], sample_node, []) =
      Inr (h1, nd1, io1) \<and>
    Node_HandleData (list_ndn [] [] []) counting_rng 5 2 xy_data (h1, nd1, io1) = Inr (h2, nd2, io1 @ io2) \<and>
    count_list io2 (AppSend 1 (encodeData (list_ndn [] [] []) xy_data)) = 1"
  using request_gets_reply[OF sample_node_ok list_ndn_name_laws _ sample_miss(1), of 1 "ask [''x''] 7 10"
      "[]" "[]" "[]" xy_data 5 0 counting_rng "[]" "[]" 2]
  by (auto simp: sample_pending sample_routed ask_def sample_faces xy_data_def)

theorem removed_face_is_silent_witness:
  "\<exists>nd1. Node_RemoveFace 2 sample_node = Inr nd1 \<and> 2 \<notin> routed (list_ndn [] [] []) (ask [''x''] 7 10) nd1"
proof -
  let ?L = "list_ndn [] [(xy_data, [6, 0])] [] :: (string list, string) ndn"
  obtain nd1 where rem: "Node_RemoveFace 2 sample_node = Inr nd1"
    by (simp add: Node_RemoveFace_def sample_fields)
  have app: "is_app_face sample_node 2" by (simp add: sample_faces)
  have ok: "node_ok nd1" using node_ok_RemoveFace[OF sample_node_ok app rem] by simp
  obtain h2 nd2 out2 where "Node_HandleData ?L counting_rng 0 1 xy_data ([], nd1, []) = Inr (h2, nd2, out2)"
    using HandleData_asked[OF ok] by blast
  then have "Face_Dispatch ?L counting_rng 0 1 [6, 0] ([], nd1, []) = Inr (h2, nd2, out2)"
    by (simp add: Face_Dispatch_def list_ndn_def)
  from removed_face_is_silent[OF sample_node_ok app rem this, of "ask [''x''] 7 10"] rem show ?thesis
    by (auto simp: routed_def)
qed

theorem Dispatch_failures_witness:
  "Face_Dispatch (list_ndn [] [] []) counting_rng 0 1 [9, 0] ([], sample_node, []) = Inl unknown_packet_type"
  using Dispatch_failures[OF sample_node_ok list_ndn_name_laws list_ndn_control_laws, of "[]" "[]" "[]"
      counting_rng 0 1 "[9, 0]" "[]" "[]" unknown_packet_type]
  by (simp add: list_ndn_def)

theorem register_command_answered_witness:
  "\<exists>h' nd' io. Node_HandleInterest (register_lib None) counting_rng 0 1 (ask register_name 7 10)
      ([], sample_node, []) = Inr (h', nd', io) \<and> ([''app''], 1) \<in> routes (ndFib nd') \<and>
    AppSend 1 [6, 0] \<in> set io"
proof -
  have laws: "name_laws (register_lib None)" "control_laws (register_lib None)"
    by (simp_all add: register_lib_def list_ndn_name_laws list_ndn_control_laws)
  have "0 \<in> routed (register_lib None) (ask register_name 7 10) sample_node"
    by (auto simp: routed_def mem_routes sample_fields register_lib_def register_name_def ask_def
        intro!: exI[of _ "[''localhost'', ''nfd'', ''rib'']"])
  from register_command_answered[OF sample_node_ok laws, of 1 sample_manager "ask register_name 7 10"
      0 "''p''" "\<lparr>cpName = Some [''app''], cpFaceId = None\<rparr>" "[''app'']" counting_rng "[]" "[]", OF _ _ _ this]
  show ?thesis
    by (auto simp: sample_faces sample_pending sample_miss sample_fields(3) sample_manager_def ask_def
        register_name_def register_lib_def own_face_def) (auto simp: list_ndn_def own_face_def)
qed

text \<open>A node with one device, and the same node with routes to two neighbours on its link.\<close>

definition router_node :: "string list node" where
  "router_node = projr (Node_AddDevice counting_rng 3 ''d0'' 1 (Link_const sample_link)
     (Node_new ''a'' ''/tmp/a'' 100000))"

definition routing_node :: "string list node" where
  "routing_node = projr (and_then (Node_AddRoute (list_ndn [] [] []) ''/x'' ''d0'' 2 router_node)
     (Node_AddRoute (list_ndn [] [] []) ''/x'' ''d0'' 3))"

lemmas router_defs = router_node_def routing_node_def Node_AddDevice_def Node_new_def Node_AddLinkFace_def
  LinkDevice_AddBroadcastFace_def LinkDevice_new_def Node_AddRoute_def LinkDevice_GetLinkFace_def
  BROADCAST_MAC_def Link_const_def sample_link_def Link_AddNodeDevice_def Link_new_def
  link_const.truncate_def Let_def int_succ_def

lemma router_node_eq:
  "Node_AddDevice counting_rng 3 ''d0'' 1 (Link_const sample_link) (Node_new ''a'' ''/tmp/a'' 100000) =
     Inr router_node"
  by (simp add: router_defs)

lemma router_node_ok: "node_ok router_node"
proof -
  have "lnkTxRate (Link_const sample_link) \<noteq> 0"
    by (simp add: Link_const_def sample_link_def Link_AddNodeDevice_def Link_new_def link_const.truncate_def)
  moreover have "node_ok (Node_new ''a'' ''/tmp/a'' 100000 :: string list node)"
    by (rule node_ok_new) simp_all
  ultimately show ?thesis using node_ok_AddDevice[OF _ _ router_node_eq] by simp
qed

lemma routing_node_eq:
  "and_then (Node_AddRoute (list_ndn [] [] []) ''/x'' ''d0'' 2 router_node)
     (Node_AddRoute (list_ndn [] [] []) ''/x'' ''d0'' 3) = Inr routing_node"
  by (simp add: router_defs)

lemma routing_node_ok: "node_ok routing_node"
  using routing_node_eq router_node_ok by (auto simp: and_then_Inr_iff intro: node_ok_AddRoute)

theorem forwarding_overwrites_address_witness:
  "\<exists>h' nd' out' dv'. Node_ForwardToFaces counting_rng 0 [2, 3] ([Packet_new [5, 0]], routing_node, []) =
     Inr (h', nd', out') \<and>
    map_of (ndDeviceTable nd') ''d0'' = Some dv' \<and> 0 \<in> set (dvTxQueue dv') \<and> Packet_GetDst h' 0 = 3"
proof -
  let ?a = "\<lparr>lfId = 2, lfRemoteMac = 2, lfDevice = ''d0''\<rparr>"
  let ?b = "\<lparr>lfId = 3, lfRemoteMac = 3, lfDevice = ''d0''\<rparr>"
  obtain dv where dv: "map_of (ndDeviceTable routing_node) ''d0'' = Some dv"
    "int (Packet_GetLength [Packet_new [5, 0]] 0) \<le> lnkMtu (dvLink dv)" "length (dvTxQueue dv) < dvTxLimit dv"
    by (simp add: router_defs Packet_GetLength_def Packet_GetBlock_def Packet_new_def)
  have faces: "map_of (ndFaceTable routing_node) 2 = Some (LinkFc ?a)"
    "map_of (ndFaceTable routing_node) 3 = Some (LinkFc ?b)"
    by (simp_all add: router_defs)
  from forwarding_overwrites_address[OF routing_node_ok _ faces, of 0 "[Packet_new [5, 0]]" dv counting_rng "[]"]
  show ?thesis using dv by (auto simp: BROADCAST_MAC_def)
qed

theorem AddRoute_bounces_interests_witness:
  "\<exists>nd1 nd2 t nd3 g f. Node_AddRoute (list_ndn [] [] []) ''/x'' ''d0'' 2 router_node = Inr nd1 \<and>
    Node_StartRx [\<lparr>pktDst = 1, pktSrc = 2, pktWire = [5, 0]\<rparr>] 0 ''d0'' nd1 = Inr (nd2, [DevIO ''d0'' (ArmRx t)]) \<and>
    Node_PostRx [\<lparr>pktDst = 1, pktSrc = 2, pktWire = [5, 0]\<rparr>] False ''d0'' nd2 =
      Inr (nd3, [DevIO ''d0'' (PostDispatch g [5, 0])]) \<and> g \<noteq> f \<and>
    f \<in> set (interest_faces (list_ndn [] [] []) g (ask [''x''] 7 10) nd3)"
proof -
  let ?h = "[\<lparr>pktDst = 1, pktSrc = 2, pktWire = [5, 0]\<rparr>]"
  let ?L = "list_ndn [] [] [] :: (string list, string) ndn"
  obtain dv where dv: "map_of (ndDeviceTable router_node) ''d0'' = Some dv" "map_of (dvFaces dv) 2 = None"
    "dvState dv = IDLE" "dvMac dv = 1" by (simp add: router_defs)
  obtain nd1 where route: "Node_AddRoute ?L ''/x'' ''d0'' 2 router_node = Inr nd1" "ndFaceCounter nd1 = 3"
    by (simp add: router_defs)
  show ?thesis
    using AddRoute_bounces_interests[OF router_node_ok list_ndn_name_laws dv(1-3), of ?h 0 "[]" "[]" "[]" "''/x''" nd1]
      route dv(4)
    by (fastforce simp: Packet_GetSrc_def Packet_GetDst_def Packet_GetBlock_def ask_def)
qed

end
