(* ===== verification/DeviceIO.thy ===== *)
theory DeviceIO
  imports Node
begin

text \<open>
  What the handlers of a node do to its devices and to the packet store. The packet handlers
  (\<open>HandleInterest\<close>, \<open>HandleData\<close>, \<open>Dispatch\<close>) only append to transmit queues, and ask for
  the CSMA timer of a device exactly when they append to its queue (\<open>dev_step\<close>); a device
  handler changes its own device only. \<open>refs_ok\<close>: no device holds a dangling packet.
\<close>

definition armed :: "string \<Rightarrow> node_out list \<Rightarrow> bool" where
  "armed d io \<longleftrightarrow> (\<exists>NB BE t. DevIO d (ArmCsma NB BE t) \<in> set io)"

lemma armed_append [simp]: "armed d (xs @ ys) \<longleftrightarrow> armed d xs \<or> armed d ys"
  by (auto simp: armed_def)

lemma armed_Nil [simp]: "\<not> armed d []"
  by (simp add: armed_def)

lemma armed_DevIO: "armed d (map (DevIO e) io) \<longleftrightarrow> d = e \<and> (\<exists>NB BE t. ArmCsma NB BE t \<in> set io)"
  by (auto simp: armed_def)

text \<open>The requests a packet handler can make.\<close>

fun packet_request :: "node_out \<Rightarrow> bool" where
  "packet_request (AppSend f bs) = True"
| "packet_request (DevIO d (ArmCsma NB BE t)) = True"
| "packet_request out = False"

definition queued :: "nat \<Rightarrow> bool \<Rightarrow> device \<Rightarrow> device \<Rightarrow> bool" where
  "queued n arm dv dv' \<longleftrightarrow> same_device dv dv' \<and> dvState dv' = dvState dv \<and> dvPendingRx dv' = dvPendingRx dv \<and>
     dvFaces dv' = dvFaces dv \<and>
     (\<exists>ps. dvTxQueue dv' = dvTxQueue dv @ ps \<and> (\<forall>p \<in> set ps. p < n) \<and> (ps \<noteq> [] \<longleftrightarrow> arm))"

lemma queued_refl: "queued n False dv dv"
  by (simp add: queued_def)

lemma queued_trans:
  assumes "queued n b dv dv1" and "queued m c dv1 dv2" and "n \<le> m"
  shows "queued m (b \<or> c) dv dv2"
proof -
  obtain ps qs where "dvTxQueue dv1 = dvTxQueue dv @ ps" "\<forall>p \<in> set ps. p < n" "ps \<noteq> [] \<longleftrightarrow> b"
    "dvTxQueue dv2 = dvTxQueue dv1 @ qs" "\<forall>p \<in> set qs. p < m" "qs \<noteq> [] \<longleftrightarrow> c"
    using assms(1,2) unfolding queued_def by blast
  then have "dvTxQueue dv2 = dvTxQueue dv @ (ps @ qs) \<and> (\<forall>p \<in> set (ps @ qs). p < m) \<and>
      (ps @ qs \<noteq> [] \<longleftrightarrow> b \<or> c)" using assms(3) by auto
  with assms show ?thesis unfolding queued_def by (metis same_device_trans)
qed

definition dev_step :: "'n node \<Rightarrow> heap \<Rightarrow> 'n node \<Rightarrow> heap \<Rightarrow> node_out list \<Rightarrow> bool" where
  "dev_step nd h nd' h' io \<longleftrightarrow> length h \<le> length h' \<and> (\<forall>r \<in> set io. packet_request r) \<and>
     (\<forall>d. armed d io \<longrightarrow> map_of (ndDeviceTable nd) d \<noteq> None) \<and>
     (\<forall>d. rel_option (queued (length h') (armed d io)) (map_of (ndDeviceTable nd) d)
        (map_of (ndDeviceTable nd') d))"

lemma dev_step_table:
  assumes "ndDeviceTable nd' = ndDeviceTable nd" and "length h \<le> length h'"
    and "\<forall>r \<in> set io. packet_request r" and "\<forall>d. \<not> armed d io"
  shows "dev_step nd h nd' h' io"
  using assms by (auto simp: dev_step_def queued_refl option.rel_refl)

lemma dev_step_tables [simp]:
  "dev_step (nd\<lparr>ndPit := p\<rparr>) h nd' h' io = dev_step nd h nd' h' io"
  "dev_step (nd\<lparr>ndFib := fb\<rparr>) h nd' h' io = dev_step nd h nd' h' io"
  "dev_step (nd\<lparr>ndCacheManager := c\<rparr>) h nd' h' io = dev_step nd h nd' h' io"
  "dev_step nd h (nd'\<lparr>ndPit := p\<rparr>) h' io = dev_step nd h nd' h' io"
  "dev_step nd h (nd'\<lparr>ndFib := fb\<rparr>) h' io = dev_step nd h nd' h' io"
  by (simp_all add: dev_step_def)

lemma dev_step_refl [simp]: "dev_step nd h nd h []"
  by (rule dev_step_table) simp_all

lemma dev_step_heap: "dev_step nd h1 nd' h' io \<Longrightarrow> length h \<le> length h1 \<Longrightarrow> dev_step nd h nd' h' io"
  by (simp add: dev_step_def)

lemma dev_step_trans:
  assumes "dev_step nd h nd1 h1 io" and "dev_step nd1 h1 nd2 h2 jo"
  shows "dev_step nd h nd2 h2 (io @ jo)"
proof -
  have dom: "map_of (ndDeviceTable nd) d = None \<longleftrightarrow> map_of (ndDeviceTable nd1) d = None" for d
    using assms(1) unfolding dev_step_def by (metis option.rel_distinct(1,2) not_None_eq)
  have "rel_option (queued (length h2) (armed d (io @ jo))) (map_of (ndDeviceTable nd) d)
      (map_of (ndDeviceTable nd2) d)" for d
  proof -
    have "rel_option (queued (length h1) (armed d io)) (map_of (ndDeviceTable nd) d) (map_of (ndDeviceTable nd1) d)"
      and "rel_option (queued (length h2) (armed d jo)) (map_of (ndDeviceTable nd1) d) (map_of (ndDeviceTable nd2) d)"
      and "length h1 \<le> length h2"
      using assms by (simp_all add: dev_step_def)
    then show ?thesis
      by (cases "map_of (ndDeviceTable nd) d"; cases "map_of (ndDeviceTable nd1) d";
          cases "map_of (ndDeviceTable nd2) d") (auto intro: queued_trans)
  qed
  then show ?thesis using assms dom unfolding dev_step_def by (auto dest: le_trans)
qed

lemma StartTx_queued:
  assumes "LinkDevice_StartTx R pkt h dv = (h', dv', io)" and "pkt < length h"
  shows "queued (length h') (io \<noteq> []) dv dv' \<and> length h' = length h \<and> (io = [] \<or> (\<exists>t. io = [ArmCsma 0 MIN_BE t]))"
  using assms
  by (cases rule: StartTx_cases[where h = h and pkt = pkt and dv = dv and R = R])
    (auto simp: queued_def same_device_def)

lemma new_packet_ref:
  "DataPacket_new L d h = (pkt, h') \<Longrightarrow> pkt < length h' \<and> length h \<le> length h'"
  "InterestPacket_new L i h = (pkt, h') \<Longrightarrow> pkt < length h' \<and> length h \<le> length h'"
  by (auto simp: packet_defs)

lemma Face_Send_dev:
  assumes "Face_Send R pkt face (h, nd, out) = Inr (h', nd', out')" and "pkt < length h"
  shows "\<exists>io. out' = out @ io \<and> dev_step nd h nd' h' io"
proof (cases face)
  case (AppFc af)
  with assms(1) show ?thesis by (auto intro!: dev_step_table simp: armed_def)
next
  case (LinkFc lf)
  from assms(1) obtain dv dv' io where dv: "map_of (ndDeviceTable nd) (lfDevice lf) = Some dv"
    and send: "LinkFace_Send R pkt lf h dv = (h', dv', io)"
    and res: "nd' = nd\<lparr>ndDeviceTable := om_put (lfDevice lf) dv' (ndDeviceTable nd)\<rparr>"
      "out' = out @ map (DevIO (lfDevice lf)) io"
    by (auto simp: LinkFc split: option.splits prod.splits)
  have q: "queued (length h') (io \<noteq> []) dv dv'" "length h' = length h"
    "io = [] \<or> (\<exists>t. io = [ArmCsma 0 MIN_BE t])"
    using StartTx_queued[of R pkt "Packet_SetDst (lfRemoteMac lf) pkt h" dv h' dv' io] send assms(2)
    by (auto simp: LinkFace_Send_def)
  have armed: "armed d (map (DevIO (lfDevice lf)) io) \<longleftrightarrow> d = lfDevice lf \<and> io \<noteq> []" for d
    using q(3) by (auto simp: armed_DevIO)
  have "rel_option (queued (length h') (armed d (map (DevIO (lfDevice lf)) io)))
      (map_of (ndDeviceTable nd) d) (map_of (ndDeviceTable nd') d)" for d
    using q(1) dv by (auto simp: res(1) kv_simps armed queued_refl option.rel_refl)
  then have "dev_step nd h nd' h' (map (DevIO (lfDevice lf)) io)"
    unfolding dev_step_def using q(2,3) dv armed by auto
  with res(2) show ?thesis by blast
qed

lemma ForwardToFace_dev:
  assumes "Node_ForwardToFace R pkt f (h, nd, out) = Inr (h', nd', out')" and "pkt < length h"
  shows "\<exists>io. out' = out @ io \<and> dev_step nd h nd' h' io"
  using assms
  by (auto simp: Node_ForwardToFace_def split: option.splits intro: Face_Send_dev dev_step_table)

lemma ForwardToFaces_dev:
  assumes "Node_ForwardToFaces R pkt fs (h, nd, out) = Inr (h', nd', out')" and "pkt < length h"
  shows "\<exists>io. out' = out @ io \<and> dev_step nd h nd' h' io"
proof -
  let ?I = "\<lambda>(h1, nd1, out1). pkt < length h1 \<and> (\<exists>io. out1 = out @ io \<and> dev_step nd h nd1 h1 io)"
  have "?I (h, nd, out)" using assms(2) by (auto intro: dev_step_table)
  with assms(1)[unfolded Node_ForwardToFaces_def] have "?I (h', nd', out')"
  proof (rule each_invariant)
    fix f s t
    assume I: "?I s" and r: "Node_ForwardToFace R pkt f s = Inr t"
    obtain h1 nd1 out1 h2 nd2 out2 where s: "s = (h1, nd1, out1)" "t = (h2, nd2, out2)"
      by (cases s, cases t)
    from I s obtain io where io: "out1 = out @ io" "dev_step nd h nd1 h1 io" "pkt < length h1" by auto
    from ForwardToFace_dev[OF r[unfolded s] io(3)] obtain jo where
      jo: "out2 = out1 @ jo" "dev_step nd1 h1 nd2 h2 jo" by blast
    then have "length h1 \<le> length h2" by (simp add: dev_step_def)
    then show "?I t" using s io jo dev_step_trans[OF io(2) jo(2)] by auto
  qed
  then show ?thesis by simp
qed

lemma HandleData_dev:
  assumes "Node_HandleData L R now f d (h, nd, out) = Inr (h', nd', out')"
  shows "\<exists>io. out' = out @ io \<and> dev_step nd h nd' h' io"
proof -
  obtain fs pit where con: "Pit_ConsumeInterestWithDataName L now (dName d) [] (ndPit nd) = (fs, pit)"
    by fastforce
  show ?thesis
  proof (cases "fs = []")
    case True
    with assms con show ?thesis by (auto simp: Node_HandleData_def)
  next
    case False
    obtain pkt h1 where p: "DataPacket_new L d h = (pkt, h1)" by fastforce
    from assms False con p obtain c where
      fwd: "Node_ForwardToFaces R pkt fs (h1, nd\<lparr>ndPit := pit, ndCacheManager := c\<rparr>, out) = Inr (h', nd', out')"
      by (auto simp: Node_HandleData_def and_then_Inr_iff)
    show ?thesis
      using ForwardToFaces_dev[OF fwd] new_packet_ref(1)[OF p] by (auto intro: dev_step_heap)
  qed
qed

lemma ProcessCommand_dev:
  assumes "Node_ProcessCommand L R now f c (h, nd, out) = Inr (h', nd', out')"
  shows "\<exists>io. out' = out @ io \<and> dev_step nd h nd' h' io"
  using assms
  by (auto simp: Node_ProcessCommand_def and_then_Inr_iff Let_def split: option.splits
      dest!: HandleData_dev)

lemma HandleInterest_dev:
  assumes "Node_HandleInterest L R now f i (h, nd, out) = Inr (h', nd', out')"
  shows "\<exists>io. out' = out @ io \<and> dev_step nd h nd' h' io"
proof (cases rule: HandleInterest_cases[where L = L and R = R and now = now and f = f and i = i
      and h = h and nd = nd and out = out])
  case (hit d pkt h1)
  with assms ForwardToFace_dev[of R pkt f h1 nd out h' nd' out'] new_packet_ref(1)[OF hit(2)]
  show ?thesis by (auto intro: dev_step_heap)
next
  case (silent pit)
  with assms show ?thesis by auto
next
  case (command pit)
  with assms ProcessCommand_dev[of L R now f "iName i" h "nd\<lparr>ndPit := pit\<rparr>" out h' nd' out'] show ?thesis
    by auto
next
  case (forward pit pkt h1)
  with assms ForwardToFaces_dev[of R pkt "interest_faces L f i nd" h1 "nd\<lparr>ndPit := pit\<rparr>" out h' nd' out']
    new_packet_ref(2)[OF forward(6)]
  show ?thesis by (auto intro: dev_step_heap)
qed

lemma Dispatch_dev:
  assumes "Face_Dispatch L R now f wire (h, nd, out) = Inr (h', nd', out')"
  shows "\<exists>io. out' = out @ io \<and> dev_step nd h nd' h' io"
  using assms
  by (auto simp: Face_Dispatch_def split: if_splits option.splits dest: HandleInterest_dev HandleData_dev)

text \<open>The same for a read on an application face, which dispatches any number of packets.\<close>

interpretation dev: packet_dispatcher "Face_Dispatch L R now f" "remove_face f"
  "\<lambda>(h1, nd1, out1). \<exists>io. out1 = out @ io \<and> dev_step nd h nd1 h1 io" "\<lambda>s. True"
  for L R now f and nd :: "'n node" and h out
proof
  fix s s' :: "'n node_state" and wire
  obtain h1 nd1 out1 h2 nd2 out2 where s: "s = (h1, nd1, out1)" "s' = (h2, nd2, out2)"
    by (cases s, cases s')
  assume "case s of (h1, nd1, out1) \<Rightarrow> \<exists>io. out1 = out @ io \<and> dev_step nd h nd1 h1 io"
  then obtain io where io: "out1 = out @ io" "dev_step nd h nd1 h1 io" using s by auto
  show "case s' of (h1, nd1, out1) \<Rightarrow> \<exists>io. out1 = out @ io \<and> dev_step nd h nd1 h1 io"
    if "Face_Dispatch L R now f wire s = Inr s'"
    using Dispatch_dev[OF that[unfolded s]] io dev_step_trans[OF io(2)] by (fastforce simp: s)
  show "case s' of (h1, nd1, out1) \<Rightarrow> \<exists>io. out1 = out @ io \<and> dev_step nd h nd1 h1 io"
    if "remove_face f s = Inr s'"
  proof -
    from that have "ndDeviceTable nd2 = ndDeviceTable nd1" "h2 = h1" "out2 = out1"
      by (auto simp: s remove_face_def and_then_Inr_iff Node_RemoveFace_def split: option.splits)
    with io show ?thesis by (auto simp: s dev_step_def)
  qed
qed simp

lemma HandleReceive_dev:
  assumes "Node_HandleReceive L R now f err rcv (h, nd, out) = Some (Inr (h', nd', out'))"
  shows "\<exists>io tl. out' = out @ io @ tl \<and> (tl = [] \<or> tl = [AppReceive f] \<and> is_app_face nd' f) \<and>
    dev_step nd h nd' h' io"
proof -
  from assms obtain af af' h1 nd1 out1 where
    rcv: "AppFace_HandleReceive L (Face_Dispatch L R now f) (remove_face f) err rcv af (h, nd, out) =
      Some (Inr (af', (h1, nd1, out1)))"
    and res: "(case af' of None \<Rightarrow> Inr (h1, nd1, out1)
      | Some af1 \<Rightarrow> Inr (h1, nd1\<lparr>ndFaceTable := om_put f (AppFc af1) (ndFaceTable nd1)\<rparr>,
          out1 @ [AppReceive f])) = (Inr (h', nd', out') :: 'a node_state result)"
    by (auto simp: Node_HandleReceive_def and_then_Inr_iff split: option.splits face.splits)
  obtain io where "out1 = out @ io" "dev_step nd h nd1 h1 io"
    using dev.HandleReceive_good[OF _ _ rcv, of out nd h] by fastforce
  moreover have "dev_step nd h nd' h' io" and "out' = out1 @ (if af' = None then [] else [AppReceive f])"
    using \<open>dev_step nd h nd1 h1 io\<close> res by (cases af'; auto simp: dev_step_def)+
  moreover have "af' \<noteq> None \<longrightarrow> is_app_face nd' f" using res by (auto simp: is_app_face_def kv_simps)
  ultimately show ?thesis
    by (intro exI[of _ io] exI[of _ "if af' = None then [] else [AppReceive f]"]) simp
qed

section \<open>Handlers of devices\<close>

text \<open>What a device handler may do to its device and to nothing else.\<close>

lemma StartRx_dev:
  assumes "node_ok nd" and "Node_StartRx h pkt d nd = Inr (nd', out)"
  obtains dv dv' where "map_of (ndDeviceTable nd) d = Some dv"
    and "ndDeviceTable nd' = om_put d dv' (ndDeviceTable nd)" and "same_device dv dv'"
    and "dvTxQueue dv' = dvTxQueue dv" and "dvPendingRx dv' = dvPendingRx dv \<or> dvPendingRx dv' = Some pkt"
    and "ndFaceTable nd' = ndFaceTable nd" and "ndFaceCounter nd' = ndFaceCounter nd" and "ndId nd' = ndId nd"
    and "ndFibManager nd' = ndFibManager nd"
    and "out = [] \<or> (\<exists>t. out = [DevIO d (ArmRx t)])"
  using assms(2) unfolding Node_StartRx_def
proof (cases rule: on_device_cases)
  case (1 dv dv' nd1 io)
  then have rx: "LinkDevice_StartRx h pkt dv = Inr (dv', io)" and eq: "nd1 = nd"
    by (auto simp: and_then_Inr_iff)
  have ok: "device_ok dv" by (rule tables_ok_device(3)[OF node_okD(1)[OF assms(1)] 1(1)])
  then have "(dvPendingRx dv' = dvPendingRx dv \<or> dvPendingRx dv' = Some pkt) \<and> (io = [] \<or> (\<exists>t. io = [ArmRx t]))"
    using rx by (cases rule: StartRx_cases[where h = h and pkt = pkt]) auto
  with 1 eq device_ok_StartRx[OF ok rx] show thesis by (intro that[of dv dv']) auto
qed

lemma PostRx_dev:
  assumes "node_ok nd" and "Node_PostRx h err d nd = Inr (nd', out)"
  obtains dv dv' where "map_of (ndDeviceTable nd) d = Some dv"
    and "ndDeviceTable nd' = om_put d dv' (ndDeviceTable nd)" and "same_device dv dv'"
    and "dvTxQueue dv' = dvTxQueue dv" and "dvPendingRx dv' = dvPendingRx dv"
    and "ndFaceCounter nd \<le> ndFaceCounter nd'" and "ndId nd' = ndId nd"
    and "ndFibManager nd' = ndFibManager nd"
    and "\<And>g. g < ndFaceCounter nd \<Longrightarrow> map_of (ndFaceTable nd') g = map_of (ndFaceTable nd) g"
    and "out = [] \<or> (\<exists>f wire. out = [DevIO d (PostDispatch f wire)])"
  using assms(2) unfolding Node_PostRx_def
proof (cases rule: on_device_cases)
  case (1 dv dv' nd1 io)
  note dv = tables_ok_device[OF node_okD(1)[OF assms(1)] 1(1)]
  note rx = node.PostRx_ok[OF node_okD(1)[OF assms(1)] dv(3,4) 1(2)]
  have nd1: "ndDeviceTable nd1 = ndDeviceTable nd \<and> ndFaceCounter nd \<le> ndFaceCounter nd1 \<and> ndId nd1 = ndId nd \<and> ndFibManager nd1 = ndFibManager nd \<and>
      (\<forall>g < ndFaceCounter nd. map_of (ndFaceTable nd1) g = map_of (ndFaceTable nd) g)"
    using node.PostRx_node[OF 1(2)] by (auto simp: Node_AddLinkFace_def Let_def kv_simps and_then_Inr_iff int_succ_Inr_iff)
  have "dvPendingRx dv' = dvPendingRx dv \<and> (io = [] \<or> (\<exists>f wire. io = [PostDispatch f wire]))"
    using 1(2)
    by (auto simp: LinkDevice_PostRx_def receive_frame_def Let_def and_then_Inr_iff
        split: if_splits phy_state.splits option.splits)
  with 1 nd1 rx show thesis by (intro that[of dv dv']) auto
qed

text \<open>
  \<open>DoCsma\<close> keeps the queue, or takes its head; it asks for its timer again unless nothing is
  left to send.
\<close>

lemma DoCsma_dev:
  assumes "node_ok nd" and "Node_DoCsma R h NB BE False d nd = Inr (nd', out)"
  obtains dv dv' where "map_of (ndDeviceTable nd) d = Some dv"
    and "ndDeviceTable nd' = om_put d dv' (ndDeviceTable nd)" and "same_device dv dv'"
    and "dvTxQueue dv \<noteq> []" and "dvPendingRx dv' = dvPendingRx dv"
    and "dvTxQueue dv' = dvTxQueue dv \<or> dvTxQueue dv' = tl (dvTxQueue dv)"
    and "armed d out \<longleftrightarrow> dvTxQueue dv' \<noteq> []"
    and "\<And>r. r \<in> set out \<Longrightarrow> (\<exists>nb be t. r = DevIO d (ArmCsma nb be t)) \<or>
      r = DevIO d (PostTransmit (lnkId (dvLink dv)) (dvNodeId dv) (hd (dvTxQueue dv)))"
    and "ndFaceTable nd' = ndFaceTable nd" and "ndFaceCounter nd' = ndFaceCounter nd" and "ndId nd' = ndId nd"
    and "ndFibManager nd' = ndFibManager nd"
  using assms(2) unfolding Node_DoCsma_def
proof (cases rule: on_device_cases)
  case (1 dv dv' nd1 io)
  then have cs: "LinkDevice_DoCsma R NB BE False h dv = Inr (dv', io)" and eq: "nd1 = nd"
    by (auto simp: and_then_Inr_iff)
  have ok: "device_ok dv" by (rule tables_ok_device(3)[OF node_okD(1)[OF assms(1)] 1(1)])
  have q: "dvTxQueue dv \<noteq> []" using cs by (auto simp: LinkDevice_DoCsma_def)
  have pop: "\<And>st. next_in_queue R (dv\<lparr>dvTxQueue := tl (dvTxQueue dv), dvState := st\<rparr>) = (dv', io) \<Longrightarrow>
      dvTxQueue dv' = tl (dvTxQueue dv) \<and> dvPendingRx dv' = dvPendingRx dv \<and>
      ((\<exists>nb be t. io = [ArmCsma nb be t]) \<and> dvTxQueue dv' \<noteq> [] \<or> io = [] \<and> dvTxQueue dv' = [])"
  proof -
    fix st assume "next_in_queue R (dv\<lparr>dvTxQueue := tl (dvTxQueue dv), dvState := st\<rparr>) = (dv', io)"
    then show "?thesis st"
      by (cases rule: next_in_queue_eq[where R = R and dv = "dv\<lparr>dvTxQueue := tl (dvTxQueue dv), dvState := st\<rparr>"])
        auto
  qed
  have "dvPendingRx dv' = dvPendingRx dv \<and> (dvTxQueue dv' = dvTxQueue dv \<or> dvTxQueue dv' = tl (dvTxQueue dv)) \<and>
      ((\<exists>nb be t. ArmCsma nb be t \<in> set io) \<longleftrightarrow> dvTxQueue dv' \<noteq> []) \<and>
      (\<forall>r \<in> set io. (\<exists>nb be t. r = ArmCsma nb be t) \<or>
         r = PostTransmit (lnkId (dvLink dv)) (dvNodeId dv) (hd (dvTxQueue dv)))"
    using ok q
  proof (cases rule: DoCsma_cases[where R = R and NB = NB and BE = BE and h = h])
    case (transmit t)
    with cs q show ?thesis by auto
  next
    case busy
    show ?thesis
    proof (cases rule: csma_backoff_eq[where NB = NB and R = R and BE = BE and dv = dv])
      case give_up
      then have "next_in_queue R (dv\<lparr>dvTxQueue := tl (dvTxQueue dv), dvState := dvState dv\<rparr>) = (dv', io)"
        using busy cs by simp
      from pop[OF this] show ?thesis by auto
    next
      case (again g b)
      with busy cs q show ?thesis by auto
    qed
  next
    case finished
    then have "next_in_queue R (dv\<lparr>dvTxQueue := tl (dvTxQueue dv), dvState := IDLE\<rparr>) = (dv', io)"
      using cs by simp
    from pop[OF this] show ?thesis by auto
  qed
  with 1 eq q device_ok_DoCsma[OF ok cs] show thesis
    by (intro that[of dv dv']) (auto simp: armed_DevIO)
qed

end
