(* ===== verification/Emulator.thy ===== *)
theory Emulator
  imports Node
begin

text \<open>
  The emulator object and its configuration (\<^verbatim>\<open>core/emulator.h\<close>,
  \<^verbatim>\<open>core/emulator.cc\<close>): \<open>ReadNetworkConfig\<close> builds the links, the nodes with their
  devices, the static routes and the connections from a property tree. The tree is what
  \<open>boost::property_tree::read_xml\<close> returns for the file; the conversions of its strings to
  numbers are parameters. Links and nodes are shared objects of the code: a node's device
  refers to its link by id, a link to a device by node and device id, and \<open>emulator_ok\<close> says
  that these references are never dangling.
\<close>

section \<open>Property trees\<close>

datatype ptree = PTree (ptData: string) (ptChildren: "(string \<times> ptree) list")

record conv =
  toDouble :: "string \<Rightarrow> real option"
  toInt :: "string \<Rightarrow> int option"

definition get_child :: "string \<Rightarrow> ptree \<Rightarrow> ptree result" where
  "get_child key t = (case map_of (ptChildren t) key of None \<Rightarrow> Inl (BadPath key) | Some c \<Rightarrow> Inr c)"

definition get_string :: "string \<Rightarrow> ptree \<Rightarrow> string result" where
  "get_string key t = and_then (get_child key t) (\<lambda>c. Inr (ptData c))"

definition get_value :: "(string \<Rightarrow> 'a option) \<Rightarrow> string \<Rightarrow> ptree \<Rightarrow> 'a result" where
  "get_value cv key t =
     and_then (get_string key t) (\<lambda>s. case cv s of None \<Rightarrow> Inl (BadData key) | Some x \<Rightarrow> Inr x)"

definition get_optional :: "(string \<Rightarrow> 'a option) \<Rightarrow> string \<Rightarrow> ptree \<Rightarrow> 'a option" where
  "get_optional cv key t = (case map_of (ptChildren t) key of None \<Rightarrow> None | Some c \<Rightarrow> cv (ptData c))"

definition assert_key :: "string \<Rightarrow> string \<Rightarrow> unit result" where
  "assert_key key expected = (if key = expected then Inr () else Inl AssertionFailed)"

section \<open>State\<close>

record 'n emulator =
  emNodeTable :: "(string \<times> 'n node) list"
  emLinkTable :: "(string \<times> link) list"

definition Emulator_new :: "'n emulator" where
  "Emulator_new = \<lparr>emNodeTable = [], emLinkTable = []\<rparr>"

definition Emulator_GetNode :: "string \<Rightarrow> 'n emulator \<Rightarrow> 'n node result" where
  "Emulator_GetNode nodeId em =
     (case map_of (emNodeTable em) nodeId of
        None \<Rightarrow> Inl (InvalidArgument ''Node not found'')
      | Some nd \<Rightarrow> Inr nd)"

section \<open>Links\<close>

text \<open>The MTU is an \<open>int\<close> of the file and a \<open>size_t\<close> of the link.\<close>

definition read_link :: "conv \<Rightarrow> string \<times> ptree \<Rightarrow> 'n emulator \<Rightarrow> 'n emulator result" where
  "read_link C v em =
     and_then (assert_key (fst v) ''Link'') (\<lambda>_.
     and_then (get_string ''Id'' (snd v)) (\<lambda>linkId.
       let txRate = (case get_optional (toDouble C) ''TxRate'' (snd v) of None \<Rightarrow> 40 | Some r \<Rightarrow> r);
           mtu = (case get_optional (toInt C) ''Mtu'' (snd v) of None \<Rightarrow> 8800 | Some n \<Rightarrow> n)
       in case map_of (emLinkTable em) linkId of
            None \<Rightarrow> Inr (em\<lparr>emLinkTable :=
              om_put linkId (Link_new linkId txRate (to_size_t mtu)) (emLinkTable em)\<rparr>)
          | Some _ \<Rightarrow>
              Inl (RuntimeError (''[Emulator::ReadNetworkConfig] duplicate link id '' @ linkId))))"

section \<open>Nodes and devices\<close>

text \<open>
  \<open>mac\<close> is \<open>globalMacAssigner\<close>, an \<open>uint64_t\<close> counter, as an integer: the address given out
  is its value modulo 2 ^ 64. \<open>seed\<close> are the draws of the system's random device.
\<close>

definition shift10 :: "int \<Rightarrow> int result" where
  "shift10 x =
     (if 0 \<le> x \<and> x * 2 ^ 10 < 2 ^ 31 then Inr (x * 2 ^ 10)
      else Inl (UndefinedBehaviour ''overflow in left shift''))"

definition cache_limit :: "conv \<Rightarrow> ptree \<Rightarrow> int" where
  "cache_limit C t = (case get_optional (toInt C) ''CacheLimit'' t of None \<Rightarrow> 100 | Some n \<Rightarrow> n)"

lemma shift10_range: "shift10 x = Inr y \<Longrightarrow> 0 \<le> y \<and> y < 2 ^ 31"
  by (auto simp: shift10_def split: if_splits)

definition read_device ::
  "rng \<Rightarrow> (int \<Rightarrow> nat) \<Rightarrow> string \<Rightarrow> string \<times> ptree \<Rightarrow> 'n node \<times> 'n emulator \<times> int \<Rightarrow>
   ('n node \<times> 'n emulator \<times> int) result" where
  "read_device R seed nodeId v s =
     (case s of (pnode, em, mac) \<Rightarrow>
       and_then (assert_key (fst v) ''Device'') (\<lambda>_.
       and_then (get_string ''DeviceId'' (snd v)) (\<lambda>devId.
       and_then (get_string ''LinkId'' (snd v)) (\<lambda>linkId.
         case map_of (emLinkTable em) linkId of
           Some lk \<Rightarrow>
             and_then (Node_AddDevice R (seed mac) devId (word_of_int mac) (Link_const lk) pnode)
               (\<lambda>pnode'. Inr (pnode',
                  em\<lparr>emLinkTable := om_put linkId (Link_AddNodeDevice nodeId devId lk) (emLinkTable em)\<rparr>,
                  mac + 1))
         | None \<Rightarrow> Inl (RuntimeError (''[Emulator::ReadNetworkConfig] unkown link '' @ linkId
                      @ '' on node '' @ nodeId))))))"

definition read_node ::
  "conv \<Rightarrow> rng \<Rightarrow> (int \<Rightarrow> nat) \<Rightarrow> string \<times> ptree \<Rightarrow> 'n emulator \<times> int \<Rightarrow> ('n emulator \<times> int) result" where
  "read_node C R seed v s =
     (case s of (em, mac) \<Rightarrow>
       and_then (assert_key (fst v) ''Node'') (\<lambda>_.
       and_then (get_string ''Id'' (snd v)) (\<lambda>nodeId.
       and_then (get_string ''Path'' (snd v)) (\<lambda>path.
         case map_of (emNodeTable em) nodeId of
           None \<Rightarrow>
             and_then (shift10 (cache_limit C (snd v))) (\<lambda>limit.
             and_then (get_child ''Devices'' (snd v)) (\<lambda>devices.
             and_then (each (read_device R seed nodeId) (ptChildren devices)
                 (Node_new nodeId path limit, em, mac))
               (\<lambda>(pnode, em', mac').
                 Inr (em'\<lparr>emNodeTable := om_put nodeId pnode (emNodeTable em')\<rparr>, mac'))))
         | Some _ \<Rightarrow>
             Inl (RuntimeError (''[Emulator::ReadNetworkConfig] duplicate node id '' @ nodeId))))))"

section \<open>Static routes\<close>

definition device_of :: "string \<Rightarrow> string \<Rightarrow> 'n emulator \<Rightarrow> device option" where
  "device_of n d em =
     (case map_of (emNodeTable em) n of None \<Rightarrow> None | Some nd \<Rightarrow> map_of (ndDeviceTable nd) d)"

text \<open>The address of the device of the node \<open>nexthop\<close> on the link that device \<open>devId\<close> is on.\<close>

definition nexthop_mac :: "'n node \<Rightarrow> string \<Rightarrow> string \<Rightarrow> 'n emulator \<Rightarrow> 64 word result" where
  "nexthop_mac pnode devId nexthop em =
     and_then (Node_GetDevice devId pnode) (\<lambda>dev.
       case map_of (emLinkTable em) (lnkId (LinkDevice_GetLink dev)) of
         None \<Rightarrow> Inl (UndefinedBehaviour ''dangling link'')
       | Some l \<Rightarrow>
           and_then (Link_GetNodeDevice nexthop l) (\<lambda>d.
             case device_of nexthop d em of
               None \<Rightarrow> Inl (UndefinedBehaviour ''dangling device'')
             | Some dv \<Rightarrow> Inr (LinkDevice_GetMacAddr dv)))"

definition read_nexthop :: "'n node \<Rightarrow> string \<Rightarrow> string \<times> ptree \<Rightarrow> 'n emulator \<Rightarrow> 64 word result" where
  "read_nexthop pnode devId v em =
     (case get_optional Some ''Nexthop'' (snd v) of
        Some snexthop \<Rightarrow> nexthop_mac pnode devId snexthop em
      | None \<Rightarrow> Inr BROADCAST_MAC)"

definition read_route ::
  "('n, 'c) ndn \<Rightarrow> string \<Rightarrow> string \<times> ptree \<Rightarrow> 'n emulator \<Rightarrow> 'n emulator result" where
  "read_route L nodeId v em =
     and_then (assert_key (fst v) ''Route'') (\<lambda>_.
     and_then (get_string ''Prefix'' (snd v)) (\<lambda>pfx.
     and_then (get_string ''Interface'' (snd v)) (\<lambda>devId.
       case map_of (emNodeTable em) nodeId of
         None \<Rightarrow> Inl (UndefinedBehaviour ''null node'')
       | Some pnode \<Rightarrow>
           and_then (read_nexthop pnode devId v em) (\<lambda>nexthop.
           and_then (Node_AddRoute L pfx devId nexthop pnode) (\<lambda>pnode'.
             Inr (em\<lparr>emNodeTable := om_put nodeId pnode' (emNodeTable em)\<rparr>))))))"

definition read_routes ::
  "('n, 'c) ndn \<Rightarrow> string \<times> ptree \<Rightarrow> 'n emulator \<Rightarrow> 'n emulator result" where
  "read_routes L v em =
     and_then (assert_key (fst v) ''Node'') (\<lambda>_.
     and_then (get_string ''Id'' (snd v)) (\<lambda>nodeId.
       case map_of (ptChildren (snd v)) ''Routes'' of
         None \<Rightarrow> Inr em
       | Some rts \<Rightarrow> each (read_route L nodeId) (ptChildren rts) em))"

section \<open>Connections\<close>

definition read_connection ::
  "conv \<Rightarrow> rng \<Rightarrow> string \<Rightarrow> string \<times> ptree \<Rightarrow> 'n emulator \<Rightarrow> 'n emulator result" where
  "read_connection C R linkId v em =
     and_then (assert_key (fst v) ''Connection'') (\<lambda>_.
     and_then (get_string ''From'' (snd v)) (\<lambda>frm.
     and_then (get_string ''To'' (snd v)) (\<lambda>to.
     and_then (get_value (toDouble C) ''LossRate'' (snd v)) (\<lambda>rate.
     and_then (LinkAttribute_new R rate) (\<lambda>attr.
       case map_of (emLinkTable em) linkId of
         None \<Rightarrow> Inl (UndefinedBehaviour ''null link'')
       | Some lk \<Rightarrow>
           and_then (Link_AddConnection frm to attr lk) (\<lambda>lk'.
             Inr (em\<lparr>emLinkTable := om_put linkId lk' (emLinkTable em)\<rparr>)))))))"

definition read_matrix ::
  "conv \<Rightarrow> rng \<Rightarrow> string \<times> ptree \<Rightarrow> 'n emulator \<Rightarrow> 'n emulator result" where
  "read_matrix C R v em =
     and_then (assert_key (fst v) ''Matrix'') (\<lambda>_.
     and_then (get_string ''LinkId'' (snd v)) (\<lambda>linkId.
       case map_of (emLinkTable em) linkId of
         None \<Rightarrow> Inl (RuntimeError (''[Emulator::ReadNetworkConfig] unkown matrix link id '' @ linkId))
       | Some _ \<Rightarrow>
           and_then (get_child ''Connections'' (snd v)) (\<lambda>connections.
             each (read_connection C R linkId) (ptChildren connections) em)))"

section \<open>The whole file\<close>

definition read_nodes ::
  "conv \<Rightarrow> rng \<Rightarrow> (int \<Rightarrow> nat) \<Rightarrow> (string \<times> ptree) list \<Rightarrow> 'n emulator \<Rightarrow> ('n emulator \<times> int) result" where
  "read_nodes C R seed nodes em = each (read_node C R seed) nodes (em, 1)"

definition Emulator_ReadNetworkConfig ::
  "('n, 'c) ndn \<Rightarrow> conv \<Rightarrow> rng \<Rightarrow> (int \<Rightarrow> nat) \<Rightarrow> ptree \<Rightarrow> 'n emulator \<Rightarrow> 'n emulator result" where
  "Emulator_ReadNetworkConfig L C R seed config em =
     and_then (get_child ''Config'' config) (\<lambda>cfg.
     and_then (get_child ''Links'' cfg) (\<lambda>links.
     and_then (each (read_link C) (ptChildren links) em) (\<lambda>em1.
     and_then (get_child ''Nodes'' cfg) (\<lambda>nodes.
     and_then (read_nodes C R seed (ptChildren nodes) em1) (\<lambda>(em2, mac).
     and_then (each (read_routes L) (ptChildren nodes) em2) (\<lambda>em3.
     and_then (get_child ''Matrices'' cfg) (\<lambda>matrices.
       each (read_matrix C R) (ptChildren matrices) em3)))))))"

section \<open>Well-formed emulators\<close>

definition node_entry_ok :: "string \<times> 'n node \<Rightarrow> bool" where
  "node_entry_ok e \<longleftrightarrow> ndId (snd e) = fst e \<and> node_ok (snd e)"

definition link_entry_ok :: "'n emulator \<Rightarrow> string \<times> link \<Rightarrow> bool" where
  "link_entry_ok em e \<longleftrightarrow> lnkId (snd e) = fst e \<and> link_ok (snd e) \<and> lnkTxRate (snd e) \<noteq> 0 \<and>
     (\<forall>n d. map_of (lnkNodeTable (snd e)) n = Some d \<longrightarrow>
        (\<exists>dv. device_of n d em = Some dv \<and> dvLink dv = Link_const (snd e)))"

definition emulator_ok :: "'n emulator \<Rightarrow> bool" where
  "emulator_ok em \<longleftrightarrow> om_ok (emNodeTable em) \<and> om_ok (emLinkTable em) \<and>
     (\<forall>e \<in> set (emNodeTable em). node_entry_ok e) \<and> (\<forall>e \<in> set (emLinkTable em). link_entry_ok em e) \<and>
     (\<forall>n d dv. device_of n d em = Some dv \<longrightarrow>
        map_option Link_const (map_of (emLinkTable em) (lnkId (dvLink dv))) = Some (dvLink dv))"

lemma emulator_okD:
  assumes "emulator_ok em"
  shows "map_of (emNodeTable em) n = Some nd \<Longrightarrow> ndId nd = n \<and> node_ok nd"
    and "map_of (emLinkTable em) l = Some lk \<Longrightarrow> lnkId lk = l \<and> link_ok lk \<and> lnkTxRate lk \<noteq> 0"
    and "map_of (emLinkTable em) l = Some lk \<Longrightarrow> map_of (lnkNodeTable lk) n = Some d \<Longrightarrow>
      \<exists>dv. device_of n d em = Some dv \<and> dvLink dv = Link_const lk"
    and "device_of n d em = Some dv \<Longrightarrow>
      \<exists>lk. map_of (emLinkTable em) (lnkId (dvLink dv)) = Some lk \<and> dvLink dv = Link_const lk"
    and "om_ok (emNodeTable em)" and "om_ok (emLinkTable em)"
proof -
  show "map_of (emNodeTable em) n = Some nd \<Longrightarrow> ndId nd = n \<and> node_ok nd"
    using assms by (auto simp: emulator_ok_def node_entry_ok_def dest!: map_of_SomeD)
  have "map_of (emLinkTable em) l = Some lk \<Longrightarrow> link_entry_ok em (l, lk)" for l lk
    using assms by (auto simp: emulator_ok_def dest!: map_of_SomeD)
  then show "map_of (emLinkTable em) l = Some lk \<Longrightarrow> lnkId lk = l \<and> link_ok lk \<and> lnkTxRate lk \<noteq> 0"
    and "map_of (emLinkTable em) l = Some lk \<Longrightarrow> map_of (lnkNodeTable lk) n = Some d \<Longrightarrow>
      \<exists>dv. device_of n d em = Some dv \<and> dvLink dv = Link_const lk"
    by (simp_all add: link_entry_ok_def)
  show "device_of n d em = Some dv \<Longrightarrow>
      \<exists>lk. map_of (emLinkTable em) (lnkId (dvLink dv)) = Some lk \<and> dvLink dv = Link_const lk"
    using assms unfolding emulator_ok_def by (metis map_option_eq_Some)
  show "om_ok (emNodeTable em)" and "om_ok (emLinkTable em)" using assms by (simp_all add: emulator_ok_def)
qed

lemma emulator_ok_new [inv_intros]: "emulator_ok Emulator_new"
  by (simp add: emulator_ok_def Emulator_new_def device_of_def)

lemma device_of_put_node:
  "device_of n d (em\<lparr>emNodeTable := om_put m nd (emNodeTable em)\<rparr>) =
     (if n = m then map_of (ndDeviceTable nd) d else device_of n d em)"
  by (simp add: device_of_def kv_simps)

lemma device_of_links [simp]: "device_of n d (em\<lparr>emLinkTable := x\<rparr>) = device_of n d em"
  by (simp add: device_of_def)

text \<open>A node that keeps its devices on their links can be replaced.\<close>

definition links_of :: "'n node \<Rightarrow> string \<Rightarrow> link_const option" where
  "links_of nd d = map_option dvLink (map_of (ndDeviceTable nd) d)"

definition devices_at :: "string \<Rightarrow> 'n emulator \<Rightarrow> string \<Rightarrow> link_const option" where
  "devices_at n em d = map_option dvLink (device_of n d em)"

lemma emulator_ok_extend_node:
  assumes "emulator_ok em" and "node_ok nd" and "ndId nd = n"
    and "\<And>d c. devices_at n em d = Some c \<Longrightarrow> links_of nd d = Some c"
    and "\<And>d c. links_of nd d = Some c \<Longrightarrow> map_option Link_const (map_of (emLinkTable em) (lnkId c)) = Some c"
  shows "emulator_ok (em\<lparr>emNodeTable := om_put n nd (emNodeTable em)\<rparr>)"
proof -
  let ?em = "em\<lparr>emNodeTable := om_put n nd (emNodeTable em)\<rparr>"
  have keep: "\<exists>dv'. device_of m d ?em = Some dv' \<and> dvLink dv' = dvLink dv"
    if "device_of m d em = Some dv" for m d dv
    using that assms(4)[of d "dvLink dv"] by (auto simp: device_of_put_node links_of_def devices_at_def)
  have "link_entry_ok ?em e" if e: "e \<in> set (emLinkTable em)" for e
  proof -
    have "link_entry_ok em e" using assms(1) e by (simp add: emulator_ok_def)
    moreover have "\<exists>dv. device_of m d ?em = Some dv \<and> dvLink dv = c"
      if "device_of m d em = Some dv" and "dvLink dv = c" for m d dv c
      using keep that by blast
    ultimately show ?thesis unfolding link_entry_ok_def by blast
  qed
  moreover have "map_option Link_const (map_of (emLinkTable em) (lnkId (dvLink dv))) = Some (dvLink dv)"
    if "device_of m d ?em = Some dv" for m d dv
    using that assms(1,5) by (auto simp: emulator_ok_def device_of_put_node links_of_def split: if_splits)
  moreover have "node_entry_ok e" if "e \<in> set (om_put n nd (emNodeTable em))" for e
    using assms(1-3) that by (auto simp: emulator_ok_def om.entries_put node_entry_ok_def)
  ultimately show ?thesis using assms(1) by (simp add: emulator_ok_def om.ok_put)
qed

lemma emulator_ok_put_node:
  assumes "emulator_ok em" and "node_ok nd" and "ndId nd = n" and "links_of nd = devices_at n em"
  shows "emulator_ok (em\<lparr>emNodeTable := om_put n nd (emNodeTable em)\<rparr>)"
proof (rule emulator_ok_extend_node[OF assms(1-3)])
  fix d c
  assume "links_of nd d = Some c"
  then obtain dv where "device_of n d em = Some dv" and "dvLink dv = c"
    using assms(4) by (auto simp: devices_at_def)
  then show "map_option Link_const (map_of (emLinkTable em) (lnkId c)) = Some c"
    using assms(1) unfolding emulator_ok_def by blast
qed (simp add: assms(4))

lemma Link_const_updates [simp]:
  "Link_const (lk\<lparr>lnkNodeTable := t\<rparr>) = Link_const lk" "Link_const (lk\<lparr>lnkMatrix := m\<rparr>) = Link_const lk"
  by (simp_all add: Link_const_def link_const.truncate_def)

lemma Link_const_fields [simp]:
  "lnkId (Link_const lk) = lnkId lk" "lnkTxRate (Link_const lk) = lnkTxRate lk"
  by (simp_all add: Link_const_def link_const.truncate_def)

text \<open>A link that keeps its constants can be replaced if its new entries are not dangling.\<close>

lemma emulator_ok_put_link:
  assumes "emulator_ok em" and "link_entry_ok em (l, lk)"
    and "map_option Link_const (map_of (emLinkTable em) l) \<in> {None, Some (Link_const lk)}"
  shows "emulator_ok (em\<lparr>emLinkTable := om_put l lk (emLinkTable em)\<rparr>)"
proof -
  let ?em = "em\<lparr>emLinkTable := om_put l lk (emLinkTable em)\<rparr>"
  have "link_entry_ok ?em e = link_entry_ok em e" for e by (simp add: link_entry_ok_def)
  then have "\<forall>e \<in> set (om_put l lk (emLinkTable em)). link_entry_ok ?em e"
    using assms(1,2) by (auto simp: emulator_ok_def om.entries_put)
  moreover have "map_option Link_const (map_of (om_put l lk (emLinkTable em)) (lnkId (dvLink dv))) =
      Some (dvLink dv)" if "device_of n d em = Some dv" for n d dv
  proof -
    have "map_option Link_const (map_of (emLinkTable em) (lnkId (dvLink dv))) = Some (dvLink dv)"
      using assms(1) that by (simp add: emulator_ok_def)
    with assms(3) show ?thesis by (cases "lnkId (dvLink dv) = l") (auto simp: kv_simps)
  qed
  ultimately show ?thesis using assms(1) by (simp add: emulator_ok_def om.ok_put)
qed

section \<open>Reading keeps the emulator well formed\<close>

lemma AddRoute_devices:
  assumes "Node_AddRoute L p d m nd = Inr nd'"
  shows "ndDeviceTable nd' = ndDeviceTable nd" and "ndId nd' = ndId nd"
  using assms
  by (cases rule: AddRoute_cases; auto simp: Node_AddLinkFace_def Let_def and_then_Inr_iff int_succ_Inr_iff)+

definition rate_ok :: "conv \<Rightarrow> string \<times> ptree \<Rightarrow> bool" where
  "rate_ok C v \<longleftrightarrow> get_optional (toDouble C) ''TxRate'' (snd v) \<noteq> Some 0"

lemma read_link_ok:
  assumes "emulator_ok em" and "rate_ok C v" and "read_link C v em = Inr em'"
  shows "emulator_ok em' \<and> emNodeTable em' = emNodeTable em"
proof -
  from assms(3) obtain lid rate mtu where
    none: "map_of (emLinkTable em) lid = None" and
    em': "em' = em\<lparr>emLinkTable := om_put lid (Link_new lid rate mtu) (emLinkTable em)\<rparr>" and
    "rate \<noteq> 0"
    using assms(2)
    by (auto simp: read_link_def and_then_Inr_iff rate_ok_def Let_def split: option.splits)
  have "link_entry_ok em (lid, Link_new lid rate mtu)"
    using link_ok_new[of lid rate mtu] \<open>rate \<noteq> 0\<close> by (simp add: link_entry_ok_def) (simp add: Link_new_def)
  then show ?thesis using emulator_ok_put_link[OF assms(1), of lid] none em' by simp
qed

lemma read_route_ok:
  assumes "emulator_ok em" and "read_route L n v em = Inr em'"
  shows "emulator_ok em'"
proof -
  from assms(2) obtain pfx d mac nd nd' where
    nd: "map_of (emNodeTable em) n = Some nd" and
    add: "Node_AddRoute L pfx d mac nd = Inr nd'" and
    em': "em' = em\<lparr>emNodeTable := om_put n nd' (emNodeTable em)\<rparr>"
    by (auto simp: read_route_def and_then_Inr_iff split: option.splits)
  have "links_of nd' = devices_at n em"
    using nd AddRoute_devices(1)[OF add] by (simp add: links_of_def devices_at_def device_of_def fun_eq_iff)
  moreover have "node_ok nd'" using emulator_okD(1)[OF assms(1) nd] node_ok_AddRoute add by blast
  ultimately show ?thesis
    using emulator_ok_put_node[OF assms(1)] AddRoute_devices(2)[OF add] emulator_okD(1)[OF assms(1) nd] em'
    by simp
qed

lemma read_routes_ok:
  assumes "emulator_ok em" and "read_routes L v em = Inr em'"
  shows "emulator_ok em'"
  using assms
  by (auto simp: read_routes_def and_then_Inr_iff split: option.splits
      elim!: each_invariant[where I = emulator_ok] intro: read_route_ok)

lemma AddConnection_ok:
  assumes "link_ok lk" and "Link_AddConnection frm to a lk = Inr lk'"
  shows "link_ok lk' \<and> Link_const lk' = Link_const lk \<and> lnkNodeTable lk' = lnkNodeTable lk"
proof -
  from assms(2) have ne: "to \<noteq> frm" "to \<in> dom (map_of (lnkNodeTable lk))" and
    lk': "lk' = lk\<lparr>lnkMatrix := om_put frm (om_put to a (row frm lk)) (lnkMatrix lk)\<rparr>"
    by (auto simp: Link_AddConnection_def split: if_splits)
  have "row_ok (lnkNodeTable lk) frm (om_put to a (row frm lk))"
    by (rule row_ok_put[OF row_ok_row[OF assms(1)] ne])
  with link_ok_put_row[OF assms(1)] lk' show ?thesis by simp
qed

lemma read_connection_ok:
  assumes "emulator_ok em" and "read_connection C R l v em = Inr em'"
  shows "emulator_ok em'"
proof -
  from assms(2) obtain frm to a lk lk' where
    lk: "map_of (emLinkTable em) l = Some lk" and add: "Link_AddConnection frm to a lk = Inr lk'" and
    em': "em' = em\<lparr>emLinkTable := om_put l lk' (emLinkTable em)\<rparr>"
    by (auto simp: read_connection_def and_then_Inr_iff split: option.splits)
  note ok = emulator_okD(2)[OF assms(1) lk] emulator_okD(3)[OF assms(1) lk]
  note con = AddConnection_ok[OF _ add]
  have const: "Link_const lk' = Link_const lk" and tab: "lnkNodeTable lk' = lnkNodeTable lk" and "link_ok lk'"
    using con ok(1) by blast+
  moreover have "lnkId lk' = lnkId lk" "lnkTxRate lk' = lnkTxRate lk"
    using const Link_const_fields by metis+
  ultimately have "link_entry_ok em (l, lk')" using ok by (simp add: link_entry_ok_def)
  then show ?thesis using emulator_ok_put_link[OF assms(1)] lk const em' by simp
qed

lemma read_matrix_ok:
  assumes "emulator_ok em" and "read_matrix C R v em = Inr em'"
  shows "emulator_ok em'"
  using assms
  by (auto simp: read_matrix_def and_then_Inr_iff split: option.splits
      elim!: each_invariant[where I = emulator_ok] intro: read_connection_ok)

text \<open>
  While the devices of a node are read the node is not in the table yet, but links already
  refer to its devices. The invariant is about the emulator with the node added.
\<close>

abbreviation with_node :: "string \<Rightarrow> 'n node \<Rightarrow> 'n emulator \<Rightarrow> 'n emulator" where
  "with_node n nd em \<equiv> em\<lparr>emNodeTable := om_put n nd (emNodeTable em)\<rparr>"

lemma read_device_ok:
  assumes "emulator_ok (with_node n nd em)" and "ndId nd = n" and "read_device R seed n v (nd, em, mac) = Inr (nd', em', mac')"
  shows "emulator_ok (with_node n nd' em') \<and> ndId nd' = n \<and> emNodeTable em' = emNodeTable em \<and>
    mac' = mac + 1 \<and> (\<exists>d dv. map_of (ndDeviceTable nd) d = None \<and>
      ndDeviceTable nd' = om_put d dv (ndDeviceTable nd) \<and> dvMac dv = word_of_int mac \<and> idle dv)"
proof -
  from assms(3) obtain d l lk where
    lk: "map_of (emLinkTable em) l = Some lk" and
    add: "Node_AddDevice R (seed mac) d (word_of_int mac) (Link_const lk) nd = Inr nd'" and
    em': "em' = em\<lparr>emLinkTable := om_put l (Link_AddNodeDevice n d lk) (emLinkTable em)\<rparr>" and
    mac': "mac' = mac + 1"
    by (auto simp: read_device_def and_then_Inr_iff split: option.splits)
  let ?v = "with_node n nd em" and ?w = "with_node n nd' em"
  have nd: "node_ok nd" using emulator_okD(1)[OF assms(1), of n nd] by (simp add: kv_simps)
  have lk_ok: "lnkId lk = l \<and> link_ok lk \<and> lnkTxRate lk \<noteq> 0"
    using emulator_okD(2)[OF assms(1), of l lk] lk by simp
  then have rate: "lnkTxRate (Link_const lk) \<noteq> 0" by simp
  obtain dv where new: "node_ok nd'" "ndId nd' = ndId nd" "map_of (ndDeviceTable nd) d = None"
    "ndDeviceTable nd' = om_put d dv (ndDeviceTable nd)" "dvMac dv = word_of_int mac" "dvLink dv = Link_const lk"
    "idle dv"
    using node_ok_AddDevice[OF nd rate add] by blast
  have w: "emulator_ok (with_node n nd' ?v)"
  proof (rule emulator_ok_extend_node[OF assms(1) new(1)])
    show "ndId nd' = n" using new(2) assms(2) by simp
    fix x c
    show "links_of nd' x = Some c" if "devices_at n ?v x = Some c"
      using that new(3) by (auto simp: devices_at_def device_of_put_node links_of_def new(4) kv_simps)
    assume c: "links_of nd' x = Some c"
    show "map_option Link_const (map_of (emLinkTable ?v) (lnkId c)) = Some c"
    proof (cases "x = d")
      case True
      then have "c = Link_const lk" using c new(6) by (simp add: links_of_def new(4) kv_simps)
      then show ?thesis using lk lk_ok by simp
    next
      case False
      then obtain dv0 where "device_of n x ?v = Some dv0" "dvLink dv0 = c"
        using c by (auto simp: links_of_def new(4) kv_simps device_of_put_node)
      then show ?thesis using assms(1) unfolding emulator_ok_def by blast
    qed
  qed
  have "link_entry_ok ?w (l, Link_AddNodeDevice n d lk)"
  proof -
    have "link_entry_ok ?w (l, lk)"
      using w lk by (auto simp: emulator_ok_def dest: map_of_SomeD)
    moreover have "device_of n d ?w = Some dv" by (simp add: device_of_put_node new(4) kv_simps)
    ultimately show ?thesis
      using link_ok_AddNodeDevice[of lk n d] new(6)
      by (auto simp: link_entry_ok_def Link_AddNodeDevice_def kv_simps)
  qed
  moreover have "Link_const (Link_AddNodeDevice n d lk) = Link_const lk"
    by (simp add: Link_AddNodeDevice_def)
  moreover have "with_node n nd' em' =
      ?w\<lparr>emLinkTable := om_put l (Link_AddNodeDevice n d lk) (emLinkTable ?w)\<rparr>"
    by (cases em) (simp add: em')
  ultimately have "emulator_ok (with_node n nd' em')"
    using emulator_ok_put_link[of ?w l "Link_AddNodeDevice n d lk"] w lk by simp
  then show ?thesis using new assms(2) em' mac' by auto
qed

text \<open>
  The addresses given out so far: each device has its own number below the counter, its
  address is that number, and it is as it was created.
\<close>

definition macs_ok :: "'n emulator \<Rightarrow> int \<Rightarrow> bool" where
  "macs_ok em mac \<longleftrightarrow> 1 \<le> mac \<and> (\<exists>j.
     (\<forall>n d dv. device_of n d em = Some dv \<longrightarrow> 1 \<le> j n d \<and> j n d < mac \<and> dvMac dv = word_of_int (j n d) \<and> idle dv) \<and>
     (\<forall>n d n' d'. device_of n d em \<noteq> None \<and> device_of n' d' em \<noteq> None \<and> j n d = j n' d' \<longrightarrow>
        n = n' \<and> d = d'))"

lemma macs_ok_devices:
  "(\<And>n d. device_of n d em' = device_of n d em) \<Longrightarrow> macs_ok em' mac = macs_ok em mac"
  by (simp add: macs_ok_def)

lemma macs_ok_add:
  assumes "macs_ok em mac" and "device_of n d em = None" and "dvMac dv = word_of_int mac \<and> idle dv"
    and "\<And>m e. device_of m e em' = (if m = n \<and> e = d then Some dv else device_of m e em)"
  shows "macs_ok em' (mac + 1)"
proof -
  obtain j where j: "\<And>n d dv. device_of n d em = Some dv \<Longrightarrow> 1 \<le> j n d \<and> j n d < mac \<and> dvMac dv = word_of_int (j n d) \<and> idle dv"
    "\<And>n d n' d'. device_of n d em \<noteq> None \<Longrightarrow> device_of n' d' em \<noteq> None \<Longrightarrow> j n d = j n' d' \<Longrightarrow> n = n' \<and> d = d'"
    and "1 \<le> mac"
    using assms(1) unfolding macs_ok_def by metis
  let ?j = "\<lambda>m e. if m = n \<and> e = d then mac else j m e"
  have "1 \<le> ?j m e \<and> ?j m e < mac + 1 \<and> dvMac dw = word_of_int (?j m e) \<and> idle dw"
    if "device_of m e em' = Some dw" for m e dw
  proof (cases "m = n \<and> e = d")
    case True
    with that assms(3,4) \<open>1 \<le> mac\<close> show ?thesis by simp
  next
    case False
    with that assms(4) have "device_of m e em = Some dw" by metis
    from j(1)[OF this] False show ?thesis by auto
  qed
  moreover have "m = m' \<and> e = e'"
    if "device_of m e em' \<noteq> None" "device_of m' e' em' \<noteq> None" "?j m e = ?j m' e'" for m e m' e'
  proof -
    have lt: "j a b < mac" if "\<not> (a = n \<and> b = d)" "device_of a b em' \<noteq> None" for a b
      using that j(1)[of a b] assms(4)[of a b] by (metis option.exhaust)
    show ?thesis
      using that lt[of m e] lt[of m' e'] j(2)[of m e m' e'] assms(4)[of m e] assms(4)[of m' e']
      by (auto split: if_splits)
  qed
  ultimately have "\<exists>j. (\<forall>n d dv. device_of n d em' = Some dv \<longrightarrow>
        1 \<le> j n d \<and> j n d < mac + 1 \<and> dvMac dv = word_of_int (j n d) \<and> idle dv) \<and>
     (\<forall>n d n' d'. device_of n d em' \<noteq> None \<and> device_of n' d' em' \<noteq> None \<and> j n d = j n' d' \<longrightarrow>
        n = n' \<and> d = d')" by (intro exI[of _ ?j]) blast
  with \<open>1 \<le> mac\<close> show ?thesis by (simp add: macs_ok_def)
qed

lemma read_device_macs:
  assumes "emulator_ok (with_node n nd em)" and "ndId nd = n" and "macs_ok (with_node n nd em) mac"
    and "read_device R seed n v (nd, em, mac) = Inr (nd', em', mac')"
  shows "macs_ok (with_node n nd' em') mac'"
proof -
  note dev = read_device_ok[OF assms(1,2,4)]
  then obtain d dv where d: "map_of (ndDeviceTable nd) d = None"
    "ndDeviceTable nd' = om_put d dv (ndDeviceTable nd)" "dvMac dv = word_of_int mac \<and> idle dv" by blast
  have same: "device_of m e em' = device_of m e em" for m e using dev by (simp add: device_of_def)
  have "macs_ok (with_node n nd' em') (mac + 1)"
    by (rule macs_ok_add[OF assms(3) _ d(3), of n d])
      (simp_all add: device_of_put_node d(1,2) kv_simps same)
  then show ?thesis using dev by simp
qed

definition reading_ok :: "'n emulator \<times> int \<Rightarrow> bool" where
  "reading_ok s \<longleftrightarrow> emulator_ok (fst s) \<and> macs_ok (fst s) (snd s)"

lemma read_node_ok:
  assumes "reading_ok s" and "read_node C R seed v s = Inr s'"
  shows "reading_ok s'"
proof -
  obtain em mac where s: "s = (em, mac)" by (cases s)
  from assms(2) obtain n path limit devices nd em1 mac1 where
    none: "map_of (emNodeTable em) n = None" and "shift10 (cache_limit C (snd v)) = Inr limit" and
    each: "each (read_device R seed n) (ptChildren devices) (Node_new n path limit, em, mac) = Inr (nd, em1, mac1)" and
    s': "s' = (with_node n nd em1, mac1)"
    by (auto simp: s read_node_def and_then_Inr_iff split: option.splits)
  then have limit: "0 \<le> limit" "limit < 2 ^ 31" using shift10_range by blast+
  let ?I = "\<lambda>(nd, em, mac). emulator_ok (with_node n nd em) \<and> ndId nd = n \<and> macs_ok (with_node n nd em) mac"
  let ?nd0 = "Node_new n path limit"
  have none': "device_of n d em = None" for d using none by (simp add: device_of_def)
  have "emulator_ok (with_node n ?nd0 em)"
    by (rule emulator_ok_put_node)
      (use assms(1) s limit none' in \<open>simp_all add: reading_ok_def node_ok_new links_of_def devices_at_def fun_eq_iff\<close>,
       simp_all add: Node_new_def)
  moreover have "macs_ok (with_node n ?nd0 em) mac"
  proof -
    have "device_of m d (with_node n ?nd0 em) = device_of m d em" for m d
      using none' by (simp add: device_of_put_node) (simp add: Node_new_def)
    then show ?thesis using assms(1) s macs_ok_devices[of "with_node n ?nd0 em" em] by (simp add: reading_ok_def)
  qed
  moreover have "ndId ?nd0 = n" by (simp add: Node_new_def)
  ultimately have "?I (?nd0, em, mac)" by simp
  from each this have "?I (nd, em1, mac1)"
  proof (rule each_invariant)
    fix x t u
    assume I: "?I t" and r: "read_device R seed n x t = Inr u"
    obtain a b c a' b' c' where t: "t = (a, b, c)" "u = (a', b', c')" by (cases t, cases u)
    show "?I u"
      using I r read_device_ok[of n a b R seed x c a' b' c'] read_device_macs[of n a b c R seed x a' b' c']
      unfolding t prod.case by blast
  qed
  then show ?thesis by (simp add: s' reading_ok_def)
qed

lemma read_route_devices:
  assumes "read_route L n v em = Inr em'"
  shows "device_of m d em' = device_of m d em"
proof -
  from assms obtain pfx e mac nd nd' where "map_of (emNodeTable em) n = Some nd"
    and add: "Node_AddRoute L pfx e mac nd = Inr nd'" and "em' = with_node n nd' em"
    by (auto simp: read_route_def and_then_Inr_iff split: option.splits)
  then show ?thesis using AddRoute_devices(1)[OF add] by (simp add: device_of_put_node) (simp add: device_of_def)
qed

lemma read_routes_devices:
  assumes "read_routes L v em = Inr em'"
  shows "device_of m d em' = device_of m d em"
  using assms
  by (auto simp: read_routes_def and_then_Inr_iff split: option.splits
      elim!: each_invariant[where I = "\<lambda>e. device_of m d e = device_of m d em"] simp: read_route_devices)

lemma read_connection_devices:
  "read_connection C R l v em = Inr em' \<Longrightarrow> device_of m d em' = device_of m d em"
  by (auto simp: read_connection_def and_then_Inr_iff split: option.splits)

lemma read_matrix_devices:
  assumes "read_matrix C R v em = Inr em'"
  shows "device_of m d em' = device_of m d em"
  using assms
  by (auto simp: read_matrix_def and_then_Inr_iff split: option.splits
      elim!: each_invariant[where I = "\<lambda>e. device_of m d e = device_of m d em"] simp: read_connection_devices)

lemma ReadNetworkConfig_reads:
  assumes "\<forall>links \<in> set (ptChildren config). \<forall>ls \<in> set (ptChildren (snd links)).
      \<forall>v \<in> set (ptChildren (snd ls)). rate_ok C v"
    and "Emulator_ReadNetworkConfig L C R seed config Emulator_new = Inr em"
  shows "\<exists>mac. emulator_ok em \<and> macs_ok em mac"
proof -
  from assms(2) obtain cfg links nodes matrices em1 em2 em3 mac where
    cfg: "get_child ''Config'' config = Inr cfg" "get_child ''Links'' cfg = Inr links" and
    e1: "each (read_link C) (ptChildren links) Emulator_new = Inr em1" and
    e2: "each (read_node C R seed) (ptChildren nodes) (em1, 1) = Inr (em2, mac)" and
    e3: "each (read_routes L) (ptChildren nodes) em2 = Inr em3" and
    e4: "each (read_matrix C R) (ptChildren matrices) em3 = Inr em"
    by (auto simp: Emulator_ReadNetworkConfig_def and_then_Inr_iff read_nodes_def)
  have rates: "rate_ok C v" if "v \<in> set (ptChildren links)" for v
    using cfg that assms(1) by (fastforce simp: get_child_def split: option.splits dest!: map_of_SomeD)
  have "emulator_ok em1 \<and> emNodeTable em1 = []"
  proof (rule each_invariant[OF e1])
    show "emulator_ok (Emulator_new :: 'a emulator) \<and> emNodeTable (Emulator_new :: 'a emulator) = []"
      using emulator_ok_new by (simp add: Emulator_new_def)
    show "emulator_ok t \<and> emNodeTable t = []"
      if "v \<in> set (ptChildren links)" "emulator_ok s \<and> emNodeTable s = []" "read_link C v s = Inr t"
      for v and s t :: "'a emulator"
      using read_link_ok[of s C v t] that rates by simp
  qed
  then have "reading_ok (em1, 1)" by (simp add: reading_ok_def macs_ok_def device_of_def)
  then have "reading_ok (em2, mac)"
    using each_invariant[OF e2, where I = reading_ok] read_node_ok by blast
  then have "emulator_ok em2" and macs: "macs_ok em2 mac" by (simp_all add: reading_ok_def)
  then have "emulator_ok em3" using each_invariant[OF e3, where I = emulator_ok] read_routes_ok by blast
  then have ok: "emulator_ok em" using each_invariant[OF e4, where I = emulator_ok] read_matrix_ok by blast
  have "device_of m d em3 = device_of m d em2" for m d
    by (rule each_invariant[OF e3, where I = "\<lambda>e. device_of m d e = device_of m d em2"])
      (auto simp: read_routes_devices)
  moreover have "device_of m d em = device_of m d em3" for m d
    by (rule each_invariant[OF e4, where I = "\<lambda>e. device_of m d e = device_of m d em3"])
      (auto simp: read_matrix_devices)
  ultimately have "macs_ok em mac" using macs macs_ok_devices[of em em2 mac] by simp
  with ok show ?thesis by blast
qed

section \<open>Properties\<close>

text \<open>
  C19: A configuration that is read without an exception, and gives no link the rate 0, builds
  a well-formed emulator: every node is well formed and filed under its id, every link too,
  every device a link refers to exists and is on that link, and the link of every device is
  in the table.
\<close>

theorem ReadNetworkConfig_well_formed:
  assumes "\<forall>links \<in> set (ptChildren config). \<forall>ls \<in> set (ptChildren (snd links)).
      \<forall>v \<in> set (ptChildren (snd ls)). rate_ok C v"
    and "Emulator_ReadNetworkConfig L C R seed config Emulator_new = Inr em"
  shows "emulator_ok em"
  using ReadNetworkConfig_reads[OF assms] by blast

text \<open>
  C35: The devices of all nodes get different MAC addresses, the numbers 1, 2, 3, ..., as long
  as there are fewer than 2 ^ 64 of them, and the static routes and the connections change
  none.
\<close>

theorem mac_addresses_unique:
  assumes "emulator_ok em1" and "emNodeTable em1 = []"
    and "read_nodes C R seed nodes em1 = Inr (em2, mac)" and "mac \<le> 2 ^ 64"
    and "each (read_routes L) nodes em2 = Inr em3" and "each (read_matrix C R) ms em3 = Inr em4"
    and "device_of n d em4 = Some dv" and "device_of n' d' em4 = Some dv'" and "dvMac dv = dvMac dv'"
  shows "n = n' \<and> d = d' \<and> dvMac dv \<noteq> 0"
proof -
  have "reading_ok (em1, 1)" using assms(1,2) by (simp add: reading_ok_def macs_ok_def device_of_def)
  then have "reading_ok (em2, mac)"
    using each_invariant[OF assms(3)[unfolded read_nodes_def], where I = reading_ok] read_node_ok by blast
  then obtain j where j:
    "\<And>n d dv. device_of n d em2 = Some dv \<Longrightarrow> 1 \<le> j n d \<and> j n d < mac \<and> dvMac dv = word_of_int (j n d) \<and> idle dv"
    "\<And>n d n' d'. device_of n d em2 \<noteq> None \<Longrightarrow> device_of n' d' em2 \<noteq> None \<Longrightarrow> j n d = j n' d' \<Longrightarrow> n = n' \<and> d = d'"
    unfolding reading_ok_def macs_ok_def fst_conv snd_conv by metis
  have "device_of m e em3 = device_of m e em2" for m e
    by (rule each_invariant[OF assms(5), where I = "\<lambda>x. device_of m e x = device_of m e em2"])
      (auto simp: read_routes_devices)
  moreover have "device_of m e em4 = device_of m e em3" for m e
    by (rule each_invariant[OF assms(6), where I = "\<lambda>x. device_of m e x = device_of m e em3"])
      (auto simp: read_matrix_devices)
  ultimately have same: "device_of m e em4 = device_of m e em2" for m e by simp
  have uint: "uint (dvMac dw) = j m e" if "device_of m e em2 = Some dw" for m e dw
    using j(1)[OF that] assms(4) by (simp add: uint_word_of_int)
  have "j n d = j n' d'" using uint[of n d dv] uint[of n' d' dv'] assms(7-9) same by simp
  moreover have "dvMac dv \<noteq> 0"
    using uint[of n d dv] j(1)[of n d dv] assms(7) same by auto
  ultimately show ?thesis using j(2)[of n d n' d'] assms(7,8) same by simp
qed

text \<open>
  A configuration with two nodes on a link, a route and a connection each way. \<open>config_conv\<close>
  converts its numbers.
\<close>

definition leaf :: "string \<Rightarrow> string \<Rightarrow> string \<times> ptree" where
  "leaf key val = (key, PTree val [])"

definition sample_links :: "(string \<times> ptree) list" where
  "sample_links = [(''Link'', PTree [] [leaf ''Id'' ''l0''])]"

definition sample_nodes :: "(string \<times> ptree) list" where
  "sample_nodes =
     [(''Node'', PTree [] [leaf ''Id'' ''A'', leaf ''Path'' ''/tmp/A'',
        (''Devices'', PTree [] [(''Device'', PTree [] [leaf ''DeviceId'' ''d'', leaf ''LinkId'' ''l0''])]),
        (''Routes'', PTree [] [(''Route'', PTree [] [leaf ''Prefix'' ''/x'', leaf ''Interface'' ''d'',
           leaf ''Nexthop'' ''B''])])]),
      (''Node'', PTree [] [leaf ''Id'' ''B'', leaf ''Path'' ''/tmp/B'', leaf ''CacheLimit'' ''100'',
        (''Devices'', PTree [] [(''Device'', PTree [] [leaf ''DeviceId'' ''d'', leaf ''LinkId'' ''l0''])])])]"

definition sample_matrices :: "(string \<times> ptree) list" where
  "sample_matrices =
     [(''Matrix'', PTree [] [leaf ''LinkId'' ''l0'', (''Connections'', PTree []
        [(''Connection'', PTree [] [leaf ''From'' ''A'', leaf ''To'' ''B'', leaf ''LossRate'' ''0.0'']),
         (''Connection'', PTree [] [leaf ''From'' ''B'', leaf ''To'' ''A'', leaf ''LossRate'' ''0.0''])])])]"

definition sample_config :: ptree where
  "sample_config = PTree [] [(''Config'', PTree [] [(''Links'', PTree [] sample_links),
     (''Nodes'', PTree [] sample_nodes), (''Matrices'', PTree [] sample_matrices)])]"

definition config_conv :: conv where
  "config_conv = \<lparr>toDouble = (\<lambda>s. if s = ''0.0'' then Some 0 else None),
     toInt = (\<lambda>s. if s = ''100'' then Some 100 else None)\<rparr>"

lemmas read_defs = read_link_def read_device_def read_node_def read_route_def read_routes_def
  read_connection_def read_matrix_def assert_key_def get_string_def get_child_def get_optional_def
  get_value_def shift10_def cache_limit_def leaf_def config_conv_def sample_links_def sample_nodes_def
  sample_matrices_def read_nexthop_def nexthop_mac_def device_of_def read_nodes_def Link_new_def
  Node_AddDevice_def LinkDevice_AddBroadcastFace_def Node_AddLinkFace_def Node_new_def LinkDevice_new_def
  Link_AddNodeDevice_def Link_const_def link_const.truncate_def Node_AddRoute_def LinkDevice_GetLinkFace_def
  LinkDevice_GetLink_def LinkDevice_GetMacAddr_def Link_GetNodeDevice_def Node_GetDevice_def
  Link_AddConnection_def row_def to_size_t_def BROADCAST_MAC_def Let_def int_succ_def LinkAttribute_new_def

definition links_read :: "string list emulator" where
  "links_read = \<lparr>emNodeTable = [], emLinkTable = [(''l0'', Link_new ''l0'' 40 8800)]\<rparr>"

lemma sample_read_links:
  "each (read_link config_conv) sample_links Emulator_new = Inr links_read"
  by (simp add: read_defs Emulator_new_def links_read_def)

lemma sample_read_rest:
  "\<exists>em2 em3 em4 dv dv'. read_nodes config_conv counting_rng nat sample_nodes links_read = Inr (em2, 3) \<and>
     each (read_routes (list_ndn [] [] [])) sample_nodes em2 = Inr em3 \<and>
     each (read_matrix config_conv counting_rng) sample_matrices em3 = Inr em4 \<and>
     device_of ''A'' ''d'' em4 = Some dv \<and> device_of ''B'' ''d'' em4 = Some dv'"
  by (simp add: read_defs links_read_def)

theorem ReadNetworkConfig_well_formed_witness:
  "\<exists>em. Emulator_ReadNetworkConfig (list_ndn [] [] [] :: (string list, string) ndn) config_conv counting_rng
     nat sample_config Emulator_new = Inr em \<and> emulator_ok em"
proof -
  obtain em2 em3 em4 where "read_nodes config_conv counting_rng nat sample_nodes links_read = Inr (em2, 3)"
    "each (read_routes (list_ndn [] [] [])) sample_nodes em2 = Inr em3"
    "each (read_matrix config_conv counting_rng) sample_matrices em3 = Inr em4"
    using sample_read_rest by blast
  then have read: "Emulator_ReadNetworkConfig (list_ndn [] [] [] :: (string list, string) ndn) config_conv
      counting_rng nat sample_config Emulator_new = Inr em4"
    by (simp add: Emulator_ReadNetworkConfig_def sample_config_def get_child_def sample_read_links)
  moreover have "emulator_ok em4"
    by (rule ReadNetworkConfig_well_formed[OF _ read])
      (simp add: rate_ok_def get_optional_def config_conv_def sample_config_def sample_links_def
        sample_nodes_def sample_matrices_def leaf_def)
  ultimately show ?thesis by blast
qed

theorem mac_addresses_unique_witness:
  "\<exists>em2 em3 em4 dv dv'. read_nodes config_conv counting_rng nat sample_nodes links_read = Inr (em2, 3) \<and>
     each (read_routes (list_ndn [] [] [])) sample_nodes em2 = Inr em3 \<and>
     each (read_matrix config_conv counting_rng) sample_matrices em3 = Inr em4 \<and>
     device_of ''A'' ''d'' em4 = Some dv \<and> device_of ''B'' ''d'' em4 = Some dv' \<and> dvMac dv \<noteq> dvMac dv'"
proof -
  have "rate_ok config_conv v" if "v \<in> set sample_links" for v
    using that by (auto simp: rate_ok_def get_optional_def config_conv_def sample_links_def leaf_def)
  then have ok: "emulator_ok links_read"
    using each_invariant[OF sample_read_links, where I = emulator_ok] read_link_ok emulator_ok_new by blast
  have none: "emNodeTable links_read = []" by (simp add: links_read_def)
  from sample_read_rest obtain em2 em3 em4 dv dv' where
    r: "read_nodes config_conv counting_rng nat sample_nodes links_read = Inr (em2, 3)"
    "each (read_routes (list_ndn [] [] [])) sample_nodes em2 = Inr em3"
    "each (read_matrix config_conv counting_rng) sample_matrices em3 = Inr em4"
    and d: "device_of ''A'' ''d'' em4 = Some dv" "device_of ''B'' ''d'' em4 = Some dv'" by blast
  have "dvMac dv \<noteq> dvMac dv'"
    using mac_addresses_unique[OF ok none r(1) _ r(2,3) d] by auto
  with r d show ?thesis by blast
qed

end
