(* ===== verification/World.thy ===== *)
theory World
  imports DeviceIO Emulator
begin

text \<open>
  The running emulator: the nodes and links of \<open>Emulator::Start\<close> together with the
  \<open>io_service\<close> that calls their handlers from a single thread. The io service is not code of
  the repository; what is modelled is the documented behaviour the code uses. Posted handlers
  run in the order they were posted. A timer holds at most one wait: \<open>expires_from_now\<close>
  cancels it, which queues its handler with an error, and \<open>async_wait\<close> starts a new one. A
  wait whose expiry has passed completes by queueing its handler without an error; a handler
  that is queued can no longer be cancelled. A timer completes only when no completed handler
  of the same timer is still queued, because the io service looks at its timers only when it
  has run the handlers it found before. The state also records the accepts and receives that
  are outstanding, and everything that was handed to the sockets of applications.
\<close>

section \<open>State\<close>

datatype timer = RxTimer string string | CsmaTimer string string | PitTimer string

text \<open>
  The handlers: \<open>PostRx\<close> and \<open>DoCsma\<close> of a device of a node, \<open>CleanUp\<close> of a node's PIT
  (each with its error argument last), \<open>Transmit\<close> of a link for a node, \<open>Dispatch\<close> of a face.
\<close>

datatype task =
    RunPostRx string string bool
  | RunDoCsma string string int int bool
  | RunPitCleanUp string bool
  | RunTransmit string string pkt_ref
  | RunDispatch string int bytes

fun cancelled :: "task \<Rightarrow> task" where
  "cancelled (RunPostRx n d err) = RunPostRx n d True"
| "cancelled (RunDoCsma n d NB BE err) = RunDoCsma n d NB BE True"
| "cancelled (RunPitCleanUp n err) = RunPitCleanUp n True"
| "cancelled t = t"

text \<open>The timer whose completed wait a handler is, if it is one.\<close>

fun completed :: "task \<Rightarrow> timer option" where
  "completed (RunPostRx n d err) = (if err then None else Some (RxTimer n d))"
| "completed (RunDoCsma n d NB BE err) = (if err then None else Some (CsmaTimer n d))"
| "completed (RunPitCleanUp n err) = (if err then None else Some (PitTimer n))"
| "completed t = None"

record 'n world =
  wEm :: "'n emulator"
  wHeap :: heap
  wNow :: time
  wReady :: "task list"
  wTimers :: "(timer \<times> (time \<times> task)) list"
  wAccepts :: "(string \<times> int) list"
  wReceives :: "(string \<times> int) list"
  wSent :: "(string \<times> int \<times> bytes) list"

section \<open>Requests\<close>

definition arm :: "timer \<Rightarrow> time \<Rightarrow> task \<Rightarrow> 'n world \<Rightarrow> 'n world" where
  "arm tm delay t w =
     w\<lparr>wReady := wReady w @ (case map_of (wTimers w) tm of None \<Rightarrow> [] | Some (_, old) \<Rightarrow> [cancelled old]),
       wTimers := um_put tm (wNow w + delay, t) (wTimers w)\<rparr>"

definition post :: "task \<Rightarrow> 'n world \<Rightarrow> 'n world" where
  "post t w = w\<lparr>wReady := wReady w @ [t]\<rparr>"

text \<open>Delays of devices are in microseconds, times in nanoseconds.\<close>

fun device_request :: "string \<Rightarrow> string \<Rightarrow> io_req \<Rightarrow> 'n world \<Rightarrow> 'n world" where
  "device_request n d (ArmRx t) w = arm (RxTimer n d) (t * 1000) (RunPostRx n d False) w"
| "device_request n d (ArmCsma NB BE t) w = arm (CsmaTimer n d) (t * 1000) (RunDoCsma n d NB BE False) w"
| "device_request n d (PostTransmit l m pkt) w = post (RunTransmit l m pkt) w"
| "device_request n d (PostDispatch f wire) w = post (RunDispatch n f wire) w"

fun node_request :: "string \<Rightarrow> node_out \<Rightarrow> 'n world \<Rightarrow> 'n world" where
  "node_request n (AppSend f bs) w = w\<lparr>wSent := wSent w @ [(n, f, bs)]\<rparr>"
| "node_request n (AppReceive f) w = w\<lparr>wReceives := wReceives w @ [(n, f)]\<rparr>"
| "node_request n (AsyncAccept f) w = w\<lparr>wAccepts := wAccepts w @ [(n, f)]\<rparr>"
| "node_request n (ArmPitCleanUp t) w = arm (PitTimer n) t (RunPitCleanUp n False) w"
| "node_request n (DevIO d r) w = device_request n d r w"

section \<open>Running a handler\<close>

text \<open>A handler of the node \<open>n\<close>, then its requests in order.\<close>

definition on_node ::
  "string \<Rightarrow> (heap \<Rightarrow> 'n node \<Rightarrow> 'n node_state result) \<Rightarrow> 'n world \<Rightarrow> 'n world result" where
  "on_node n handler w =
     (case map_of (emNodeTable (wEm w)) n of
        None \<Rightarrow> Inl (UndefinedBehaviour ''no such node'')
      | Some nd \<Rightarrow>
          and_then (handler (wHeap w) nd) (\<lambda>(h, nd', out).
            Inr (fold (node_request n) out
              (w\<lparr>wEm := (wEm w)\<lparr>emNodeTable := om_put n nd' (emNodeTable (wEm w))\<rparr>, wHeap := h\<rparr>))))"

definition keep_heap ::
  "('n node \<Rightarrow> ('n node \<times> node_out list) result) \<Rightarrow> heap \<Rightarrow> 'n node \<Rightarrow> 'n node_state result" where
  "keep_heap handler h nd = and_then (handler nd) (\<lambda>(nd', out). Inr (h, nd', out))"

text \<open>\<open>Link::Transmit\<close> calls \<open>StartRx\<close> of each receiving device, on its node.\<close>

definition World_Transmit :: "rng \<Rightarrow> string \<Rightarrow> string \<Rightarrow> pkt_ref \<Rightarrow> 'n world \<Rightarrow> 'n world result" where
  "World_Transmit R l n pkt w =
     (case map_of (emLinkTable (wEm w)) l of
        None \<Rightarrow> Inl (UndefinedBehaviour ''no such link'')
      | Some lk \<Rightarrow>
          and_then (Link_Transmit R n lk) (\<lambda>(rx, lk').
            each (\<lambda>(m, d). on_node m (\<lambda>h. keep_heap (Node_StartRx h pkt d) h)) rx
              (w\<lparr>wEm := (wEm w)\<lparr>emLinkTable := om_put l lk' (emLinkTable (wEm w))\<rparr>\<rparr>)))"

fun run_task :: "('n, 'c) ndn \<Rightarrow> rng \<Rightarrow> task \<Rightarrow> 'n world \<Rightarrow> 'n world result" where
  "run_task L R (RunPostRx n d err) w = on_node n (\<lambda>h. keep_heap (Node_PostRx h err d) h) w"
| "run_task L R (RunDoCsma n d NB BE err) w = on_node n (\<lambda>h. keep_heap (Node_DoCsma R h NB BE err d) h) w"
| "run_task L R (RunPitCleanUp n err) w =
     on_node n (\<lambda>h. keep_heap (\<lambda>nd. Inr (Node_PitCleanUp err (wNow w) nd)) h) w"
| "run_task L R (RunTransmit l n pkt) w = World_Transmit R l n pkt w"
| "run_task L R (RunDispatch n f wire) w =
     on_node n (\<lambda>h nd. Face_Dispatch L R (wNow w) f wire (h, nd, [])) w"

definition run_accept :: "string \<Rightarrow> int \<Rightarrow> bool \<Rightarrow> 'n world \<Rightarrow> 'n world result" where
  "run_accept n f err w = on_node n (\<lambda>h. keep_heap (Node_HandleAccept f err) h) w"

text \<open>The result is \<open>None\<close> when \<open>HandleReceive\<close> would not return.\<close>

definition run_receive ::
  "('n, 'c) ndn \<Rightarrow> rng \<Rightarrow> string \<Rightarrow> int \<Rightarrow> bool \<Rightarrow> bytes \<Rightarrow> 'n world \<Rightarrow> 'n world result" where
  "run_receive L R n f err received w =
     on_node n (\<lambda>h nd. case Node_HandleReceive L R (wNow w) f err received (h, nd, []) of
        None \<Rightarrow> Inl (UndefinedBehaviour ''endless loop'')
      | Some r \<Rightarrow> r) w"

section \<open>The emulator as a transition system\<close>

text \<open>\<open>Emulator::Start\<close>: every node is started, in the order of the node table.\<close>

definition World_new :: "'n emulator \<Rightarrow> 'n world" where
  "World_new em = \<lparr>wEm = em, wHeap = [], wNow = 0, wReady = [], wTimers = [], wAccepts = [],
     wReceives = [], wSent = []\<rparr>"

definition Emulator_Start :: "('n, 'c) ndn \<Rightarrow> 'n emulator \<Rightarrow> 'n world result" where
  "Emulator_Start L em =
     each (\<lambda>n. on_node n (\<lambda>h. keep_heap (Node_Start L) h))
       (map fst (emNodeTable em)) (World_new em)"

definition may_fire :: "timer \<Rightarrow> 'n world \<Rightarrow> bool" where
  "may_fire tm w \<longleftrightarrow> (\<forall>t \<in> set (wReady w). completed t \<noteq> Some tm)"

inductive step :: "('n, 'c) ndn \<Rightarrow> rng \<Rightarrow> 'n world \<Rightarrow> 'n world \<Rightarrow> bool" for L R where
  run: "wReady w = t # ts \<Longrightarrow> run_task L R t (w\<lparr>wReady := ts\<rparr>) = Inr w' \<Longrightarrow> step L R w w'"
| fire: "map_of (wTimers w) tm = Some (expiry, t) \<Longrightarrow> expiry \<le> wNow w \<Longrightarrow> may_fire tm w \<Longrightarrow>
    step L R w (w\<lparr>wTimers := kv_erase tm (wTimers w), wReady := wReady w @ [t]\<rparr>)"
| tick: "wNow w \<le> now \<Longrightarrow> step L R w (w\<lparr>wNow := now\<rparr>)"
| accept: "(n, f) \<in> set (wAccepts w) \<Longrightarrow>
    run_accept n f err (w\<lparr>wAccepts := remove1 (n, f) (wAccepts w)\<rparr>) = Inr w' \<Longrightarrow> step L R w w'"
| receive: "(n, f) \<in> set (wReceives w) \<Longrightarrow>
    run_receive L R n f err received (w\<lparr>wReceives := remove1 (n, f) (wReceives w)\<rparr>) = Inr w' \<Longrightarrow>
    step L R w w'"

inductive reachable :: "('n, 'c) ndn \<Rightarrow> rng \<Rightarrow> 'n emulator \<Rightarrow> 'n world \<Rightarrow> bool" for L R em where
  start: "Emulator_Start L em = Inr w \<Longrightarrow> reachable L R em w"
| next_step: "reachable L R em w \<Longrightarrow> step L R w w' \<Longrightarrow> reachable L R em w'"

end
