(* ===== verification/Reachable.thy ===== *)
theory Reachable
  imports World Forwarding
begin

text \<open>
  What holds in every state the emulator can reach (\<open>world_ok\<close>), by induction over its steps:
  its tables are well formed and no handler that is queued or waits for a timer refers to
  something that does not exist; every packet reference is in the store; the accept of a node
  is outstanding for a fresh face id, and every outstanding receive is of an application face;
  and the CSMA timer of a device is running exactly as its transmit queue needs it.
\<close>

section \<open>The state of the handlers\<close>

definition ready_count :: "timer \<Rightarrow> 'n world \<Rightarrow> nat" where
  "ready_count tm w = length (filter (\<lambda>t. completed t = Some tm) (wReady w))"

definition waiting :: "timer \<Rightarrow> 'n world \<Rightarrow> bool" where
  "waiting tm w \<longleftrightarrow> map_of (wTimers w) tm \<noteq> None"

fun task_ok :: "'n emulator \<Rightarrow> nat \<Rightarrow> task \<Rightarrow> bool" where
  "task_ok em N (RunPostRx n d err) \<longleftrightarrow> device_of n d em \<noteq> None"
| "task_ok em N (RunDoCsma n d NB BE err) \<longleftrightarrow> device_of n d em \<noteq> None"
| "task_ok em N (RunPitCleanUp n err) \<longleftrightarrow> map_of (emNodeTable em) n \<noteq> None"
| "task_ok em N (RunTransmit l n p) \<longleftrightarrow> map_of (emLinkTable em) l \<noteq> None \<and> p < N"
| "task_ok em N (RunDispatch n f wire) \<longleftrightarrow> map_of (emNodeTable em) n \<noteq> None"

definition tasks_ok :: "'n world \<Rightarrow> bool" where
  "tasks_ok w \<longleftrightarrow> um_ok (wTimers w) \<and> (\<forall>t \<in> set (wReady w). task_ok (wEm w) (length (wHeap w)) t) \<and>
     (\<forall>(tm, e, t) \<in> set (wTimers w). completed t = Some tm \<and> task_ok (wEm w) (length (wHeap w)) t)"

text \<open>
  The CSMA timer of a device with \<open>q\<close> packets in its queue, of which \<open>r\<close> completed waits are
  still queued, and which waits if \<open>b\<close>: it is running if there is something to send, and no
  handler is left over when the queue has been emptied.
\<close>

definition csma_live :: "nat \<Rightarrow> nat \<Rightarrow> bool \<Rightarrow> bool" where
  "csma_live q r b \<longleftrightarrow> r \<le> 1 \<and> r + of_bool b \<le> q \<and> (q \<noteq> 0 \<longrightarrow> r \<noteq> 0 \<or> b)"

definition device_live :: "device \<Rightarrow> nat \<Rightarrow> nat \<Rightarrow> bool \<Rightarrow> bool" where
  "device_live dv N r b \<longleftrightarrow> (\<forall>p \<in> set (dvTxQueue dv). p < N) \<and> (\<forall>p. dvPendingRx dv = Some p \<longrightarrow> p < N) \<and>
     csma_live (length (dvTxQueue dv)) r b"

definition node_live ::
  "'n node \<Rightarrow> nat \<Rightarrow> int list \<Rightarrow> int list \<Rightarrow> (string \<Rightarrow> nat) \<Rightarrow> (string \<Rightarrow> bool) \<Rightarrow> bool" where
  "node_live nd N acc rcv rc wt \<longleftrightarrow>
     distinct acc \<and> (\<forall>f \<in> set acc. 0 < f \<and> f < ndFaceCounter nd \<and> map_of (ndFaceTable nd) f = None) \<and>
     distinct rcv \<and> (\<forall>f \<in> set rcv. is_app_face nd f) \<and>
     (acc \<noteq> [] \<or> rcv \<noteq> [] \<longrightarrow> ndFibManager nd \<noteq> None) \<and>
     (\<forall>d dv. map_of (ndDeviceTable nd) d = Some dv \<longrightarrow> device_live dv N (rc d) (wt d))"

definition of_node :: "string \<Rightarrow> (string \<times> int) list \<Rightarrow> int list" where
  "of_node n xs = map snd (filter (\<lambda>x. fst x = n) xs)"

definition live_at :: "string \<Rightarrow> 'n node \<Rightarrow> 'n world \<Rightarrow> bool" where
  "live_at n nd w \<longleftrightarrow> node_live nd (length (wHeap w)) (of_node n (wAccepts w)) (of_node n (wReceives w))
     (\<lambda>d. ready_count (CsmaTimer n d) w) (\<lambda>d. waiting (CsmaTimer n d) w)"

definition world_base :: "'n world \<Rightarrow> bool" where
  "world_base w \<longleftrightarrow> emulator_ok (wEm w) \<and> tasks_ok w \<and>
     (\<forall>x \<in> set (wAccepts w) \<union> set (wReceives w). map_of (emNodeTable (wEm w)) (fst x) \<noteq> None)"

definition world_ok :: "'n world \<Rightarrow> bool" where
  "world_ok w \<longleftrightarrow> world_base w \<and>
     (\<forall>n nd. map_of (emNodeTable (wEm w)) n = Some nd \<longrightarrow> live_at n nd w)"

section \<open>Requests\<close>

lemma handlers_updates [simp]:
  "ready_count tm (w\<lparr>wEm := em\<rparr>) = ready_count tm w" "waiting tm (w\<lparr>wEm := em\<rparr>) = waiting tm w"
  "ready_count tm (w\<lparr>wHeap := h\<rparr>) = ready_count tm w" "waiting tm (w\<lparr>wHeap := h\<rparr>) = waiting tm w"
  "ready_count tm (w\<lparr>wNow := now\<rparr>) = ready_count tm w" "waiting tm (w\<lparr>wNow := now\<rparr>) = waiting tm w"
  "ready_count tm (w\<lparr>wAccepts := a\<rparr>) = ready_count tm w" "waiting tm (w\<lparr>wAccepts := a\<rparr>) = waiting tm w"
  "ready_count tm (w\<lparr>wReceives := a\<rparr>) = ready_count tm w" "waiting tm (w\<lparr>wReceives := a\<rparr>) = waiting tm w"
  "ready_count tm (w\<lparr>wSent := s\<rparr>) = ready_count tm w" "waiting tm (w\<lparr>wSent := s\<rparr>) = waiting tm w"
  "waiting tm (w\<lparr>wReady := ts\<rparr>) = waiting tm w"
  by (simp_all add: ready_count_def waiting_def)

lemma completed_cancelled [simp]: "completed (cancelled t) = None"
  by (cases t) auto

lemma task_ok_cancelled [simp]: "task_ok em N (cancelled t) = task_ok em N t"
  by (cases t) auto

lemma of_node_append [simp]: "of_node n (xs @ ys) = of_node n xs @ of_node n ys"
  by (simp add: of_node_def)

lemma of_node_map_Pair [simp]: "of_node m (map (Pair n) fs) = (if m = n then fs else [])"
  by (induction fs) (auto simp: of_node_def)

lemma of_node_Cons: "of_node m ((n, f) # xs) = (if m = n then f # of_node m xs else of_node m xs)"
  by (simp add: of_node_def)

fun accept_of :: "node_out \<Rightarrow> int list" where
  "accept_of (AsyncAccept f) = [f]"
| "accept_of out = []"

fun receive_of :: "node_out \<Rightarrow> int list" where
  "receive_of (AppReceive f) = [f]"
| "receive_of out = []"

fun request_ok :: "'n emulator \<Rightarrow> nat \<Rightarrow> string \<Rightarrow> node_out \<Rightarrow> bool" where
  "request_ok em N n (DevIO d (PostTransmit l m p)) \<longleftrightarrow> map_of (emLinkTable em) l \<noteq> None \<and> p < N"
| "request_ok em N n (DevIO d r) \<longleftrightarrow> device_of n d em \<noteq> None"
| "request_ok em N n out \<longleftrightarrow> True"

lemma arm_fields [simp]:
  "wEm (arm tm dl t w) = wEm w" "wHeap (arm tm dl t w) = wHeap w" "wNow (arm tm dl t w) = wNow w"
  "wAccepts (arm tm dl t w) = wAccepts w" "wReceives (arm tm dl t w) = wReceives w"
  "ready_count tm' (arm tm dl t w) = ready_count tm' w"
  "waiting tm' (arm tm dl t w) \<longleftrightarrow> tm' = tm \<or> waiting tm' w"
  by (auto simp: arm_def ready_count_def waiting_def kv_simps split: option.splits)

lemma tasks_ok_arm:
  assumes "tasks_ok w" and "completed t = Some tm" and "task_ok (wEm w) (length (wHeap w)) t"
  shows "tasks_ok (arm tm dl t w)"
proof -
  have um: "um_ok (wTimers w)" using assms(1) by (simp add: tasks_ok_def)
  have "task_ok (wEm w) (length (wHeap w)) old" if "map_of (wTimers w) tm = Some (e, old)" for e old
    using assms(1) that by (auto simp: tasks_ok_def dest!: map_of_SomeD)
  then show ?thesis
    using assms um_ok_put[OF um]
    by (auto simp: tasks_ok_def arm_def um.entries_put[OF um] split: option.splits)
qed

lemma tasks_ok_post: "tasks_ok w \<Longrightarrow> task_ok (wEm w) (length (wHeap w)) t \<Longrightarrow> tasks_ok (post t w)"
  by (simp add: tasks_ok_def post_def)

lemma post_fields [simp]:
  "wEm (post t w) = wEm w" "wHeap (post t w) = wHeap w" "wNow (post t w) = wNow w"
  "wAccepts (post t w) = wAccepts w" "wReceives (post t w) = wReceives w"
  "completed t = None \<Longrightarrow> ready_count tm (post t w) = ready_count tm w"
  "waiting tm (post t w) = waiting tm w"
  by (auto simp: post_def ready_count_def waiting_def)

lemma node_request_fields [simp]:
  "wEm (node_request n r w) = wEm w" "wHeap (node_request n r w) = wHeap w"
  "wNow (node_request n r w) = wNow w"
  "wAccepts (node_request n r w) = wAccepts w @ map (Pair n) (accept_of r)"
  "wReceives (node_request n r w) = wReceives w @ map (Pair n) (receive_of r)"
  by (cases r; cases "case r of DevIO d x \<Rightarrow> x"; simp)+

lemma node_request_timers:
  "ready_count (CsmaTimer m d) (node_request n r w) = ready_count (CsmaTimer m d) w"
  "waiting (CsmaTimer m d) (node_request n r w) \<longleftrightarrow> waiting (CsmaTimer m d) w \<or> m = n \<and> armed d [r]"
proof -
  have "ready_count (CsmaTimer m d) (node_request n r w) = ready_count (CsmaTimer m d) w \<and>
      (waiting (CsmaTimer m d) (node_request n r w) \<longleftrightarrow> waiting (CsmaTimer m d) w \<or> m = n \<and> armed d [r])"
  proof (cases r)
    case (DevIO e x)
    then show ?thesis by (cases x) (auto simp: armed_def)
  qed (auto simp: armed_def)
  then show "ready_count (CsmaTimer m d) (node_request n r w) = ready_count (CsmaTimer m d) w"
    and "waiting (CsmaTimer m d) (node_request n r w) \<longleftrightarrow> waiting (CsmaTimer m d) w \<or> m = n \<and> armed d [r]"
    by blast+
qed

lemma tasks_ok_request:
  assumes "tasks_ok w" and "request_ok (wEm w) (length (wHeap w)) n r"
    and "map_of (emNodeTable (wEm w)) n \<noteq> None"
  shows "tasks_ok (node_request n r w)"
proof (cases r)
  case (DevIO d x)
  with assms show ?thesis by (cases x) (auto intro!: tasks_ok_arm tasks_ok_post)
next
  case (ArmPitCleanUp t)
  with assms show ?thesis by (auto intro!: tasks_ok_arm)
qed (use assms in \<open>simp_all add: tasks_ok_def\<close>)

lemma requests_fields:
  "wEm (fold (node_request n) out w) = wEm w" "wHeap (fold (node_request n) out w) = wHeap w"
  "wNow (fold (node_request n) out w) = wNow w"
  "wAccepts (fold (node_request n) out w) = wAccepts w @ map (Pair n) (concat (map accept_of out))"
  "wReceives (fold (node_request n) out w) = wReceives w @ map (Pair n) (concat (map receive_of out))"
  "ready_count (CsmaTimer m d) (fold (node_request n) out w) = ready_count (CsmaTimer m d) w"
  "waiting (CsmaTimer m d) (fold (node_request n) out w) \<longleftrightarrow>
     waiting (CsmaTimer m d) w \<or> m = n \<and> armed d out"
proof (induction out arbitrary: w)
  case (Cons r out)
  have armed: "armed d (r # out) \<longleftrightarrow> armed d [r] \<or> armed d out" by (auto simp: armed_def)
  case 1 show ?case by (simp add: Cons)
  case 2 show ?case by (simp add: Cons)
  case 3 show ?case by (simp add: Cons)
  case 4 show ?case by (simp add: Cons)
  case 5 show ?case by (simp add: Cons)
  case 6 show ?case by (simp add: Cons node_request_timers)
  case 7 show ?case by (simp add: Cons node_request_timers armed) blast
qed simp_all

lemma tasks_ok_requests:
  "tasks_ok w \<Longrightarrow> \<forall>r \<in> set out. request_ok (wEm w) (length (wHeap w)) n r \<Longrightarrow>
     map_of (emNodeTable (wEm w)) n \<noteq> None \<Longrightarrow> tasks_ok (fold (node_request n) out w)"
  by (induction out arbitrary: w) (auto simp: tasks_ok_request)

section \<open>A handler of a node\<close>

text \<open>What a handler may do to its node, and to the rest of the world.\<close>

definition node_change :: "string \<Rightarrow> heap \<Rightarrow> 'n node \<Rightarrow> heap \<Rightarrow> 'n node \<Rightarrow> bool" where
  "node_change n h nd h' nd' \<longleftrightarrow> node_ok nd' \<and> ndId nd' = n \<and> links_of nd' = links_of nd \<and> length h \<le> length h'"

lemma task_ok_mono:
  assumes "task_ok em N t" and "N \<le> N'"
    and "\<And>n d. device_of n d em \<noteq> None \<Longrightarrow> device_of n d em' \<noteq> None"
    and "\<And>n. map_of (emNodeTable em) n \<noteq> None \<Longrightarrow> map_of (emNodeTable em') n \<noteq> None"
    and "\<And>l. map_of (emLinkTable em) l \<noteq> None \<Longrightarrow> map_of (emLinkTable em') l \<noteq> None"
  shows "task_ok em' N' t"
  using assms(1,2) assms(3-5) by (cases t) fastforce+

lemma tasks_ok_mono:
  assumes "tasks_ok w" and "wTimers w' = wTimers w" and "set (wReady w') \<subseteq> set (wReady w)"
    and "\<And>t. task_ok (wEm w) (length (wHeap w)) t \<Longrightarrow> task_ok (wEm w') (length (wHeap w')) t"
  shows "tasks_ok w'"
  using assms unfolding tasks_ok_def by fastforce

lemma links_of_device: "links_of nd d = None \<longleftrightarrow> map_of (ndDeviceTable nd) d = None"
  by (simp add: links_of_def)

lemma node_live_mono:
  "node_live nd N acc rcv rc wt \<Longrightarrow> N \<le> N' \<Longrightarrow> node_live nd N' acc rcv rc wt"
  unfolding node_live_def device_live_def by (meson order_less_le_trans)

lemma on_node_live:
  assumes base: "world_base w" and nd: "map_of (emNodeTable (wEm w)) n = Some nd"
    and others: "\<And>m nd. m \<noteq> n \<Longrightarrow> map_of (emNodeTable (wEm w)) m = Some nd \<Longrightarrow> live_at m nd w"
    and res: "handler (wHeap w) nd = Inr (h', nd', out)" and run: "on_node n handler w = Inr w'"
    and change: "node_change n (wHeap w) nd h' nd'"
    and reqs: "\<forall>r \<in> set out. request_ok (wEm w) (length h') n r"
    and live: "node_live nd' (length h')
      (of_node n (wAccepts w) @ concat (map accept_of out)) (of_node n (wReceives w) @ concat (map receive_of out))
      (\<lambda>d. ready_count (CsmaTimer n d) w) (\<lambda>d. waiting (CsmaTimer n d) w \<or> armed d out)"
  shows "world_ok w'"
proof -
  let ?em = "(wEm w)\<lparr>emNodeTable := om_put n nd' (emNodeTable (wEm w))\<rparr>"
  let ?w = "w\<lparr>wEm := ?em, wHeap := h'\<rparr>"
  have w': "w' = fold (node_request n) out ?w" using run nd res by (simp add: on_node_def)
  note ch = change[unfolded node_change_def]
  have em_ok: "emulator_ok (wEm w)" and tasks: "tasks_ok w" using base by (simp_all add: world_base_def)
  have same: "links_of nd' = devices_at n (wEm w)"
    using ch nd by (simp add: devices_at_def device_of_def links_of_def fun_eq_iff)
  have em: "emulator_ok ?em" using emulator_ok_put_node[OF em_ok _ _ same] ch by simp
  have dev: "device_of m d ?em = None \<longleftrightarrow> device_of m d (wEm w) = None" for m d
    using ch nd links_of_device[of nd' d] links_of_device[of nd d]
    by (simp add: device_of_put_node) (simp add: device_of_def)
  have mono: "task_ok ?em (length h') t" if "task_ok (wEm w) (length (wHeap w)) t" for t
    by (rule task_ok_mono[OF that]) (use ch dev in \<open>auto simp: kv_simps\<close>)
  have "tasks_ok ?w" by (rule tasks_ok_mono[OF tasks]) (use mono in auto)
  moreover have "\<forall>r \<in> set out. request_ok (wEm ?w) (length (wHeap ?w)) n r"
  proof
    fix r assume "r \<in> set out"
    then have "request_ok (wEm w) (length h') n r" using reqs by blast
    then show "request_ok (wEm ?w) (length (wHeap ?w)) n r"
      using dev[of n] by (cases r; cases "case r of DevIO d x \<Rightarrow> x") auto
  qed
  ultimately have "tasks_ok w'" unfolding w' by (rule tasks_ok_requests) (simp add: kv_simps)
  moreover have "\<forall>x \<in> set (wAccepts w') \<union> set (wReceives w'). map_of (emNodeTable (wEm w')) (fst x) \<noteq> None"
    using base by (auto simp: w' requests_fields kv_simps world_base_def)
  ultimately have "world_base w'" using em by (simp add: world_base_def w' requests_fields)
  moreover have "live_at m ndm w'" if "map_of (emNodeTable (wEm w')) m = Some ndm" for m ndm
  proof (cases "m = n")
    case True
    with that have "ndm = nd'" by (simp add: w' requests_fields kv_simps)
    with True live show ?thesis by (simp add: live_at_def w' requests_fields)
  next
    case False
    with that have "map_of (emNodeTable (wEm w)) m = Some ndm" by (simp add: w' requests_fields kv_simps)
    from others[OF False this] False node_live_mono ch show ?thesis
      by (fastforce simp: live_at_def w' requests_fields)
  qed
  ultimately show ?thesis by (simp add: world_ok_def)
qed

text \<open>How the liveness of a node is kept when faces are added and devices change.\<close>

lemma node_live_step:
  assumes live: "node_live nd N acc rcv rc wt" and ok: "node_ok nd"
    and "ndFaceCounter nd \<le> ndFaceCounter nd'" and "ndFibManager nd' = ndFibManager nd"
    and faces: "\<And>g. g < ndFaceCounter nd \<Longrightarrow> map_of (ndFaceTable nd') g = map_of (ndFaceTable nd) g"
    and dev: "\<And>d dv'. map_of (ndDeviceTable nd') d = Some dv' \<Longrightarrow> \<exists>dv. map_of (ndDeviceTable nd) d = Some dv \<and>
      (device_live dv N (rc d) (wt d) \<longrightarrow> device_live dv' N' (rc' d) (wt' d))"
  shows "node_live nd' N' acc rcv rc' wt'"
proof -
  have "is_app_face nd' f" if "f \<in> set rcv" for f
  proof -
    have app: "is_app_face nd f" using live that by (simp add: node_live_def)
    then obtain af where "map_of (ndFaceTable nd) f = Some (AppFc af)"
      by (auto simp: is_app_face_def split: option.splits face.splits)
    from tables_ok_face(3)[OF node_okD(1)[OF ok] this] faces app show ?thesis by (simp add: is_app_face_def)
  qed
  moreover have "device_live dv' N' (rc' d) (wt' d)" if d: "map_of (ndDeviceTable nd') d = Some dv'" for d dv'
  proof -
    obtain dv where dv: "map_of (ndDeviceTable nd) d = Some dv"
      "device_live dv N (rc d) (wt d) \<longrightarrow> device_live dv' N' (rc' d) (wt' d)" using dev[OF d] by blast
    have "device_live dv N (rc d) (wt d)" using live dv(1) unfolding node_live_def by blast
    with dv(2) show ?thesis by blast
  qed
  ultimately show ?thesis using live assms(3-5) by (auto simp: node_live_def)
qed

section \<open>Each handler keeps the world well formed\<close>

lemma on_node_cases:
  assumes "on_node n handler w = Inr w'"
  obtains nd h' nd' out where "map_of (emNodeTable (wEm w)) n = Some nd"
    and "handler (wHeap w) nd = Inr (h', nd', out)"
  using assms by (auto simp: on_node_def and_then_Inr_iff split: option.splits)

lemma keep_heap_cases:
  assumes "keep_heap f h nd = Inr (h', nd', out)"
  shows "h' = h \<and> f nd = Inr (nd', out)"
  using assms by (auto simp: keep_heap_def and_then_Inr_iff)

lemma world_okD:
  assumes "world_ok w"
  shows "world_base w" and "map_of (emNodeTable (wEm w)) n = Some nd \<Longrightarrow> live_at n nd w"
    and "map_of (emNodeTable (wEm w)) n = Some nd \<Longrightarrow> node_ok nd \<and> ndId nd = n" and "emulator_ok (wEm w)"
proof -
  show "world_base w" and "map_of (emNodeTable (wEm w)) n = Some nd \<Longrightarrow> live_at n nd w"
    using assms by (simp_all add: world_ok_def)
  then show "emulator_ok (wEm w)" by (simp add: world_base_def)
  then show "map_of (emNodeTable (wEm w)) n = Some nd \<Longrightarrow> node_ok nd \<and> ndId nd = n"
    using emulator_okD(1) by blast
qed

text \<open>A handler is taken from the queue.\<close>

lemma pop_base:
  assumes "world_base w" and "wReady w = t # ts"
  shows "world_base (w\<lparr>wReady := ts\<rparr>)" and "task_ok (wEm w) (length (wHeap w)) t"
  using assms by (auto simp: world_base_def tasks_ok_def)

lemma pop_live:
  assumes "live_at m nd w" and "wReady w = t # ts" and "\<And>d. completed t \<noteq> Some (CsmaTimer m d)"
  shows "live_at m nd (w\<lparr>wReady := ts\<rparr>)"
  using assms by (simp add: live_at_def ready_count_def)

lemma pop_ok:
  assumes "world_ok w" and "wReady w = t # ts" and "\<And>n d. completed t \<noteq> Some (CsmaTimer n d)"
  shows "world_ok (w\<lparr>wReady := ts\<rparr>)"
  using assms(3) pop_base(1)[OF world_okD(1)[OF assms(1)] assms(2)] world_okD(2)[OF assms(1)]
    pop_live[OF _ assms(2)]
  by (simp add: world_ok_def)

text \<open>
  A handler that changes one device \<open>d\<close> of its node, started when the handlers that were
  queued for the node's devices were \<open>rc\<close>.
\<close>

definition device_change :: "'n node \<Rightarrow> string \<Rightarrow> device \<Rightarrow> 'n node \<Rightarrow> device \<Rightarrow> bool" where
  "device_change nd d dv nd' dv' \<longleftrightarrow> node_ok nd \<and> node_ok nd' \<and> ndId nd' = ndId nd \<and>
     map_of (ndDeviceTable nd) d = Some dv \<and> ndDeviceTable nd' = om_put d dv' (ndDeviceTable nd) \<and>
     same_device dv dv' \<and> ndFaceCounter nd \<le> ndFaceCounter nd' \<and> ndFibManager nd' = ndFibManager nd \<and>
     (\<forall>g < ndFaceCounter nd. map_of (ndFaceTable nd') g = map_of (ndFaceTable nd) g)"

lemma device_world:
  assumes base: "world_base w" and nd: "map_of (emNodeTable (wEm w)) n = Some nd"
    and others: "\<And>m nd. m \<noteq> n \<Longrightarrow> map_of (emNodeTable (wEm w)) m = Some nd \<Longrightarrow> live_at m nd w"
    and run: "on_node n (\<lambda>h. keep_heap (f h) h) w = Inr w'" and res: "f (wHeap w) nd = Inr (nd', out)"
    and ch: "device_change nd d dv nd' dv'"
    and reqs: "\<And>r. r \<in> set out \<Longrightarrow> (\<exists>x. r = DevIO d x) \<and> request_ok (wEm w) (length (wHeap w)) n r"
    and live: "node_live nd (length (wHeap w)) (of_node n (wAccepts w)) (of_node n (wReceives w))
      rc (\<lambda>d. waiting (CsmaTimer n d) w)"
    and rc: "\<And>e. e \<noteq> d \<Longrightarrow> rc e = ready_count (CsmaTimer n e) w"
    and here: "device_live dv (length (wHeap w)) (rc d) (waiting (CsmaTimer n d) w) \<Longrightarrow>
      device_live dv' (length (wHeap w)) (ready_count (CsmaTimer n d) w) (waiting (CsmaTimer n d) w \<or> armed d out)"
  shows "world_ok w'"
proof (rule on_node_live[OF base nd others _ run])
  note ch = ch[unfolded device_change_def]
  have "ndId nd = n" using emulator_okD(1)[OF _ nd] base by (simp add: world_base_def)
  then show "node_change n (wHeap w) nd (wHeap w) nd'"
    using ch by (auto simp: node_change_def links_of_def fun_eq_iff kv_simps same_device_def)
  show "keep_heap (f (wHeap w)) (wHeap w) nd = Inr (wHeap w, nd', out)" using res by (simp add: keep_heap_def)
  show "\<forall>r \<in> set out. request_ok (wEm w) (length (wHeap w)) n r" using reqs by blast
  have none: "concat (map accept_of out) = []" "concat (map receive_of out) = []" using reqs by fastforce+
  have armed: "\<not> armed e out" if "e \<noteq> d" for e using reqs that by (fastforce simp: armed_def)
  have "node_live nd' (length (wHeap w)) (of_node n (wAccepts w)) (of_node n (wReceives w))
      (\<lambda>d. ready_count (CsmaTimer n d) w) (\<lambda>d. waiting (CsmaTimer n d) w \<or> armed d out)"
  proof (rule node_live_step[OF live])
    fix e dw
    assume "map_of (ndDeviceTable nd') e = Some dw"
    then show "\<exists>dv. map_of (ndDeviceTable nd) e = Some dv \<and>
        (device_live dv (length (wHeap w)) (rc e) (waiting (CsmaTimer n e) w) \<longrightarrow>
         device_live dw (length (wHeap w)) (ready_count (CsmaTimer n e) w)
           (waiting (CsmaTimer n e) w \<or> armed e out))"
      using ch here rc armed by (cases "e = d") (auto simp: kv_simps)
  qed (use ch in auto)
  then show "node_live nd' (length (wHeap w))
      (of_node n (wAccepts w) @ concat (map accept_of out)) (of_node n (wReceives w) @ concat (map receive_of out))
      (\<lambda>d. ready_count (CsmaTimer n d) w) (\<lambda>d. waiting (CsmaTimer n d) w \<or> armed d out)"
    by (simp only: none append_Nil2)
qed

lemma StartRx_world:
  assumes ok: "world_ok w" and p: "p < length (wHeap w)"
    and run: "on_node n (\<lambda>h. keep_heap (Node_StartRx h p d) h) w = Inr w'"
  shows "world_ok w'"
proof -
  from run obtain nd h' nd' out where nd: "map_of (emNodeTable (wEm w)) n = Some nd"
    and res: "keep_heap (Node_StartRx (wHeap w) p d) (wHeap w) nd = Inr (h', nd', out)"
    by (rule on_node_cases)
  have rx: "Node_StartRx (wHeap w) p d nd = Inr (nd', out)" using keep_heap_cases[OF res] by simp
  have ndok: "node_ok nd" using world_okD(3)[OF ok nd] by simp
  from ndok rx show ?thesis
  proof (rule StartRx_dev)
    fix dv dv'
    assume dv: "map_of (ndDeviceTable nd) d = Some dv" and "ndDeviceTable nd' = om_put d dv' (ndDeviceTable nd)"
      "same_device dv dv'" "ndFaceTable nd' = ndFaceTable nd" "ndFaceCounter nd' = ndFaceCounter nd"
      "ndId nd' = ndId nd" "ndFibManager nd' = ndFibManager nd"
      and dev: "dvTxQueue dv' = dvTxQueue dv" "dvPendingRx dv' = dvPendingRx dv \<or> dvPendingRx dv' = Some p"
      and out: "out = [] \<or> (\<exists>t. out = [DevIO d (ArmRx t)])"
    then have ch: "device_change nd d dv nd' dv'"
      using node_ok_StartRx[OF ndok rx] ndok by (simp add: device_change_def)
    show ?thesis
      by (rule device_world[OF world_okD(1)[OF ok] nd world_okD(2)[OF ok] run rx ch _
            world_okD(2)[OF ok nd, unfolded live_at_def]])
        (use out dv nd dev p in \<open>auto simp: device_of_def device_live_def armed_def\<close>)
  qed
qed

lemma PostRx_world:
  assumes ok: "world_ok w" and run: "on_node n (\<lambda>h. keep_heap (Node_PostRx h err d) h) w = Inr w'"
  shows "world_ok w'"
proof -
  from run obtain nd h' nd' out where nd: "map_of (emNodeTable (wEm w)) n = Some nd"
    and res: "keep_heap (Node_PostRx (wHeap w) err d) (wHeap w) nd = Inr (h', nd', out)"
    by (rule on_node_cases)
  have rx: "Node_PostRx (wHeap w) err d nd = Inr (nd', out)" using keep_heap_cases[OF res] by simp
  have ndok: "node_ok nd" using world_okD(3)[OF ok nd] by simp
  from ndok rx show ?thesis
  proof (rule PostRx_dev)
    fix dv dv'
    assume dv: "map_of (ndDeviceTable nd) d = Some dv" and "ndDeviceTable nd' = om_put d dv' (ndDeviceTable nd)"
      "same_device dv dv'" "ndFaceCounter nd \<le> ndFaceCounter nd'" "ndId nd' = ndId nd"
      "ndFibManager nd' = ndFibManager nd"
      "\<And>g. g < ndFaceCounter nd \<Longrightarrow> map_of (ndFaceTable nd') g = map_of (ndFaceTable nd) g"
      and dev: "dvTxQueue dv' = dvTxQueue dv" "dvPendingRx dv' = dvPendingRx dv"
      and out: "out = [] \<or> (\<exists>f wire. out = [DevIO d (PostDispatch f wire)])"
    then have ch: "device_change nd d dv nd' dv'"
      using node_ok_PostRx[OF ndok rx] ndok by (simp add: device_change_def)
    show ?thesis
      by (rule device_world[OF world_okD(1)[OF ok] nd world_okD(2)[OF ok] run rx ch _
            world_okD(2)[OF ok nd, unfolded live_at_def]])
        (use out dv nd dev in \<open>auto simp: device_of_def device_live_def armed_def\<close>)
  qed
qed

lemma csma_after:
  assumes "csma_live (length q) (Suc c) b" and "q' = q \<or> q' = tl q"
  shows "csma_live (length q') c (b \<or> q' \<noteq> [])"
  using assms by (cases q; cases b) (auto simp: csma_live_def Suc_le_eq)

lemma DoCsma_world:
  assumes ok: "world_ok w" and ready: "wReady w = RunDoCsma n d NB BE False # ts"
    and run: "on_node n (\<lambda>h. keep_heap (Node_DoCsma R h NB BE False d) h) (w\<lparr>wReady := ts\<rparr>) = Inr w'"
  shows "world_ok w'"
proof -
  let ?w = "w\<lparr>wReady := ts\<rparr>"
  from run obtain nd h' nd' out where nd: "map_of (emNodeTable (wEm ?w)) n = Some nd"
    and res: "keep_heap (Node_DoCsma R (wHeap ?w) NB BE False d) (wHeap ?w) nd = Inr (h', nd', out)"
    by (rule on_node_cases)
  have cs: "Node_DoCsma R (wHeap ?w) NB BE False d nd = Inr (nd', out)" using keep_heap_cases[OF res] by simp
  have ndok: "node_ok nd" and live: "live_at n nd w" using world_okD(2,3)[OF ok] nd by simp_all
  have count: "ready_count (CsmaTimer n e) w = ready_count (CsmaTimer n e) ?w + (if e = d then 1 else 0)" for e
    by (simp add: ready_count_def ready)
  from ndok cs show ?thesis
  proof (rule DoCsma_dev)
    fix dv dv'
    assume dv: "map_of (ndDeviceTable nd) d = Some dv" and "ndDeviceTable nd' = om_put d dv' (ndDeviceTable nd)"
      "same_device dv dv'" "ndFaceTable nd' = ndFaceTable nd" "ndFaceCounter nd' = ndFaceCounter nd"
      "ndId nd' = ndId nd" "ndFibManager nd' = ndFibManager nd"
      and q: "dvTxQueue dv \<noteq> []" and rx: "dvPendingRx dv' = dvPendingRx dv"
      and q': "dvTxQueue dv' = dvTxQueue dv \<or> dvTxQueue dv' = tl (dvTxQueue dv)"
      and armed: "armed d out \<longleftrightarrow> dvTxQueue dv' \<noteq> []"
      and out: "\<And>r. r \<in> set out \<Longrightarrow> (\<exists>nb be t. r = DevIO d (ArmCsma nb be t)) \<or>
        r = DevIO d (PostTransmit (lnkId (dvLink dv)) (dvNodeId dv) (hd (dvTxQueue dv)))"
    then have ch: "device_change nd d dv nd' dv'"
      using node_ok_DoCsma[OF ndok cs] ndok by (simp add: device_change_def)
    have dev: "device_of n d (wEm w) = Some dv" using dv nd by (simp add: device_of_def)
    obtain lk where lk: "map_of (emLinkTable (wEm w)) (lnkId (dvLink dv)) = Some lk"
      using emulator_okD(4)[OF world_okD(4)[OF ok] dev] by blast
    have here: "device_live dv (length (wHeap w)) (ready_count (CsmaTimer n d) w) (waiting (CsmaTimer n d) w)"
      using live dv by (simp add: live_at_def node_live_def)
    then have hd: "hd (dvTxQueue dv) < length (wHeap w)" using q by (simp add: device_live_def)
    have sub: "set (dvTxQueue dv') \<subseteq> set (dvTxQueue dv)" using q' q by (auto dest: list.set_sel(2))
    show ?thesis
    proof (rule device_world[OF pop_base(1)[OF world_okD(1)[OF ok] ready] nd _ run cs ch])
      show "live_at m ndm ?w" if "m \<noteq> n" "map_of (emNodeTable (wEm ?w)) m = Some ndm" for m ndm
        using pop_live[OF world_okD(2)[OF ok] ready] that by simp
      show "(\<exists>x. r = DevIO d x) \<and> request_ok (wEm ?w) (length (wHeap ?w)) n r" if "r \<in> set out" for r
        using out[OF that] lk hd dev by auto
      show "node_live nd (length (wHeap ?w)) (of_node n (wAccepts ?w)) (of_node n (wReceives ?w))
          (\<lambda>e. ready_count (CsmaTimer n e) w) (\<lambda>d. waiting (CsmaTimer n d) ?w)"
        using live by (simp add: live_at_def)
      show "ready_count (CsmaTimer n e) w = ready_count (CsmaTimer n e) ?w" if "e \<noteq> d" for e
        using count[of e] that by simp
      show "device_live dv' (length (wHeap ?w)) (ready_count (CsmaTimer n d) ?w)
          (waiting (CsmaTimer n d) ?w \<or> armed d out)"
        if "device_live dv (length (wHeap ?w)) (ready_count (CsmaTimer n d) w) (waiting (CsmaTimer n d) ?w)"
        using that csma_after[of "dvTxQueue dv" "ready_count (CsmaTimer n d) ?w"] q' sub rx armed count[of d]
        by (auto simp: device_live_def)
    qed
  qed
qed

text \<open>Handlers with an error, and handlers that change only the tables of names.\<close>

lemma tables_world:
  assumes ok: "world_ok w" and nd: "map_of (emNodeTable (wEm w)) n = Some nd"
    and run: "on_node n (\<lambda>h. keep_heap (f h) h) w = Inr w'" and res: "f (wHeap w) nd = Inr (nd', out)"
    and "node_ok nd'" "ndId nd' = n" "ndFaceTable nd' = ndFaceTable nd" "ndFaceCounter nd' = ndFaceCounter nd"
      "ndFibManager nd' = ndFibManager nd" "ndDeviceTable nd' = ndDeviceTable nd"
    and out: "\<And>r. r \<in> set out \<Longrightarrow> \<exists>t. r = ArmPitCleanUp t"
  shows "world_ok w'"
proof (rule on_node_live[OF world_okD(1)[OF ok] nd world_okD(2)[OF ok] _ run])
  show "keep_heap (f (wHeap w)) (wHeap w) nd = Inr (wHeap w, nd', out)" using res by (simp add: keep_heap_def)
  show "node_change n (wHeap w) nd (wHeap w) nd'" using assms by (simp add: node_change_def links_of_def fun_eq_iff)
  show "\<forall>r \<in> set out. request_ok (wEm w) (length (wHeap w)) n r" using out by fastforce
  have "concat (map accept_of out) = []" "concat (map receive_of out) = []" "\<And>d. \<not> armed d out"
    using out by (fastforce simp: armed_def)+
  moreover have "node_live nd' (length (wHeap w)) (of_node n (wAccepts w)) (of_node n (wReceives w))
      (\<lambda>d. ready_count (CsmaTimer n d) w) (\<lambda>d. waiting (CsmaTimer n d) w)"
    by (rule node_live_step[OF world_okD(2)[OF ok nd, unfolded live_at_def]])
      (use assms world_okD(3)[OF ok nd] in auto)
  ultimately show "node_live nd' (length (wHeap w)) (of_node n (wAccepts w) @ concat (map accept_of out))
      (of_node n (wReceives w) @ concat (map receive_of out)) (\<lambda>d. ready_count (CsmaTimer n d) w)
      (\<lambda>d. waiting (CsmaTimer n d) w \<or> armed d out)" by (simp only: append_Nil2 simp_thms)
qed blast

lemma PitCleanUp_world:
  assumes ok: "world_ok w"
    and run: "on_node n (\<lambda>h. keep_heap (\<lambda>nd. Inr (Node_PitCleanUp err now nd)) h) w = Inr w'"
  shows "world_ok w'"
proof -
  from run obtain nd where nd: "map_of (emNodeTable (wEm w)) n = Some nd" by (rule on_node_cases)
  note ndok = world_okD(3)[OF ok nd]
  obtain nd' out where c: "Node_PitCleanUp err now nd = (nd', out)" by fastforce
  show ?thesis
    by (rule tables_world[OF ok nd run, of nd' out])
      (use c ndok node_ok_PitCleanUp[of nd err now] in
        \<open>auto simp: Node_PitCleanUp_def Let_def split: prod.splits option.splits\<close>)
qed

lemma DoCsma_cancelled_world:
  assumes ok: "world_ok w" and run: "on_node n (\<lambda>h. keep_heap (Node_DoCsma R h NB BE True d) h) w = Inr w'"
  shows "world_ok w'"
proof -
  from run obtain nd h' nd' out where nd: "map_of (emNodeTable (wEm w)) n = Some nd"
    and res: "keep_heap (Node_DoCsma R (wHeap w) NB BE True d) (wHeap w) nd = Inr (h', nd', out)"
    by (rule on_node_cases)
  have cs: "Node_DoCsma R (wHeap w) NB BE True d nd = Inr (nd', out)" using keep_heap_cases[OF res] by simp
  note ndok = world_okD(3)[OF ok nd]
  have "nd' = nd \<and> out = []"
    using cs unfolding Node_DoCsma_def
  proof (cases rule: on_device_cases)
    case (1 dv dv' nd1 io)
    have om: "om_ok (ndDeviceTable nd)" using node_okD(1)[of nd] ndok by (simp add: tables_ok_def)
    have "dv' = dv" "nd1 = nd" "io = []" using 1(2) by (simp_all add: LinkDevice_DoCsma_def)
    with 1 om_put_same[OF om 1(1)] show ?thesis by simp
  qed
  then show ?thesis using ndok by (intro tables_world[OF ok nd run cs]) simp_all
qed

section \<open>Transmissions\<close>

lemma StartRx_heap:
  assumes "on_node n (\<lambda>h. keep_heap (Node_StartRx h p d) h) w = Inr w'"
  shows "wHeap w' = wHeap w"
  using assms
  by (auto simp: on_node_def keep_heap_def and_then_Inr_iff requests_fields split: option.splits)

lemma put_link_world:
  assumes ok: "world_ok w" and lk: "map_of (emLinkTable (wEm w)) l = Some lk"
    and "link_ok lk'" and const: "Link_const lk' = Link_const lk" and tab: "lnkNodeTable lk' = lnkNodeTable lk"
  shows "world_ok (w\<lparr>wEm := (wEm w)\<lparr>emLinkTable := om_put l lk' (emLinkTable (wEm w))\<rparr>\<rparr>)"
proof -
  let ?em = "(wEm w)\<lparr>emLinkTable := om_put l lk' (emLinkTable (wEm w))\<rparr>"
  note em = world_okD(4)[OF ok]
  have "lnkId lk' = lnkId lk" "lnkTxRate lk' = lnkTxRate lk"
    using const Link_const_fields by metis+
  then have "link_entry_ok (wEm w) (l, lk')"
    using emulator_okD(2,3)[OF em lk] assms(3) tab const by (simp add: link_entry_ok_def)
  then have "emulator_ok ?em" using emulator_ok_put_link[OF em] lk const by simp
  moreover have "tasks_ok (w\<lparr>wEm := ?em\<rparr>)"
  proof (rule tasks_ok_mono)
    show "tasks_ok w" using world_okD(1)[OF ok] by (simp add: world_base_def)
    show "task_ok (wEm (w\<lparr>wEm := ?em\<rparr>)) (length (wHeap (w\<lparr>wEm := ?em\<rparr>))) t"
      if "task_ok (wEm w) (length (wHeap w)) t" for t
      by (rule task_ok_mono[OF that]) (auto simp: kv_simps)
  qed simp_all
  ultimately show ?thesis
    using ok by (auto simp: world_ok_def world_base_def live_at_def)
qed

lemma Transmit_world:
  assumes ok: "world_ok w" and p: "p < length (wHeap w)" and run: "World_Transmit R l n p w = Inr w'"
  shows "world_ok w'"
proof -
  from run obtain lk rx lk' where lk: "map_of (emLinkTable (wEm w)) l = Some lk"
    and tr: "Link_Transmit R n lk = Inr (rx, lk')"
    and each: "each (\<lambda>(m, d). on_node m (\<lambda>h. keep_heap (Node_StartRx h p d) h)) rx
        (w\<lparr>wEm := (wEm w)\<lparr>emLinkTable := om_put l lk' (emLinkTable (wEm w))\<rparr>\<rparr>) = Inr w'"
    by (auto simp: World_Transmit_def and_then_Inr_iff split: option.splits)
  have "link_ok lk" using emulator_okD(2)[OF world_okD(4)[OF ok] lk] by simp
  then obtain nbs where "lk' = lk\<lparr>lnkMatrix := om_put n nbs (lnkMatrix lk)\<rparr>" "link_ok lk'"
    using tr Transmit_ok[of lk R n] by (metis Inr_inject prod.inject)
  then have "world_ok (w\<lparr>wEm := (wEm w)\<lparr>emLinkTable := om_put l lk' (emLinkTable (wEm w))\<rparr>\<rparr>)"
    by (intro put_link_world[OF ok lk]) simp_all
  then have "world_ok w' \<and> p < length (wHeap w')"
    by (intro each_invariant[OF each, where I = "\<lambda>w. world_ok w \<and> p < length (wHeap w)"])
      (use p in \<open>auto intro: StartRx_world simp: StartRx_heap\<close>)
  then show ?thesis by simp
qed

section \<open>Packets\<close>

lemma csma_queued:
  "csma_live (length q) r b \<Longrightarrow> (ps \<noteq> [] \<longleftrightarrow> a) \<Longrightarrow> csma_live (length (q @ ps)) r (b \<or> a)"
  by (cases ps; cases b) (auto simp: csma_live_def)

lemma device_live_queued:
  assumes "device_live dv N r b" and "queued N' a dv dv'" and "N \<le> N'"
  shows "device_live dv' N' r (b \<or> a)"
proof -
  obtain ps where ps: "dvTxQueue dv' = dvTxQueue dv @ ps" "\<forall>p \<in> set ps. p < N'" "ps \<noteq> [] \<longleftrightarrow> a"
    using assms(2) by (auto simp: queued_def)
  have "csma_live (length (dvTxQueue dv')) r (b \<or> a)"
    using assms(1) csma_queued[OF _ ps(3), of "dvTxQueue dv"] ps(1) by (simp add: device_live_def)
  moreover have "\<forall>p \<in> set (dvTxQueue dv'). p < N'" and "\<forall>p. dvPendingRx dv' = Some p \<longrightarrow> p < N'"
    using assms ps by (auto simp: device_live_def queued_def intro: order_less_le_trans)
  ultimately show ?thesis by (simp add: device_live_def)
qed

text \<open>
  A handler that queues packets on devices, and then may ask for again bytes of the
  application face \<open>f\<close>.
\<close>

lemma packet_world:
  assumes base: "world_base w" and nd: "map_of (emNodeTable (wEm w)) n = Some nd"
    and lives: "\<And>m nd. map_of (emNodeTable (wEm w)) m = Some nd \<Longrightarrow> live_at m nd w"
    and run: "on_node n handler w = Inr w'" and res: "handler (wHeap w) nd = Inr (h', nd', io @ again)"
    and step: "dev_step nd (wHeap w) nd' h' io" and ok: "node_ok nd'" "ndId nd' = ndId nd"
    and keep: "ndFaceCounter nd' = ndFaceCounter nd" "ndFibManager nd' = ndFibManager nd"
    and faces: "\<And>g. g \<in> set (of_node n (wAccepts w)) \<union> set (of_node n (wReceives w)) \<Longrightarrow>
      map_of (ndFaceTable nd') g = map_of (ndFaceTable nd) g"
    and again: "again = [] \<or> again = [AppReceive f] \<and> is_app_face nd' f \<and> f \<notin> set (of_node n (wReceives w)) \<and>
      ndFibManager nd \<noteq> None"
  shows "world_ok w'"
proof (rule on_node_live[OF base nd lives res run])
  note st = step[unfolded dev_step_def]
  have id: "ndId nd = n" using emulator_okD(1)[OF _ nd] base by (simp add: world_base_def)
  have rel: "rel_option (queued (length h') (armed d io)) (map_of (ndDeviceTable nd) d) (map_of (ndDeviceTable nd') d)" for d
    using st by blast
  have "links_of nd' d = links_of nd d" for d
    using rel[of d] by (cases "map_of (ndDeviceTable nd) d"; cases "map_of (ndDeviceTable nd') d")
      (auto simp: links_of_def queued_def same_device_def)
  then show "node_change n (wHeap w) nd h' nd'" using st ok id by (simp add: node_change_def fun_eq_iff)
  have req: "accept_of r = [] \<and> receive_of r = [] \<and> request_ok (wEm w) (length h') n r" if "r \<in> set io" for r
  proof -
    have "packet_request r" using st that by blast
    then show ?thesis
    proof (cases r rule: packet_request.cases)
      case (2 d NB BE t)
      then have "armed d io" using that by (auto simp: armed_def)
      with st 2 nd show ?thesis by (auto simp: device_of_def)
    qed (use \<open>packet_request r\<close> in auto)
  qed
  then show "\<forall>r \<in> set (io @ again). request_ok (wEm w) (length h') n r" using again by auto
  have none: "concat (map accept_of (io @ again)) = []" "concat (map receive_of (io @ again)) = concat (map receive_of again)"
    using req again by auto
  have armed: "armed d (io @ again) \<longleftrightarrow> armed d io" for d using again by (auto simp: armed_def)
  note live = lives[OF nd, unfolded live_at_def node_live_def]
  have "device_live dv' (length h') (ready_count (CsmaTimer n d) w) (waiting (CsmaTimer n d) w \<or> armed d io)"
    if dv': "map_of (ndDeviceTable nd') d = Some dv'" for d dv'
  proof -
    obtain dv where dv: "map_of (ndDeviceTable nd) d = Some dv" "queued (length h') (armed d io) dv dv'"
      using rel[of d] dv' by (cases "map_of (ndDeviceTable nd) d") auto
    have "device_live dv (length (wHeap w)) (ready_count (CsmaTimer n d) w) (waiting (CsmaTimer n d) w)"
      using live dv(1) by blast
    from device_live_queued[OF this dv(2)] st show ?thesis by blast
  qed
  moreover have "\<forall>g \<in> set (of_node n (wReceives w)). is_app_face nd' g"
    using live faces by (auto simp: is_app_face_def)
  moreover have "\<forall>g \<in> set (of_node n (wAccepts w)). map_of (ndFaceTable nd') g = None"
    using live faces by auto
  ultimately have "node_live nd' (length h') (of_node n (wAccepts w))
      (of_node n (wReceives w) @ concat (map receive_of again))
      (\<lambda>d. ready_count (CsmaTimer n d) w) (\<lambda>d. waiting (CsmaTimer n d) w \<or> armed d io)"
    using live keep again by (auto simp: node_live_def)
  then show "node_live nd' (length h') (of_node n (wAccepts w) @ concat (map accept_of (io @ again)))
      (of_node n (wReceives w) @ concat (map receive_of (io @ again)))
      (\<lambda>d. ready_count (CsmaTimer n d) w) (\<lambda>d. waiting (CsmaTimer n d) w \<or> armed d (io @ again))"
    by (simp only: none armed append_Nil2)
qed

lemma Dispatch_world:
  assumes ok: "world_ok w" and run: "on_node n (\<lambda>h nd. Face_Dispatch L R now f wire (h, nd, [])) w = Inr w'"
  shows "world_ok w'"
proof -
  from run obtain nd h' nd' out where nd: "map_of (emNodeTable (wEm w)) n = Some nd"
    and res: "Face_Dispatch L R now f wire (wHeap w, nd, []) = Inr (h', nd', out)"
    by (rule on_node_cases)
  have ndok: "node_ok nd" using world_okD(3)[OF ok nd] by simp
  have "dev_step nd (wHeap w) nd' h' out" using Dispatch_dev[OF res] by simp
  moreover have "node_ok nd'" "same_node nd nd'" using Dispatch_node_ok[OF ndok res] by simp_all
  ultimately show ?thesis
    by (intro packet_world[where io = out and again = "[]" and h' = h' and nd' = nd',
          OF world_okD(1)[OF ok] nd world_okD(2)[OF ok] run])
      (use res in \<open>simp_all add: same_node_def\<close>)
qed

section \<open>Sockets\<close>

text \<open>A read on the socket of the face \<open>f\<close> changes no other face.\<close>

definition same_others :: "int \<Rightarrow> 'n node \<Rightarrow> 'n node \<Rightarrow> bool" where
  "same_others f nd nd' \<longleftrightarrow> (\<forall>g. g \<noteq> f \<longrightarrow> map_of (ndFaceTable nd') g = map_of (ndFaceTable nd) g) \<and>
     ndFaceCounter nd' = ndFaceCounter nd \<and> ndFibManager nd' = ndFibManager nd \<and> ndId nd' = ndId nd"

interpretation socket: packet_dispatcher "Face_Dispatch L R now f" "remove_face f"
  "\<lambda>s. node_ok (fst (snd s)) \<and> same_others f nd (fst (snd s))" "\<lambda>s. is_app_face (fst (snd s)) f"
  for L R now f and nd :: "'n node"
proof
  fix s s' :: "'n node_state" and wire
  obtain h1 nd1 out1 h2 nd2 out2 where s: "s = (h1, nd1, out1)" "s' = (h2, nd2, out2)"
    by (cases s, cases s')
  assume ok: "node_ok (fst (snd s)) \<and> same_others f nd (fst (snd s))"
  {
    assume "Face_Dispatch L R now f wire s = Inr s'"
    with Dispatch_node_ok[of nd1 L R now f wire h1 out1 h2 nd2 out2] ok s
    have "node_ok nd2 \<and> same_node nd1 nd2" by auto
    note this
  }
  note dispatched = this
  show "node_ok (fst (snd s')) \<and> same_others f nd (fst (snd s'))" if "Face_Dispatch L R now f wire s = Inr s'"
    using dispatched[OF that] ok s by (simp add: same_node_def same_others_def)
  show "is_app_face (fst (snd s')) f"
    if "is_app_face (fst (snd s)) f" and "Face_Dispatch L R now f wire s = Inr s'"
    using dispatched[OF that(2)] s that(1) by (simp add: is_app_face_def same_node_def)
  show "node_ok (fst (snd s')) \<and> same_others f nd (fst (snd s'))"
    if "is_app_face (fst (snd s)) f" and "remove_face f s = Inr s'"
    using that s ok node_ok_RemoveFace[of nd1 f nd2]
    by (auto simp: remove_face_def and_then_Inr_iff same_others_def Node_RemoveFace_def om.lookup_erase
        split: option.splits)
qed

lemma HandleReceive_faces:
  assumes "node_ok nd" and "Node_HandleReceive L R now f err rcv (h, nd, out) = Some (Inr (h', nd', out'))"
  shows "same_others f nd nd' \<and> is_app_face nd f"
proof -
  from assms(2) obtain af af' h1 nd1 out1 where af: "map_of (ndFaceTable nd) f = Some (AppFc af)"
    and rcv: "AppFace_HandleReceive L (Face_Dispatch L R now f) (remove_face f) err rcv af (h, nd, out) =
      Some (Inr (af', (h1, nd1, out1)))"
    and "(case af' of None \<Rightarrow> Inr (h1, nd1, out1)
      | Some af1 \<Rightarrow> Inr (h1, nd1\<lparr>ndFaceTable := om_put f (AppFc af1) (ndFaceTable nd1)\<rparr>,
          out1 @ [AppReceive f])) = (Inr (h', nd', out') :: 'a node_state result)"
    by (auto simp: Node_HandleReceive_def and_then_Inr_iff split: option.splits face.splits)
  then have res: "nd' = nd1 \<or> (\<exists>af1. nd' = nd1\<lparr>ndFaceTable := om_put f (AppFc af1) (ndFaceTable nd1)\<rparr>)"
    by (cases af') auto
  have app: "is_app_face nd f" using af by (simp add: is_app_face_def)
  have "same_others f nd nd1"
    using socket.HandleReceive_good[OF _ _ rcv, of nd] assms(1) app by (simp add: same_others_def)
  with res app show ?thesis by (auto simp: same_others_def kv_simps)
qed

lemma of_node_remove:
  "of_node m (remove1 (n, f) xs) = (if m = n then remove1 f (of_node m xs) else of_node m xs)"
  by (induction xs) (auto simp: of_node_def)

lemma set_of_node: "f \<in> set (of_node n xs) \<longleftrightarrow> (n, f) \<in> set xs"
  by (force simp: of_node_def)

lemma node_live_less:
  "node_live nd N acc rcv rc wt \<Longrightarrow> node_live nd N (remove1 f acc) rcv rc wt"
  "node_live nd N acc rcv rc wt \<Longrightarrow> node_live nd N acc (remove1 f rcv) rc wt"
  by (auto simp: node_live_def dest: notin_set_remove1)

lemma remove_request_ok:
  assumes "world_ok w"
  shows "world_ok (w\<lparr>wAccepts := remove1 (n, f) (wAccepts w)\<rparr>)"
    and "world_ok (w\<lparr>wReceives := remove1 (n, f) (wReceives w)\<rparr>)"
  using assms set_remove1_subset[of "(n, f)" "wAccepts w"] set_remove1_subset[of "(n, f)" "wReceives w"]
  by (auto simp: world_ok_def world_base_def live_at_def of_node_remove tasks_ok_def node_live_less)

lemma receive_world:
  assumes ok: "world_ok w" and mem: "(n, f) \<in> set (wReceives w)"
    and run: "run_receive L R n f err rcv (w\<lparr>wReceives := remove1 (n, f) (wReceives w)\<rparr>) = Inr w'"
  shows "world_ok w'"
proof -
  let ?w = "w\<lparr>wReceives := remove1 (n, f) (wReceives w)\<rparr>"
  note ok1 = remove_request_ok(2)[OF ok, of n f]
  from run[unfolded run_receive_def] obtain nd h' nd' out where nd: "map_of (emNodeTable (wEm ?w)) n = Some nd"
    and res: "(case Node_HandleReceive L R (wNow ?w) f err rcv (wHeap ?w, nd, []) of
      None \<Rightarrow> Inl (UndefinedBehaviour ''endless loop'') | Some r \<Rightarrow> r) = Inr (h', nd', out)"
    by (rule on_node_cases)
  then have rcv: "Node_HandleReceive L R (wNow ?w) f err rcv (wHeap ?w, nd, []) = Some (Inr (h', nd', out))"
    by (auto split: option.splits)
  have ndok: "node_ok nd" using world_okD(3)[OF ok1 nd] by simp
  obtain io again where out: "out = io @ again" "again = [] \<or> again = [AppReceive f] \<and> is_app_face nd' f"
    and step: "dev_step nd (wHeap ?w) nd' h' io" using HandleReceive_dev[OF rcv] by auto
  note faces = HandleReceive_faces[OF ndok rcv]
  have live: "live_at n nd w" using world_okD(2)[OF ok] nd by simp
  have f: "f \<in> set (of_node n (wReceives w))" using mem by (simp add: set_of_node)
  have "f \<notin> set (of_node n (wReceives ?w))" and "f \<notin> set (of_node n (wAccepts ?w))"
    and "ndFibManager nd \<noteq> None"
    using live f faces
    by (auto simp: live_at_def node_live_def of_node_remove is_app_face_def split: option.splits)
  then show ?thesis
    using out faces
    by (intro packet_world[where io = io and again = again and h' = h' and nd' = nd' and f = f,
          OF world_okD(1)[OF ok1] nd world_okD(2)[OF ok1] run[unfolded run_receive_def] _ step
            HandleReceive_node_ok[OF ndok rcv]])
      (use rcv in \<open>auto simp: same_others_def\<close>)
qed

lemma accept_world:
  assumes ok: "world_ok w" and mem: "(n, f) \<in> set (wAccepts w)"
    and run: "run_accept n f err (w\<lparr>wAccepts := remove1 (n, f) (wAccepts w)\<rparr>) = Inr w'"
  shows "world_ok w'"
proof -
  let ?w = "w\<lparr>wAccepts := remove1 (n, f) (wAccepts w)\<rparr>"
  note ok1 = remove_request_ok(1)[OF ok, of n f]
  from run[unfolded run_accept_def] obtain nd h' nd' out where nd: "map_of (emNodeTable (wEm ?w)) n = Some nd"
    and "keep_heap (Node_HandleAccept f err) (wHeap ?w) nd = Inr (h', nd', out)"
    by (rule on_node_cases)
  then have h: "Node_HandleAccept f err nd = Inr (nd', out)" by (simp add: keep_heap_cases)
  have ndok: "node_ok nd" "ndId nd = n" using world_okD(3)[OF ok1 nd] by simp_all
  have live: "live_at n nd w" using world_okD(2)[OF ok] nd by simp
  have f: "f \<in> set (of_node n (wAccepts w))" using mem by (simp add: set_of_node)
  have fresh: "map_of (ndFaceTable nd) f = None" "0 < f" "f < ndFaceCounter nd" "ndFibManager nd \<noteq> None"
    "f \<notin> set (of_node n (wAccepts ?w))" "f \<notin> set (of_node n (wReceives ?w))"
    using live f by (auto simp: live_at_def node_live_def of_node_remove is_app_face_def)
  note nd' = HandleAccept_fields(1)[OF h] and out = HandleAccept_fields(2)[OF h]
  show ?thesis
  proof (rule on_node_live[OF world_okD(1)[OF ok1] nd world_okD(2)[OF ok1] _ run[unfolded run_accept_def]])
    show "keep_heap (Node_HandleAccept f err) (wHeap ?w) nd = Inr (wHeap ?w, nd', out)"
      using h by (simp add: keep_heap_def)
    show "node_change n (wHeap ?w) nd (wHeap ?w) nd'"
      using node_ok_HandleAccept[OF ndok(1) fresh(1-3) h] ndok(2)
      by (simp add: node_change_def) (simp add: nd' links_of_def fun_eq_iff)
    show "\<forall>r \<in> set out. request_ok (wEm ?w) (length (wHeap ?w)) n r" by (simp add: out)
    have acc: "node_live nd (length (wHeap ?w)) (of_node n (wAccepts ?w)) (of_node n (wReceives ?w))
        (\<lambda>d. ready_count (CsmaTimer n d) ?w) (\<lambda>d. waiting (CsmaTimer n d) ?w)"
      using world_okD(2)[OF ok1 nd] by (simp add: live_at_def)
    have "map_of (ndFaceTable nd) (ndFaceCounter nd) = None" by (rule fresh_face[OF node_okD(1)[OF ndok(1)]])
    then have "node_live nd' (length (wHeap ?w)) (of_node n (wAccepts ?w) @ [ndFaceCounter nd])
        (of_node n (wReceives ?w) @ [f]) (\<lambda>d. ready_count (CsmaTimer n d) ?w) (\<lambda>d. waiting (CsmaTimer n d) ?w)"
      using acc fresh
      by (auto simp: node_live_def nd' kv_simps is_app_face_def split: option.splits)
    moreover have "\<not> armed d out" for d by (simp add: out armed_def)
    ultimately show "node_live nd' (length (wHeap ?w)) (of_node n (wAccepts ?w) @ concat (map accept_of out))
        (of_node n (wReceives ?w) @ concat (map receive_of out)) (\<lambda>d. ready_count (CsmaTimer n d) ?w)
        (\<lambda>d. waiting (CsmaTimer n d) ?w \<or> armed d out)"
      by (simp add: out)
  qed
qed

section \<open>Every step\<close>

lemma run_task_world:
  assumes ok: "world_ok w" and ready: "wReady w = t # ts" and run: "run_task L R t (w\<lparr>wReady := ts\<rparr>) = Inr w'"
  shows "world_ok w'"
proof (cases "\<exists>n d. completed t = Some (CsmaTimer n d)")
  case True
  then obtain n d NB BE where "t = RunDoCsma n d NB BE False" by (cases t) (auto split: if_splits)
  with assms DoCsma_world show ?thesis by simp
next
  case False
  then have ok1: "world_ok (w\<lparr>wReady := ts\<rparr>)" using pop_ok[OF ok ready] by blast
  have task: "task_ok (wEm w) (length (wHeap w)) t" by (rule pop_base(2)[OF world_okD(1)[OF ok] ready])
  show ?thesis
  proof (cases t)
    case (RunDoCsma n d NB BE err)
    then have err using False by (auto split: if_splits)
    with RunDoCsma run DoCsma_cancelled_world[OF ok1] show ?thesis by simp
  next
    case (RunTransmit l n p)
    with task Transmit_world[OF ok1, of p R l n w'] run show ?thesis by simp
  qed (use run ok1 PostRx_world PitCleanUp_world Dispatch_world in auto)
qed

lemma fire_world:
  assumes ok: "world_ok w" and tm: "map_of (wTimers w) tm = Some (expiry, t)" and may: "may_fire tm w"
  shows "world_ok (w\<lparr>wTimers := kv_erase tm (wTimers w), wReady := wReady w @ [t]\<rparr>)"
proof -
  let ?w = "w\<lparr>wTimers := kv_erase tm (wTimers w), wReady := wReady w @ [t]\<rparr>"
  have tasks: "tasks_ok w" using world_okD(1)[OF ok] by (simp add: world_base_def)
  then have t: "completed t = Some tm" "task_ok (wEm w) (length (wHeap w)) t"
    using tm by (auto simp: tasks_ok_def dest!: map_of_SomeD)
  have "tasks_ok ?w"
    using tasks t by (auto simp: tasks_ok_def um.ok_erase) (auto simp: kv_erase_def)
  then have base: "world_base ?w" using world_okD(1)[OF ok] by (simp add: world_base_def)
  have "ready_count tm w = 0" using may by (auto simp: may_fire_def ready_count_def filter_empty_conv)
  then have count: "ready_count tm' ?w = (if tm' = tm then 1 else ready_count tm' w)"
    and wait: "waiting tm' ?w \<longleftrightarrow> tm' \<noteq> tm \<and> waiting tm' w" for tm'
    using t(1) by (auto simp: ready_count_def waiting_def um.lookup_erase)
  have "device_live dv N (ready_count tm' ?w) (waiting tm' ?w)"
    if "device_live dv N (ready_count tm' w) (waiting tm' w)" for dv N tm'
    using that count[of tm'] wait[of tm'] tm \<open>ready_count tm w = 0\<close>
    by (auto simp: device_live_def csma_live_def waiting_def)
  then have "live_at n nd ?w" if "map_of (emNodeTable (wEm ?w)) n = Some nd" for n nd
    using world_okD(2)[OF ok, of n nd] that by (simp add: live_at_def node_live_def)
  with base show ?thesis by (simp add: world_ok_def)
qed

lemma step_world:
  assumes "step L R w w'" and "world_ok w"
  shows "world_ok w'"
  using assms
proof (induction rule: step.induct)
  case (tick w now)
  then show ?case by (simp add: world_ok_def world_base_def live_at_def tasks_ok_def)
next
  case (run w t ts w')
  show ?case by (rule run_task_world[OF run(3,1,2)])
next
  case (fire w tm expiry t)
  show ?case by (rule fire_world[OF fire(4,1,3)])
next
  case (accept n f w err w')
  show ?case by (rule accept_world[OF accept(3,1,2)])
next
  case (receive n f w err received w')
  show ?case by (rule receive_world[OF receive(3,1,2)])
qed

section \<open>The start\<close>

definition startable :: "'n emulator \<Rightarrow> bool" where
  "startable em \<longleftrightarrow> emulator_ok em \<and> (\<forall>n d dv. device_of n d em = Some dv \<longrightarrow> idle dv)"

lemma world_ok_new:
  assumes "startable em"
  shows "world_ok (World_new em)"
proof -
  have "device_live dv 0 0 False" if "map_of (emNodeTable em) n = Some nd" "map_of (ndDeviceTable nd) d = Some dv"
    for n nd d dv
  proof -
    have "device_of n d em = Some dv" using that by (simp add: device_of_def)
    then have "idle dv" using assms unfolding startable_def by blast
    then show ?thesis by (simp add: idle_def device_live_def csma_live_def)
  qed
  then show ?thesis
    using assms
    by (auto simp: world_ok_def world_base_def startable_def World_new_def tasks_ok_def live_at_def node_live_def
        of_node_def ready_count_def waiting_def)
qed

lemma Start_world:
  assumes ok: "world_ok w" and run: "on_node n (\<lambda>h. keep_heap (Node_Start L) h) w = Inr w'"
  shows "world_ok w'" and "wEm w' = (wEm w)\<lparr>emNodeTable := emNodeTable (wEm w')\<rparr>"
    and "map_of (emNodeTable (wEm w')) m = None \<longleftrightarrow> map_of (emNodeTable (wEm w)) m = None"
    and "m \<noteq> n \<Longrightarrow> map_of (emNodeTable (wEm w')) m = map_of (emNodeTable (wEm w)) m"
proof -
  obtain nd h' nd' out where nd: "map_of (emNodeTable (wEm w)) n = Some nd"
    and res: "keep_heap (Node_Start L) (wHeap w) nd = Inr (h', nd', out)"
    using run by (rule on_node_cases)
  then have h': "h' = wHeap w" and st: "Node_Start L nd = Inr (nd', out)" by (simp_all add: keep_heap_cases)
  note ndok = world_okD(3)[OF ok nd]
  note new = node_ok_Start[OF conjunct1[OF ndok] st]
  have nd': "ndFaceCounter nd' = ndFaceCounter nd + 1" "ndFaceTable nd' = ndFaceTable nd"
    "ndDeviceTable nd' = ndDeviceTable nd" "ndFibManager nd' \<noteq> None" "ndId nd' = ndId nd"
    by (simp_all add: Start_fields(1)[OF st])
  show "world_ok w'"
  proof (rule on_node_live[OF world_okD(1)[OF ok] nd world_okD(2)[OF ok] res run])
    show "node_change n (wHeap w) nd h' nd'"
      using new ndok nd' h' by (simp add: node_change_def links_of_def fun_eq_iff)
    show "\<forall>r \<in> set out. request_ok (wEm w) (length h') n r" using new by simp
    have "0 < ndFaceCounter nd" using node_okD(1)[of nd] ndok by (simp add: tables_ok_def)
    moreover have "\<not> armed d out" for d using new by (auto simp: armed_def)
    moreover have "is_app_face nd' = is_app_face nd" by (simp add: is_app_face_def nd' fun_eq_iff)
    ultimately show "node_live nd' (length h') (of_node n (wAccepts w) @ concat (map accept_of out))
        (of_node n (wReceives w) @ concat (map receive_of out)) (\<lambda>d. ready_count (CsmaTimer n d) w)
        (\<lambda>d. waiting (CsmaTimer n d) w \<or> armed d out)"
      using world_okD(2)[OF ok nd] new nd' h' by (auto simp: live_at_def node_live_def)
  qed
  have em: "wEm w' = (wEm w)\<lparr>emNodeTable := om_put n nd' (emNodeTable (wEm w))\<rparr>"
    using run nd res by (auto simp: on_node_def requests_fields)
  then show "wEm w' = (wEm w)\<lparr>emNodeTable := emNodeTable (wEm w')\<rparr>" by simp
  show "map_of (emNodeTable (wEm w')) m = None \<longleftrightarrow> map_of (emNodeTable (wEm w)) m = None"
    and "m \<noteq> n \<Longrightarrow> map_of (emNodeTable (wEm w')) m = map_of (emNodeTable (wEm w)) m"
    using em nd by (auto simp: kv_simps)
qed

lemma Start_reachable: "Emulator_Start L em = Inr w \<Longrightarrow> startable em \<Longrightarrow> world_ok w"
  unfolding Emulator_Start_def
  by (rule each_invariant[where I = world_ok])
    (auto intro: world_ok_new Start_world(1))

lemma reachable_world:
  assumes "reachable L R em w" and "startable em"
  shows "world_ok w"
  using assms by (induction rule: reachable.induct) (blast intro: Start_reachable step_world)+

text \<open>
  What can stop \<open>Emulator::Start\<close> at the node \<open>nd\<close>: an answer of the operating system to one of
  the calls that set the acceptor up, or a node that has used up the face numbers.
\<close>

definition start_error :: "('n, 'c) ndn \<Rightarrow> string \<Rightarrow> 'n node \<Rightarrow> error \<Rightarrow> bool" where
  "start_error L n nd e \<longleftrightarrow> (\<exists>c msg. acceptorCall L n c = Some msg \<and> e = RuntimeError msg) \<or>
     2 ^ 31 - 1 \<le> ndFaceCounter nd \<and> e = int_overflow"

lemma start_error_free:
  "(\<forall>n nd e. map_of t n = Some nd \<longrightarrow> \<not> start_error L n nd e) \<longleftrightarrow>
    (\<forall>n nd. map_of t n = Some nd \<longrightarrow> (\<forall>c. acceptorCall L n c = None) \<and> ndFaceCounter nd < 2 ^ 31 - 1)"
proof -
  have "(\<forall>e. \<not> start_error L n nd e) \<longleftrightarrow> (\<forall>c. acceptorCall L n c = None) \<and> ndFaceCounter nd < 2 ^ 31 - 1" for n nd
    by (auto simp: start_error_def not_le) (metis option.exhaust)
  then show ?thesis by blast
qed

lemma Start_outcome:
  assumes ok: "world_ok w" and nd: "map_of (emNodeTable (wEm w)) n = Some nd"
  shows "(case on_node n (\<lambda>h. keep_heap (Node_Start L) h) w of
      Inl e \<Rightarrow> start_error L n nd e | Inr w' \<Rightarrow> \<forall>e. \<not> start_error L n nd e)"
proof -
  have id: "ndId nd = n" using world_okD(3)[OF ok nd] by simp
  show ?thesis
  proof (cases "Node_Start L nd")
    case (Inl e)
    with Start_raises[OF Inl] nd id show ?thesis
      by (simp add: on_node_def keep_heap_def start_error_def)
  next
    case (Inr r)
    then obtain nd' out where "Node_Start L nd = Inr (nd', out)" by (cases r) simp
    from Start_succeeds[OF this] Inr nd id show ?thesis
      by (auto simp: on_node_def keep_heap_def start_error_def split: prod.splits)
  qed
qed

lemma Start_outcomes:
  assumes "world_ok w" and "distinct ns" and "\<forall>n \<in> set ns. map_of (emNodeTable (wEm w)) n \<noteq> None"
  shows "(case each (\<lambda>n. on_node n (\<lambda>h. keep_heap (Node_Start L) h)) ns w of
      Inl e \<Rightarrow> \<exists>n \<in> set ns. \<exists>nd. map_of (emNodeTable (wEm w)) n = Some nd \<and> start_error L n nd e
    | Inr w' \<Rightarrow> \<forall>n \<in> set ns. \<forall>nd. map_of (emNodeTable (wEm w)) n = Some nd \<longrightarrow> (\<forall>e. \<not> start_error L n nd e))"
  using assms
proof (induction ns arbitrary: w)
  case (Cons n ns)
  let ?run = "\<lambda>n. on_node n (\<lambda>h. keep_heap (Node_Start L) h)"
  obtain nd where nd: "map_of (emNodeTable (wEm w)) n = Some nd" using Cons.prems(3) by auto
  note first = Start_outcome[OF Cons.prems(1) nd, of L]
  show ?case
  proof (cases "?run n w")
    case (Inl e)
    with first nd show ?thesis by auto
  next
    case (Inr w1)
    note same = Start_world[OF Cons.prems(1) Inr]
    have others: "map_of (emNodeTable (wEm w1)) m = map_of (emNodeTable (wEm w)) m" if "m \<in> set ns" for m
      using same(4)[of m] Cons.prems(2) that by auto
    have "case each ?run ns w1 of
        Inl e \<Rightarrow> \<exists>n \<in> set ns. \<exists>nd. map_of (emNodeTable (wEm w1)) n = Some nd \<and> start_error L n nd e
      | Inr w' \<Rightarrow> \<forall>n \<in> set ns. \<forall>nd. map_of (emNodeTable (wEm w1)) n = Some nd \<longrightarrow> (\<forall>e. \<not> start_error L n nd e)"
      using Cons.prems(2,3) others by (intro Cons.IH[OF same(1)]) auto
    then show ?thesis
      using first Inr nd others by (cases "each ?run ns w1") auto
  qed
qed simp

text \<open>Starting succeeds exactly if nothing can stop it at any node.\<close>

lemma Emulator_Start_outcome:
  assumes "startable em"
  shows "(case Emulator_Start L em of
      Inl e \<Rightarrow> \<exists>n nd. map_of (emNodeTable em) n = Some nd \<and> start_error L n nd e
    | Inr w \<Rightarrow> \<forall>n nd e. map_of (emNodeTable em) n = Some nd \<longrightarrow> \<not> start_error L n nd e)"
proof -
  let ?ns = "map fst (emNodeTable em)"
  have "distinct ?ns" using assms by (auto simp: startable_def emulator_ok_def dest: om.ok_distinct)
  note outcomes = Start_outcomes[OF world_ok_new[OF assms] this, of L]
  have mem: "n \<in> set ?ns \<longleftrightarrow> map_of (emNodeTable em) n \<noteq> None" for n
    by (simp add: map_of_eq_None_iff)
  show ?thesis
    using outcomes mem
    by (cases "Emulator_Start L em") (fastforce simp: Emulator_Start_def World_new_def)+
qed

lemma read_startable:
  assumes "\<forall>links \<in> set (ptChildren config). \<forall>ls \<in> set (ptChildren (snd links)).
      \<forall>v \<in> set (ptChildren (snd ls)). rate_ok C v"
    and "Emulator_ReadNetworkConfig L C R seed config Emulator_new = Inr em"
  shows "startable em"
proof -
  obtain mac where "emulator_ok em" and macs: "macs_ok em mac" using ReadNetworkConfig_reads[OF assms] by blast
  moreover have "idle dv" if "device_of n d em = Some dv" for n d dv
    using macs that unfolding macs_ok_def by blast
  ultimately show ?thesis by (simp add: startable_def)
qed

section \<open>Which handlers can fail\<close>

definition packet_errors :: "error set" where
  "packet_errors = {decoding_error, unknown_packet_type, out_of_range}"

definition illegal_rx :: error where
  "illegal_rx = RuntimeError ''[LinkDevice::PostRx] illegal state: TX''"

lemma on_node_raises:
  assumes "on_node n handler w = Inl e" and "map_of (emNodeTable (wEm w)) n = Some nd"
  shows "handler (wHeap w) nd = Inl e"
  using assms by (auto simp: on_node_def and_then_Inl_iff)

lemma on_device_raises:
  assumes "Node_on_device d handler nd = Inl e" and "map_of (ndDeviceTable nd) d = Some dv"
  shows "handler dv nd = Inl e"
  using assms by (auto simp: Node_on_device_def Node_GetDevice_def and_then_Inl_iff)

lemma device_handler_raises:
  assumes "on_node n (\<lambda>h. keep_heap (\<lambda>nd. Node_on_device d (f h) nd) h) w = Inl e"
    and "device_of n d (wEm w) = Some dv"
  obtains nd where "map_of (emNodeTable (wEm w)) n = Some nd" and "map_of (ndDeviceTable nd) d = Some dv"
    and "f (wHeap w) dv nd = Inl e"
proof -
  obtain nd where nd: "map_of (emNodeTable (wEm w)) n = Some nd" "map_of (ndDeviceTable nd) d = Some dv"
    using assms(2) by (auto simp: device_of_def split: option.splits)
  have "keep_heap (\<lambda>nd. Node_on_device d (f (wHeap w)) nd) (wHeap w) nd = Inl e"
    by (rule on_node_raises[OF assms(1) nd(1)])
  then have "f (wHeap w) dv nd = Inl e"
    using on_device_raises[OF _ nd(2)] by (auto simp: keep_heap_def and_then_Inl_iff)
  with nd that show thesis by blast
qed

lemma world_device_ok:
  assumes "emulator_ok (wEm w)" and "device_of n d (wEm w) = Some dv"
  shows "device_ok dv"
proof -
  obtain nd where nd: "map_of (emNodeTable (wEm w)) n = Some nd" "map_of (ndDeviceTable nd) d = Some dv"
    using assms(2) by (auto simp: device_of_def split: option.splits)
  then have "node_ok nd" using emulator_okD(1)[OF assms(1)] by blast
  from tables_ok_device(3)[OF node_okD(1)[OF this] nd(2)] show ?thesis .
qed

lemma world_device_live:
  assumes "world_ok w" and "device_of n d (wEm w) = Some dv"
  shows "device_live dv (length (wHeap w)) (ready_count (CsmaTimer n d) w) (waiting (CsmaTimer n d) w)"
proof -
  obtain nd where nd: "map_of (emNodeTable (wEm w)) n = Some nd" "map_of (ndDeviceTable nd) d = Some dv"
    using assms(2) by (auto simp: device_of_def split: option.splits)
  have "live_at n nd w" by (rule world_okD(2)[OF assms(1) nd(1)])
  with nd(2) show ?thesis unfolding live_at_def node_live_def by blast
qed

lemma PostRx_raises:
  assumes ok: "emulator_ok (wEm w)" and dev: "device_of n d (wEm w) = Some dv"
    and nd: "map_of (emNodeTable (wEm w)) n = Some nd"
    and run: "on_node n (\<lambda>h. keep_heap (Node_PostRx h err d) h) w = Inl e"
  shows "\<not> err \<and> (dvState dv = TX \<and> e = illegal_rx \<or>
    dvState dv = RX \<and> 2 ^ 31 - 1 \<le> ndFaceCounter nd \<and> e = int_overflow)"
proof -
  have "device_ok dv" by (rule world_device_ok[OF ok dev])
  moreover have "LinkDevice_PostRx Node_AddLinkFace err (wHeap w) dv nd = Inl e"
    using run dev unfolding Node_PostRx_def by (rule device_handler_raises) (use nd in simp)
  ultimately show ?thesis
    using node.PostRx_fails[of dv err "wHeap w" nd e] by (auto simp: AddLinkFace_total(2) illegal_rx_def)
qed

lemma device_handler_split:
  "(\<lambda>(dv', io). Inr (dv', nd, io)) x \<noteq> Inl e"
  by (cases x) simp

lemma DoCsma_total:
  assumes ok: "emulator_ok (wEm w)" and dev: "device_of n d (wEm w) = Some dv" and q: "\<not> err \<longrightarrow> dvTxQueue dv \<noteq> []"
  shows "on_node n (\<lambda>h. keep_heap (Node_DoCsma R h NB BE err d) h) w \<noteq> Inl e"
proof
  assume run: "on_node n (\<lambda>h. keep_heap (Node_DoCsma R h NB BE err d) h) w = Inl e"
  have dvok: "device_ok dv" by (rule world_device_ok[OF ok dev])
  have "LinkDevice_DoCsma R NB BE err (wHeap w) dv = Inl e"
    using run dev unfolding Node_DoCsma_def
    by (rule device_handler_raises) (auto simp: and_then_Inl_iff device_handler_split)
  moreover have "\<exists>s. LinkDevice_DoCsma R NB BE err (wHeap w) dv = Inr s"
  proof (cases err)
    case False
    then show ?thesis
      using DoCsma_cases[OF dvok, of R NB BE "wHeap w"] q by metis
  qed (simp add: LinkDevice_DoCsma_def)
  ultimately show False by auto
qed

lemma StartRx_total:
  assumes ok: "emulator_ok (wEm w)" and dev: "device_of n d (wEm w) = Some dv"
  shows "on_node n (\<lambda>h. keep_heap (Node_StartRx h p d) h) w \<noteq> Inl e"
proof
  assume run: "on_node n (\<lambda>h. keep_heap (Node_StartRx h p d) h) w = Inl e"
  have "LinkDevice_StartRx (wHeap w) p dv = Inl e"
    using run dev unfolding Node_StartRx_def
    by (rule device_handler_raises) (auto simp: and_then_Inl_iff device_handler_split)
  then show False
    using StartRx_cases[OF world_device_ok[OF ok dev], of "wHeap w" p] by (metis Inl_Inr_False)
qed

lemma StartRx_devices:
  assumes ok: "world_ok w" and run: "on_node n (\<lambda>h. keep_heap (Node_StartRx h p d) h) w = Inr w'"
  shows "device_of m e (wEm w') = None \<longleftrightarrow> device_of m e (wEm w) = None"
proof -
  from run obtain nd h' nd' out where nd: "map_of (emNodeTable (wEm w)) n = Some nd"
    and res: "keep_heap (Node_StartRx (wHeap w) p d) (wHeap w) nd = Inr (h', nd', out)"
    by (rule on_node_cases)
  have rx: "Node_StartRx (wHeap w) p d nd = Inr (nd', out)" using keep_heap_cases[OF res] by simp
  have "node_ok nd" using world_okD(3)[OF ok nd] by simp
  then have "map_of (ndDeviceTable nd') x = None \<longleftrightarrow> map_of (ndDeviceTable nd) x = None" for x
    using rx by (rule StartRx_dev) (auto simp: kv_simps)
  moreover have "wEm w' = with_node n nd' (wEm w)"
    using run nd res by (auto simp: on_node_def requests_fields)
  ultimately show ?thesis using nd by (simp add: device_of_put_node) (simp add: device_of_def)
qed

lemma Transmit_total:
  assumes ok: "world_ok w" and p: "p < length (wHeap w)" and lk: "map_of (emLinkTable (wEm w)) l \<noteq> None"
  shows "\<exists>w'. World_Transmit R l n p w = Inr w'"
proof -
  obtain lk where lk: "map_of (emLinkTable (wEm w)) l = Some lk" using lk by blast
  have "link_ok lk" using emulator_okD(2)[OF world_okD(4)[OF ok] lk] by simp
  then obtain rx nbs where tr: "Link_Transmit R n lk = Inr (rx, lk\<lparr>lnkMatrix := om_put n nbs (lnkMatrix lk)\<rparr>)"
    and lkok: "link_ok (lk\<lparr>lnkMatrix := om_put n nbs (lnkMatrix lk)\<rparr>)"
    and rx: "\<forall>d \<in> set rx. map_of (lnkNodeTable lk) (fst d) = Some (snd d)"
    by (rule Transmit_ok)
  let ?w = "w\<lparr>wEm := (wEm w)\<lparr>emLinkTable :=
      om_put l (lk\<lparr>lnkMatrix := om_put n nbs (lnkMatrix lk)\<rparr>) (emLinkTable (wEm w))\<rparr>\<rparr>"
  let ?I = "\<lambda>v. world_ok v \<and> p < length (wHeap v) \<and>
      (\<forall>m e. device_of m e (wEm v) = None \<longleftrightarrow> device_of m e (wEm w) = None)"
  have "?I ?w" using put_link_world[OF ok lk lkok] p by simp
  then have "\<exists>w'. each (\<lambda>(m, d). on_node m (\<lambda>h. keep_heap (Node_StartRx h p d) h)) rx ?w = Inr w' \<and> ?I w'"
  proof (rule each_total)
    fix x and v :: "'a world"
    assume x: "x \<in> set rx" and v: "?I v"
    obtain m d where md: "x = (m, d)" by (cases x)
    have "map_of (lnkNodeTable lk) m = Some d" using rx x md by fastforce
    then have "device_of m d (wEm w) \<noteq> None" using emulator_okD(3)[OF world_okD(4)[OF ok] lk] by blast
    then obtain dv where "device_of m d (wEm v) = Some dv" using v by (metis not_None_eq)
    note nofail = StartRx_total[OF world_okD(4) this]
    obtain v' where run: "on_node m (\<lambda>h. keep_heap (Node_StartRx h p d) h) v = Inr v'"
      using nofail v by (cases "on_node m (\<lambda>h. keep_heap (Node_StartRx h p d) h) v") simp_all
    from StartRx_world[OF _ _ run] StartRx_heap[OF run] StartRx_devices[OF _ run] v
    show "\<exists>v'. (case x of (m, d) \<Rightarrow> on_node m (\<lambda>h. keep_heap (Node_StartRx h p d) h)) v = Inr v' \<and> ?I v'"
      unfolding md prod.case run by (intro exI[of _ v']) simp
  qed
  then show ?thesis using lk tr by (auto simp: World_Transmit_def)
qed

lemma run_task_raises:
  assumes ok: "world_ok w" and laws: "name_laws L" "control_laws L"
    and ready: "wReady w = t # ts" and run: "run_task L R t (w\<lparr>wReady := ts\<rparr>) = Inl e"
  shows "(\<exists>n d nd dv. t = RunPostRx n d False \<and> map_of (emNodeTable (wEm w)) n = Some nd \<and>
      map_of (ndDeviceTable nd) d = Some dv \<and>
      (dvState dv = TX \<and> e = illegal_rx \<or>
       dvState dv = RX \<and> 2 ^ 31 - 1 \<le> ndFaceCounter nd \<and> e = int_overflow)) \<or>
    (\<exists>n f wire. t = RunDispatch n f wire) \<and> e \<in> packet_errors"
proof -
  let ?w = "w\<lparr>wReady := ts\<rparr>"
  have task: "task_ok (wEm w) (length (wHeap w)) t" by (rule pop_base(2)[OF world_okD(1)[OF ok] ready])
  have em: "emulator_ok (wEm ?w)" using world_okD(4)[OF ok] by simp
  show ?thesis
  proof (cases t)
    case (RunPostRx n d err)
    then obtain dv where dev: "device_of n d (wEm ?w) = Some dv" using task by auto
    then obtain nd where nd: "map_of (emNodeTable (wEm ?w)) n = Some nd" "map_of (ndDeviceTable nd) d = Some dv"
      by (auto simp: device_of_def split: option.splits)
    from PostRx_raises[OF em dev nd(1)] nd run RunPostRx show ?thesis by auto
  next
    case (RunDoCsma n d NB BE err)
    then obtain dv where dev: "device_of n d (wEm ?w) = Some dv" using task by auto
    have "dvTxQueue dv \<noteq> []" if "\<not> err"
    proof -
      have "ready_count (CsmaTimer n d) w \<noteq> 0" using ready RunDoCsma that by (simp add: ready_count_def)
      then show ?thesis
        using world_device_live[OF ok, of n d dv] dev by (auto simp: device_live_def csma_live_def)
    qed
    then show ?thesis using DoCsma_total[OF em dev] run RunDoCsma by simp
  next
    case (RunPitCleanUp n err)
    then obtain nd where "map_of (emNodeTable (wEm w)) n = Some nd" using task by auto
    then show ?thesis using run RunPitCleanUp by (auto simp: on_node_def keep_heap_def split: prod.splits)
  next
    case (RunTransmit l n p)
    then have "world_ok ?w" using pop_ok[OF ok ready] by simp
    with Transmit_total[of ?w p l R n] task run RunTransmit show ?thesis by auto
  next
    case (RunDispatch n f wire)
    then obtain nd where nd: "map_of (emNodeTable (wEm w)) n = Some nd" using task by auto
    then have "node_ok nd" using world_okD(3)[OF ok] by blast
    from Dispatch_raises[OF this laws] on_node_raises[of n _ ?w e nd] nd run RunDispatch
    show ?thesis by (auto simp: packet_errors_def)
  qed
qed

lemma accept_raises:
  assumes "map_of (emNodeTable (wEm w)) n = Some nd"
  shows "run_accept n f err w = Inl e \<longleftrightarrow> 2 ^ 31 - 1 \<le> ndFaceCounter nd \<and> e = int_overflow"
  using assms
  by (auto simp: run_accept_def on_node_def keep_heap_def and_then_Inl_iff HandleAccept_raises split: prod.splits)

lemma receive_raises:
  assumes ok: "world_ok w" and laws: "name_laws L" "control_laws L" "block_laws L" "0 < maxPacketSize L"
    and mem: "(n, f) \<in> set (wReceives w)"
    and run: "run_receive L R n f err rcv (w\<lparr>wReceives := remove1 (n, f) (wReceives w)\<rparr>) = Inl e"
  shows "\<not> err \<and> e \<in> insert too_large packet_errors"
proof -
  let ?w = "w\<lparr>wReceives := remove1 (n, f) (wReceives w)\<rparr>"
  have "map_of (emNodeTable (wEm w)) (fst (n, f)) \<noteq> None"
    using world_okD(1)[OF ok] mem unfolding world_base_def by blast
  then obtain nd where nd: "map_of (emNodeTable (wEm w)) n = Some nd" by auto
  have ndok: "node_ok nd" using world_okD(3)[OF ok nd] by simp
  have f: "f \<in> set (of_node n (wReceives w))" using mem by (simp add: set_of_node)
  then have app: "is_app_face nd f" and fm: "ndFibManager nd \<noteq> None"
    using world_okD(2)[OF ok nd] by (auto simp: live_at_def node_live_def)
  then obtain af where af: "map_of (ndFaceTable nd) f = Some (AppFc af)"
    by (auto simp: is_app_face_def split: option.splits face.splits)
  have raise: "(case Node_HandleReceive L R (wNow w) f err rcv (wHeap w, nd, []) of
      None \<Rightarrow> Inl (UndefinedBehaviour ''endless loop'') | Some r \<Rightarrow> r) = Inl e"
    using on_node_raises[OF run[unfolded run_receive_def]] nd by simp
  let ?hr = "AppFace_HandleReceive L (Face_Dispatch L R (wNow w) f) (remove_face f) err rcv af (wHeap w, nd, [])"
  have rm: "remove_face f s \<noteq> Inl x" if "ndFibManager (fst (snd s)) \<noteq> None" for s :: "'a node_state" and x
    using that by (cases s) (auto simp: remove_face_def Node_RemoveFace_def)
  have "?hr \<noteq> None"
  proof (cases err)
    case False
    then show ?thesis by (simp add: HandleReceive_absorb[OF laws(3,4)])
  qed (simp add: AppFace_HandleReceive_def)
  then obtain r where r: "?hr = Some r" by blast
  have "r = Inl e"
    using raise r af by (cases r) (auto simp: Node_HandleReceive_def split: prod.splits option.splits)
  have notErr: "\<not> err"
    using r \<open>r = Inl e\<close> rm[of "(wHeap w, nd, [])"] fm by (auto simp: AppFace_HandleReceive_def and_then_Inl_iff)
  have "e = too_large \<or> remove_face f (wHeap w, nd, []) = Inl e \<or>
      (\<exists>wire s. node_ok (fst (snd s)) \<and> is_app_face (fst (snd s)) f \<and> Face_Dispatch L R (wNow w) f wire s = Inl e)"
    using app.HandleReceive_raises[of "(wHeap w, nd, [])" f L L R "wNow w" err rcv af e] ndok app r \<open>r = Inl e\<close>
    by simp
  then show ?thesis
    using rm[of "(wHeap w, nd, [])"] fm notErr
    by (auto simp: packet_errors_def dest: Dispatch_raises[OF _ laws(1,2)])
qed

text \<open>The configurations that give no link the rate 0.\<close>

definition rates_ok :: "conv \<Rightarrow> ptree \<Rightarrow> bool" where
  "rates_ok C config \<longleftrightarrow> (\<forall>links \<in> set (ptChildren config). \<forall>ls \<in> set (ptChildren (snd links)).
     \<forall>v \<in> set (ptChildren (snd ls)). rate_ok C v)"

lemma run_world:
  assumes "rates_ok C config" and "Emulator_ReadNetworkConfig L C R seed config Emulator_new = Inr em"
    and "reachable L R em w"
  shows "world_ok w"
  using reachable_world[OF assms(3)] read_startable assms(1,2) unfolding rates_ok_def by blast

end
