(* ===== verification/Schedule.thy ===== *)
theory Schedule
  imports Reachable
begin

text \<open>
  Schedules of the emulator: \<open>perform\<close> executes one step that is chosen by name, so that a list
  of actions is a schedule of the io service together with what applications do, and the state
  it leads to can be computed. Schedules lead to exactly the reachable states.
\<close>

datatype action =
    Run
  | Fire timer
  | Tick time
  | Accept string int
  | Receive string int bytes
  | Close string int

definition not_enabled :: "'a result" where
  "not_enabled = Inl (InvalidArgument ''action not enabled'')"

fun perform :: "('n, 'c) ndn \<Rightarrow> rng \<Rightarrow> action \<Rightarrow> 'n world \<Rightarrow> 'n world result" where
  "perform L R Run w =
     (case wReady w of [] \<Rightarrow> not_enabled | t # ts \<Rightarrow> run_task L R t (w\<lparr>wReady := ts\<rparr>))"
| "perform L R (Fire tm) w =
     (case map_of (wTimers w) tm of
        None \<Rightarrow> not_enabled
      | Some (expiry, t) \<Rightarrow>
          if expiry \<le> wNow w \<and> may_fire tm w
          then Inr (w\<lparr>wTimers := kv_erase tm (wTimers w), wReady := wReady w @ [t]\<rparr>) else not_enabled)"
| "perform L R (Tick now) w = (if wNow w \<le> now then Inr (w\<lparr>wNow := now\<rparr>) else not_enabled)"
| "perform L R (Accept n f) w =
     (if (n, f) \<in> set (wAccepts w)
      then run_accept n f False (w\<lparr>wAccepts := remove1 (n, f) (wAccepts w)\<rparr>) else not_enabled)"
| "perform L R (Receive n f bs) w =
     (if (n, f) \<in> set (wReceives w)
      then run_receive L R n f False bs (w\<lparr>wReceives := remove1 (n, f) (wReceives w)\<rparr>) else not_enabled)"
| "perform L R (Close n f) w =
     (if (n, f) \<in> set (wReceives w)
      then run_receive L R n f True [] (w\<lparr>wReceives := remove1 (n, f) (wReceives w)\<rparr>) else not_enabled)"

lemma perform_step: "perform L R a w = Inr w' \<Longrightarrow> step L R w w'"
  by (cases a) (auto simp: not_enabled_def intro: step.intros split: list.splits option.splits if_splits)

lemma perform_reachable:
  assumes "Emulator_Start L em = Inr w0" and "each (perform L R) as w0 = Inr w"
  shows "reachable L R em w"
  by (rule each_invariant[OF assms(2), where I = "reachable L R em"])
    (auto intro: reachable.intros perform_step assms(1))

text \<open>
  Every step is performed by some action: an accept is handled in the same way with an error, and
  a read with an error does not look at the bytes.
\<close>

lemma accept_error: "run_accept n f err = run_accept n f False"
  proof -
  have eq: "Node_HandleAccept f err = Node_HandleAccept f False"
    by (rule ext) (simp add: Node_HandleAccept_def)
  show ?thesis by (rule ext) (simp only: run_accept_def eq)
qed

lemma receive_error: "run_receive L R n f True bs = run_receive L R n f True []"
proof -
  have "Node_HandleReceive L R now f True bs s = Node_HandleReceive L R now f True [] s" for now s
    by (simp add: Node_HandleReceive_def AppFace_HandleReceive_def split: option.split face.split)
  then show ?thesis by (simp add: run_receive_def fun_eq_iff)
qed

lemma step_perform: "step L R w w' \<Longrightarrow> \<exists>a. perform L R a w = Inr w'"
proof (induction rule: step.induct)
  case (run w t ts w')
  then show ?case by (intro exI[of _ Run]) simp
next
  case (fire w tm expiry t)
  then show ?case by (intro exI[of _ "Fire tm"]) simp
next
  case (tick w now)
  then show ?case by (intro exI[of _ "Tick now"]) simp
next
  case (accept n f w err w')
  then show ?case unfolding accept_error[of n f err] by (intro exI[of _ "Accept n f"]) simp
next
  case (receive n f w err bs w')
  then show ?case
    using receive_error[of L R n f bs]
    by (intro exI[of _ "if err then Close n f else Receive n f bs"]) (cases err, simp_all)
qed

lemma reachable_schedule:
  "reachable L R em w \<longleftrightarrow> (\<exists>w0 as. Emulator_Start L em = Inr w0 \<and> each (perform L R) as w0 = Inr w)"
proof
  show "\<exists>w0 as. Emulator_Start L em = Inr w0 \<and> each (perform L R) as w0 = Inr w" if "reachable L R em w"
    using that
  proof (induction rule: reachable.induct)
    case (start w)
    then show ?case by (intro exI[of _ w] exI[of _ "[]"]) simp
  next
    case (next_step w w')
    then obtain w0 as a where "Emulator_Start L em = Inr w0" "each (perform L R) as w0 = Inr w"
      "perform L R a w = Inr w'" using step_perform by blast
    then show ?case by (intro exI[of _ w0] exI[of _ "as @ [a]"]) (simp add: each_append)
  qed
qed (auto intro: perform_reachable)

text \<open>
  What a transmission keeps: it advances the generators of the link, and starts a reception at
  each device that the frame reaches.
\<close>

lemma Transmit_invariant:
  assumes "World_Transmit R l n p w = Inr w'" and "I w"
    and links: "\<And>w ls. I w \<Longrightarrow> I (w\<lparr>wEm := (wEm w)\<lparr>emLinkTable := ls\<rparr>\<rparr>)"
    and rx: "\<And>m d w w'. I w \<Longrightarrow> on_node m (\<lambda>h. keep_heap (Node_StartRx h p d) h) w = Inr w' \<Longrightarrow> I w'"
  shows "I w'"
proof -
  from assms(1) obtain devices ls where
    each: "each (\<lambda>(m, d). on_node m (\<lambda>h. keep_heap (Node_StartRx h p d) h)) devices
        (w\<lparr>wEm := (wEm w)\<lparr>emLinkTable := ls\<rparr>\<rparr>) = Inr w'"
    by (auto simp: World_Transmit_def and_then_Inr_iff split: option.splits)
  show ?thesis by (rule each_invariant[OF each, where I = I]) (use links assms(2) rx in auto)
qed

end
