(* ===== verification/Scenario.thy ===== *)
theory Scenario
  imports Schedule
begin

text \<open>
  Runs of the emulator from a configuration of two nodes; they show that the theorems about
  reachable states apply to real runs, and that a reception can end in the wrong state.
\<close>

section \<open>Two nodes on a link\<close>

definition duo_config :: ptree where
  "duo_config =
     (let node = (\<lambda>n m. (''Node'', PTree [] [leaf ''Id'' n, leaf ''Path'' n,
        (''Devices'', PTree [] [(''Device'', PTree [] [leaf ''DeviceId'' ''d'', leaf ''LinkId'' ''l0''])]),
        (''Routes'', PTree [] [(''Route'', PTree [] [leaf ''Prefix'' ''/x'', leaf ''Interface'' ''d'',
           leaf ''Nexthop'' m])])]))
      in PTree [] [(''Config'', PTree [] [(''Links'', PTree [] sample_links),
           (''Nodes'', PTree [] [node ''A'' ''B'', node ''B'' ''A'']),
           (''Matrices'', PTree [] sample_matrices)])])"

definition duo_lib :: "(string list, string) ndn" where
  "duo_lib = list_ndn [(ask [''x''] 1 1000, [5, 1, 1]), (ask [''x''] 2 1000, [5, 1, 2]),
     (ask [''x''] 3 1000, [5, 1, 3])] [] []"

definition duo_seed :: "int \<Rightarrow> nat" where
  "duo_seed mac = (if mac = 1 then 6 else 1)"

definition duo_device :: "string \<Rightarrow> 64 word \<Rightarrow> nat \<Rightarrow> device" where
  "duo_device n mac g = \<lparr>dvId = ''d'', dvMac = mac, dvNodeId = n,
     dvLink = \<lparr>lnkId = ''l0'', lnkTxRate = 40, lnkMtu = 8800\<rparr>, dvState = IDLE, dvPendingRx = None,
     dvTxQueue = [], dvTxLimit = 5, dvEngine = g,
     dvFaces = [(0xffff, \<lparr>lfId = 1, lfRemoteMac = 0xffff, lfDevice = ''d''\<rparr>)]\<rparr>"

text \<open>A node as it is configured, and when it is started and has an application on face 3.\<close>

definition duo_node :: "string \<Rightarrow> 64 word \<Rightarrow> 64 word \<Rightarrow> nat \<Rightarrow> string list node" where
  "duo_node n mac peer g = \<lparr>ndId = n, ndPath = n, ndIsListening = False, ndFaceCounter = 3,
     ndFaceTable = [(1, LinkFc \<lparr>lfId = 1, lfRemoteMac = 0xffff, lfDevice = ''d''\<rparr>),
       (2, LinkFc \<lparr>lfId = 2, lfRemoteMac = peer, lfDevice = ''d''\<rparr>)],
     ndDeviceTable = [(''d'', duo_device n mac g)], ndPit = Pit_new 10000000000, ndFib = [([''x''], [2])],
     ndFibManager = None, ndCacheManager = CacheManager_new 102400\<rparr>"

definition duo_used_node :: "string \<Rightarrow> 64 word \<Rightarrow> 64 word \<Rightarrow> device \<Rightarrow> string list pit \<Rightarrow> string list node" where
  "duo_used_node n mac peer dv pit = (duo_node n mac peer 0)\<lparr>ndIsListening := True, ndFaceCounter := 5,
     ndFaceTable := [(1, LinkFc \<lparr>lfId = 1, lfRemoteMac = 0xffff, lfDevice = ''d''\<rparr>),
       (2, LinkFc \<lparr>lfId = 2, lfRemoteMac = peer, lfDevice = ''d''\<rparr>), (3, AppFc (AppFace_new 3))],
     ndDeviceTable := [(''d'', dv)], ndPit := pit,
     ndFib := [([''x''], [2]), ([''localhost'', ''nfd'', ''rib''], [0])],
     ndFibManager := Some \<lparr>fmId = 0, fmCmdPrefix = [''localhost'', ''nfd'', ''rib'']\<rparr>\<rparr>"

definition duo_link :: "nat \<Rightarrow> link" where
  "duo_link g = \<lparr>lnkId = ''l0'', lnkTxRate = 40, lnkMtu = 8800, lnkNodeTable = [(''A'', ''d''), (''B'', ''d'')],
     lnkMatrix = [(''A'', [(''B'', \<lparr>laRate = 0, laEngine = g\<rparr>)]), (''B'', [(''A'', \<lparr>laRate = 0, laEngine = 0\<rparr>)])]\<rparr>"

definition duo_em :: "string list emulator" where
  "duo_em = \<lparr>emNodeTable = [(''A'', duo_node ''A'' 1 2 6), (''B'', duo_node ''B'' 2 1 1)],
     emLinkTable = [(''l0'', duo_link 0)]\<rparr>"

lemma duo_read:
  "Emulator_ReadNetworkConfig duo_lib config_conv counting_rng duo_seed duo_config Emulator_new = Inr duo_em"
  by code_simp

text \<open>
  The application of A sends two Interests for \<open>/x\<close> in one read; A's device sends the first
  of them, whose reception begins at B.
\<close>

definition duo_pit :: "string list pit" where
  "duo_pit = \<lparr>pTable = [([''x''], \<lparr>peInterest = ask [''x''] 1 1000,
     peNonceTable = [(1, \<lparr>frFaceId = 3, frExpire = 1000\<rparr>), (2, \<lparr>frFaceId = 3, frExpire = 1000\<rparr>)]\<rparr>)],
     pCleanupInterval = 10000000000\<rparr>"

definition duo_sending :: "string list world" where
  "duo_sending = \<lparr>wEm = \<lparr>emNodeTable =
       [(''A'', duo_used_node ''A'' 1 2 ((duo_device ''A'' 1 8)\<lparr>dvState := TX, dvTxQueue := [0, 1]\<rparr>) duo_pit),
        (''B'', duo_used_node ''B'' 2 1 ((duo_device ''B'' 2 1)\<lparr>dvState := RX, dvPendingRx := Some 0\<rparr>)
           (Pit_new 10000000000))],
       emLinkTable = [(''l0'', duo_link 1)]\<rparr>,
     wHeap = [\<lparr>pktDst = 2, pktSrc = 1, pktWire = [5, 1, 1]\<rparr>, \<lparr>pktDst = 2, pktSrc = 1, pktWire = [5, 1, 2]\<rparr>],
     wNow = 2240000, wReady = [],
     wTimers = [(PitTimer ''A'', 10000000000, RunPitCleanUp ''A'' False),
       (PitTimer ''B'', 10000000000, RunPitCleanUp ''B'' False),
       (CsmaTimer ''A'' ''d'', 2825000, RunDoCsma ''A'' ''d'' (- 1) (- 1) False),
       (RxTimer ''B'' ''d'', 2825000, RunPostRx ''B'' ''d'' False)],
     wAccepts = [(''A'', 4), (''B'', 4)], wReceives = [(''B'', 3), (''A'', 3)], wSent = []\<rparr>"

lemma duo_run:
  "and_then (Emulator_Start duo_lib duo_em) (each (perform duo_lib counting_rng)
     [Accept ''A'' 3, Accept ''B'' 3, Receive ''A'' 3 [5, 1, 1, 5, 1, 2], Run,
      Tick 2240000, Fire (CsmaTimer ''A'' ''d''), Run, Run]) = Inr duo_sending"
  by code_simp

lemma duo_reachable: "reachable duo_lib counting_rng duo_em duo_sending"
  by (rule and_thenE[OF duo_run]) (rule perform_reachable)

text \<open>
  When A has sent the first packet its backoff for the second is 0. The end of the reception
  at B and the second transmission are queued one after the other. An application of B sends
  an Interest meanwhile, for which B finds the channel clear.
\<close>

definition raises :: "error \<Rightarrow> 'a result \<Rightarrow> bool" where
  "raises e r = (case r of Inl e' \<Rightarrow> e' = e | Inr _ \<Rightarrow> False)"

definition stale_actions :: "action list" where
  "stale_actions = [Tick 2825000, Fire (CsmaTimer ''A'' ''d''), Run, Fire (CsmaTimer ''A'' ''d''), Run,
     Fire (RxTimer ''B'' ''d''), Run, Run, Receive ''B'' 3 [5, 1, 3],
     Tick 3145000, Fire (CsmaTimer ''B'' ''d''), Run, Run, Tick 3410000, Fire (RxTimer ''B'' ''d'')]"

lemma stale_run:
  "case each (perform duo_lib counting_rng) stale_actions duo_sending of Inl e \<Rightarrow> False
   | Inr w \<Rightarrow> wReady w = [RunPostRx ''B'' ''d'' False] \<and>
       raises illegal_rx (run_task duo_lib counting_rng (RunPostRx ''B'' ''d'' False) (w\<lparr>wReady := []\<rparr>))"
  by code_simp

section \<open>Properties\<close>

text \<open>
  C7: Whatever the applications send, the packets collide and the timers do, every state the
  emulator reaches from a configuration is well formed: the tables of every node and link,
  no handler refers to a node, device, link or packet that does not exist, the pending accept
  of a node is for an unused face id and every pending receive is of an application face, and
  the CSMA timer of every device is live.
\<close>

theorem reachable_well_formed:
  assumes "rates_ok C config" and "Emulator_ReadNetworkConfig L C R seed config Emulator_new = Inr em"
    and "reachable L R em w"
  shows "world_ok w"
  using run_world[OF assms] .


text \<open>
  C16: No packet is stranded: as long as a device has packets to send, a \<open>DoCsma\<close> of that device
  is queued or waits for its timer, at most one of each, and never more of them than packets
  in the queue.
\<close>

theorem queued_packets_progress:
  assumes "rates_ok C config" and "Emulator_ReadNetworkConfig L C R seed config Emulator_new = Inr em"
    and "reachable L R em w" and "device_of n d (wEm w) = Some dv" and "dvTxQueue dv \<noteq> []"
  shows "((\<exists>NB BE. RunDoCsma n d NB BE False \<in> set (wReady w)) \<or>
      (\<exists>expiry NB BE. map_of (wTimers w) (CsmaTimer n d) = Some (expiry, RunDoCsma n d NB BE False))) \<and>
    length (filter (\<lambda>t. \<exists>NB BE. t = RunDoCsma n d NB BE False) (wReady w)) \<le> 1 \<and>
    length (filter (\<lambda>t. \<exists>NB BE. t = RunDoCsma n d NB BE False) (wReady w)) +
      (if map_of (wTimers w) (CsmaTimer n d) = None then 0 else 1) \<le> length (dvTxQueue dv)"
proof -
  note ok = run_world[OF assms(1-3)]
  have csma: "completed t = Some (CsmaTimer n d) \<longleftrightarrow> (\<exists>NB BE. t = RunDoCsma n d NB BE False)" for t
    by (cases t) (auto split: if_splits)
  have live: "csma_live (length (dvTxQueue dv)) (ready_count (CsmaTimer n d) w) (waiting (CsmaTimer n d) w)"
    using world_device_live[OF ok assms(4)] by (simp add: device_live_def)
  have timer: "\<exists>expiry NB BE. map_of (wTimers w) (CsmaTimer n d) = Some (expiry, RunDoCsma n d NB BE False)"
    if "waiting (CsmaTimer n d) w"
  proof -
    from that obtain x where x: "map_of (wTimers w) (CsmaTimer n d) = Some x" by (auto simp: waiting_def)
    obtain e t where xt: "x = (e, t)" by (cases x)
    have "tasks_ok w" using world_okD(1)[OF ok] by (simp add: world_base_def)
    then have "completed t = Some (CsmaTimer n d)" using x xt by (auto simp: tasks_ok_def dest!: map_of_SomeD)
    with csma x xt show ?thesis by auto
  qed
  have ready: "ready_count (CsmaTimer n d) w = length (filter (\<lambda>t. \<exists>NB BE. t = RunDoCsma n d NB BE False) (wReady w))"
    by (simp add: ready_count_def csma)
  have "\<exists>NB BE. RunDoCsma n d NB BE False \<in> set (wReady w)" if "ready_count (CsmaTimer n d) w \<noteq> 0"
    using that unfolding ready by (auto simp: filter_empty_conv)
  then show ?thesis
    using live timer assms(5) unfolding csma_live_def ready[symmetric] by (auto simp: waiting_def)
qed


text \<open>
  C20: The reception failure does happen: from a configuration of two nodes on a loss-free link,
  with three Interests from two applications, the emulator reaches a state in which the next
  handler is the \<open>PostRx\<close> of a reception that collided and ended, while the device transmits,
  and raises. The comment in \<open>PostRx\<close> describes the late handler for the state IDLE only.
\<close>

theorem stale_reception_stops_emulator:
  "\<exists>w ts. Emulator_ReadNetworkConfig duo_lib config_conv counting_rng duo_seed duo_config Emulator_new = Inr duo_em \<and>
     reachable duo_lib counting_rng duo_em w \<and> wReady w = RunPostRx ''B'' ''d'' False # ts \<and>
     run_task duo_lib counting_rng (RunPostRx ''B'' ''d'' False) (w\<lparr>wReady := ts\<rparr>) = Inl illegal_rx"
proof -
  obtain w where run: "each (perform duo_lib counting_rng) stale_actions duo_sending = Inr w"
    and ready: "wReady w = [RunPostRx ''B'' ''d'' False]"
    and "raises illegal_rx (run_task duo_lib counting_rng (RunPostRx ''B'' ''d'' False) (w\<lparr>wReady := []\<rparr>))"
    using stale_run by (auto split: sum.splits)
  then have "run_task duo_lib counting_rng (RunPostRx ''B'' ''d'' False) (w\<lparr>wReady := []\<rparr>) = Inl illegal_rx"
    by (auto simp: raises_def split: sum.splits)
  moreover have "reachable duo_lib counting_rng duo_em w"
    by (rule each_invariant[OF run, where I = "reachable duo_lib counting_rng duo_em"])
      (auto intro: duo_reachable reachable.next_step perform_step)
  ultimately show ?thesis using duo_read ready by blast
qed

section \<open>Witnesses\<close>

lemma duo_rates: "rates_ok config_conv duo_config"
  by (simp add: rates_ok_def rate_ok_def get_optional_def config_conv_def duo_config_def sample_links_def
      sample_matrices_def leaf_def Let_def)

theorem reachable_well_formed_witness: "world_ok duo_sending"
  by (rule reachable_well_formed[OF duo_rates duo_read duo_reachable])


theorem queued_packets_progress_witness:
  "\<exists>dv expiry NB BE. device_of ''A'' ''d'' (wEm duo_sending) = Some dv \<and> dvTxQueue dv = [0, 1] \<and>
     map_of (wTimers duo_sending) (CsmaTimer ''A'' ''d'') = Some (expiry, RunDoCsma ''A'' ''d'' NB BE False)"
proof -
  have dev: "device_of ''A'' ''d'' (wEm duo_sending) =
      Some ((duo_device ''A'' 1 8)\<lparr>dvState := TX, dvTxQueue := [0, 1]\<rparr>)"
    by (simp add: device_of_def duo_sending_def duo_used_node_def duo_node_def)
  have "wReady duo_sending = []" by (simp add: duo_sending_def)
  with queued_packets_progress[OF duo_rates duo_read duo_reachable dev] dev show ?thesis
    by (simp add: duo_device_def)
qed

end
