(* ===== verification/Refinement.thy ===== *)
theory Refinement
  imports Pit Fib
begin

text \<open>
  The two forwarding tables against what they stand for. The abstract PIT is a set of records
  (name, nonce, face, expiry), the abstract FIB a set of routes (prefix, face); their
  operations are set operations. Any sequence of calls gives the same results on the tables of
  the code and on the abstract ones (locale \<open>machine_refinement\<close>).
\<close>

section \<open>Machines\<close>

text \<open>The results of a sequence of operations, and the state it ends in.\<close>

fun results :: "('op \<Rightarrow> 's \<Rightarrow> 'out \<times> 's) \<Rightarrow> 'op list \<Rightarrow> 's \<Rightarrow> 'out list \<times> 's" where
  "results stp [] s = ([], s)"
| "results stp (x # xs) s = (let (y, s1) = stp x s; (ys, s2) = results stp xs s1 in (y # ys, s2))"

locale machine_refinement =
  fixes conc :: "'op \<Rightarrow> 'c \<Rightarrow> 'out \<times> 'c"
    and spec :: "'op \<Rightarrow> 'a \<Rightarrow> 'out \<times> 'a"
    and abst :: "'c \<Rightarrow> 'a"
    and ok :: "'c \<Rightarrow> bool"
  assumes conc_ok: "ok s \<Longrightarrow> ok (snd (conc x s))"
    and conc_abst: "ok s \<Longrightarrow> spec x (abst s) = (fst (conc x s), abst (snd (conc x s)))"
begin

lemma results_ok: "ok s \<Longrightarrow> ok (snd (results conc xs s))"
proof (induction xs arbitrary: s)
  case (Cons x xs)
  from Cons.IH[OF conc_ok[OF Cons.prems]] show ?case by (simp add: split_beta)
qed simp

lemma results_abst:
  "ok s \<Longrightarrow> results spec xs (abst s) = (fst (results conc xs s), abst (snd (results conc xs s)))"
proof (induction xs arbitrary: s)
  case (Cons x xs)
  from Cons.IH[OF conc_ok[OF Cons.prems]] show ?case
    by (simp add: conc_abst[OF Cons.prems] split_beta)
qed simp

lemma same_results:
  "ok s \<Longrightarrow> fst (results conc xs s) = fst (results spec xs (abst s))"
  by (simp add: results_abst)

end

lemma sorted_faces: "ss_ok xs \<Longrightarrow> sorted_list_of_set (set xs) = xs"
  by (rule ss_ok_unique) simp_all

section \<open>The PIT\<close>

datatype 'n pit_op =
    AddInterest time int "'n interest"
  | ConsumeInterest time 'n
  | CleanUpPit time

datatype pit_out = Fresh bool | Faces "int list" | Done

fun pit_step :: "('n, 'c) ndn \<Rightarrow> 'n pit_op \<Rightarrow> 'n pit \<Rightarrow> pit_out \<times> 'n pit" where
  "pit_step L (AddInterest now f i) p = (let (b, p') = Pit_AddInterest now f i p in (Fresh b, p'))"
| "pit_step L (ConsumeInterest now n) p =
     (let (fs, p') = Pit_ConsumeInterestWithDataName L now n [] p in (Faces fs, p'))"
| "pit_step L (CleanUpPit now) p = (Done, fst (Pit_CleanUp False now p))"

type_synonym 'n records = "('n \<times> 32 word \<times> int \<times> time) set"

fun pit_spec :: "('n, 'c) ndn \<Rightarrow> 'n pit_op \<Rightarrow> 'n records \<Rightarrow> pit_out \<times> 'n records" where
  "pit_spec L (AddInterest now f i) S =
     (if \<exists>g t. (iName i, iNonce i, g, t) \<in> S then (Fresh False, S)
      else (Fresh True, insert (iName i, iNonce i, f, now + iLifetime i) S))"
| "pit_spec L (ConsumeInterest now n) S =
     (Faces (sorted_list_of_set {f. \<exists>k x t. (k, x, f, t) \<in> S \<and> nmIsPrefixOf L k n \<and> now < t}),
      {(k, x, f, t) \<in> S. \<not> nmIsPrefixOf L k n})"
| "pit_spec L (CleanUpPit now) S = (Done, {(k, x, f, t) \<in> S. now \<le> t})"

interpretation pit: machine_refinement "pit_step L" "pit_spec L" pending pit_ok
  for L :: "('n, 'c) ndn"
proof
  fix p :: "'n pit" and x
  assume ok: "pit_ok p"
  show "pit_ok (snd (pit_step L x p))"
  proof (cases x)
    case (AddInterest now f i)
    with pit_ok_AddInterest[OF ok, of now f i] show ?thesis by (simp add: split_beta)
  next
    case (ConsumeInterest now n)
    with pit_ok_Consume[OF ok, of L now n "[]"] show ?thesis by (simp add: split_beta)
  next
    case (CleanUpPit now)
    with pit_ok_CleanUp[OF ok] show ?thesis by simp
  qed
  show "pit_spec L x (pending p) = (fst (pit_step L x p), pending (snd (pit_step L x p)))"
  proof (cases x)
    case (AddInterest now f i)
    then show ?thesis
      using AddInterest_result[of now f i p] pending_AddInterest[OF ok, of now f i]
        nonce_known_pending[OF ok, of "iName i" "iNonce i"]
      by (simp add: split_beta)
  next
    case (ConsumeInterest now n)
    let ?r = "Pit_ConsumeInterestWithDataName L now n [] p"
    have "sorted_list_of_set {f. \<exists>k x t. (k, x, f, t) \<in> pending p \<and> nmIsPrefixOf L k n \<and> now < t} = fst ?r"
      using sorted_faces[OF faces_Consume_ok[of "[]" L now n p]] faces_Consume[of L now n "[]" p] by simp
    moreover have "{(k, x, f, t) \<in> pending p. \<not> nmIsPrefixOf L k n} = pending (snd ?r)"
      unfolding pending_Consume by auto
    ultimately show ?thesis using ConsumeInterest by (simp add: split_beta)
  next
    case (CleanUpPit now)
    then show ?thesis using pending_CleanUp[of now p] by simp
  qed
qed

section \<open>The FIB\<close>

datatype 'n fib_op =
    AddRoute 'n int
  | CleanUpFace int
  | LookUp 'n

fun fib_step :: "('n, 'c) ndn \<Rightarrow> 'n fib_op \<Rightarrow> 'n fib \<Rightarrow> int list \<times> 'n fib" where
  "fib_step L (AddRoute p f) fib = ([], Fib_AddRoute p f fib)"
| "fib_step L (CleanUpFace f) fib = ([], Fib_CleanUp f fib)"
| "fib_step L (LookUp n) fib = (Fib_LookUp L n [] fib, fib)"

fun fib_spec :: "('n, 'c) ndn \<Rightarrow> 'n fib_op \<Rightarrow> ('n \<times> int) set \<Rightarrow> int list \<times> ('n \<times> int) set" where
  "fib_spec L (AddRoute p f) S = ([], insert (p, f) S)"
| "fib_spec L (CleanUpFace f) S = ([], {r \<in> S. snd r \<noteq> f})"
| "fib_spec L (LookUp n) S = (sorted_list_of_set {f. \<exists>k. nmIsPrefixOf L k n \<and> (k, f) \<in> S}, S)"

lemma fib_refinement:
  fixes L :: "('a, 'c) ndn"
  assumes "name_laws L"
  shows "machine_refinement (fib_step L) (fib_spec L) routes fib_ok"
proof
  fix fib :: "'a fib" and x
  assume ok: "fib_ok fib"
  show "fib_ok (snd (fib_step L x fib))"
    using fib_ok_AddRoute[OF ok] fib_ok_CleanUp[OF ok] ok by (cases x) simp_all
  show "fib_spec L x (routes fib) = (fst (fib_step L x fib), routes (snd (fib_step L x fib)))"
  proof (cases x)
    case (LookUp n)
    then show ?thesis
      using sorted_faces[OF LookUp_ok[of "[]" L n fib]] set_LookUp[OF ok assms, of n "[]"] by simp
  qed (simp_all add: routes_AddRoute[OF ok] routes_CleanUp)
qed

text \<open>The FIB of the library \<open>list_ndn\<close>, whose names obey the laws.\<close>

interpretation fib: machine_refinement "fib_step (list_ndn is ds cs)" "fib_spec (list_ndn is ds cs)" routes fib_ok
  for "is" ds cs
  by (rule fib_refinement[OF list_ndn_name_laws])

section \<open>Properties\<close>

text \<open>
  C17: The PIT implements a set of pending records: for every sequence of insertions, Data
  arrivals and clean-ups on a new table, at whatever times, every call returns what it
  returns on the set, and the table ends with exactly the records of the set.
\<close>

theorem pit_refines_records:
  "results (pit_spec L) ops {} =
    (fst (results (pit_step L) ops (Pit_new interval)), pending (snd (results (pit_step L) ops (Pit_new interval))))"
proof -
  have "pending (Pit_new interval :: 'a pit) = {}" by (simp add: pending_def Pit_new_def)
  with pit.results_abst[OF pit_ok_new, of L ops interval] show ?thesis by simp
qed

text \<open>
  C18: The FIB implements a set of routes: for every sequence of registrations, removals of
  faces and look-ups on an empty table every look-up returns exactly the faces of the routes
  whose prefix is a prefix of the name, in increasing order.
\<close>

theorem fib_refines_routes:
  assumes "name_laws L"
  shows "results (fib_spec L) ops {} =
    (fst (results (fib_step L) ops []), routes (snd (results (fib_step L) ops [])))"
  using machine_refinement.results_abst[OF fib_refinement[OF assms] fib_ok_Nil, of ops] by simp

theorem fib_refines_routes_witness:
  "fst (results (fib_spec (list_ndn [] [] [])) [AddRoute [''a''] 2, AddRoute [] 1, LookUp [''a'', ''b''],
     CleanUpFace 2, LookUp [''a'', ''b'']] {}) = [[], [], [1, 2], [], [1]]"
  using fib_refines_routes[OF list_ndn_name_laws[of "[]" "[]" "[]"], of "[AddRoute [''a''] 2, AddRoute [] 1,
      LookUp [''a'', ''b''], CleanUpFace 2, LookUp [''a'', ''b'']]"]
  by (simp add: Fib_AddRoute_def Fib_LookUp_def lookup_visit_def ss_insert_all_def ss_erase_def)

end
