(* ===== verification/Logging.thy ===== *)
theory Logging
  imports Prelude
begin

text \<open>
  Log levels and the logging macros (\<^verbatim>\<open>core/logging.h\<close>, \<^verbatim>\<open>core/logging.cc\<close>). The levels are
  the constants of the unnamed enumeration, ordered by their values; a message is printed when
  its level is not below the current one, from \<open>WARNING\<close> on to the error stream.
\<close>

datatype log_level = TRACE | DEBUG | INFO | WARNING | ERROR | FATAL

fun level_value :: "log_level \<Rightarrow> int" where
  "level_value TRACE = 0"
| "level_value DEBUG = 1"
| "level_value INFO = 2"
| "level_value WARNING = 3"
| "level_value ERROR = 4"
| "level_value FATAL = 5"

lemma level_value_inject: "level_value a = level_value b \<longleftrightarrow> a = b"
  by (cases a; cases b) simp_all

instantiation log_level :: linorder
begin

definition less_eq_log_level :: "log_level \<Rightarrow> log_level \<Rightarrow> bool" where
  "less_eq_log_level a b \<longleftrightarrow> level_value a \<le> level_value b"

definition less_log_level :: "log_level \<Rightarrow> log_level \<Rightarrow> bool" where
  "less_log_level a b \<longleftrightarrow> level_value a < level_value b"

instance
  by standard (auto simp: less_eq_log_level_def less_log_level_def level_value_inject [symmetric])

end

text \<open>The level the program starts with.\<close>

definition LOG_LEVEL :: log_level where
  "LOG_LEVEL = INFO"

definition GetLogLevelFromString :: "string \<Rightarrow> log_level result" where
  "GetLogLevelFromString level =
     (if level = ''trace'' then Inr TRACE
      else if level = ''debug'' then Inr DEBUG
      else if level = ''info'' then Inr INFO
      else if level = ''warning'' then Inr WARNING
      else if level = ''error'' then Inr ERROR
      else if level = ''fatal'' then Inr FATAL
      else Inl (InvalidArgument (''Unknown log level: '' @ level)))"

datatype out_stream = Cout | Cerr

fun level_tag :: "log_level \<Rightarrow> out_stream \<times> string" where
  "level_tag TRACE = (Cout, '' [TRACE] '')"
| "level_tag DEBUG = (Cout, '' [DEBUG] '')"
| "level_tag INFO = (Cout, '' [INFO] '')"
| "level_tag WARNING = (Cerr, '' [WARN] '')"
| "level_tag ERROR = (Cerr, '' [ERROR] '')"
| "level_tag FATAL = (Cerr, '' [FATAL] '')"

text \<open>The macro of a level: what it prints, at the local time \<open>clock\<close>.\<close>

definition log_message :: "log_level \<Rightarrow> log_level \<Rightarrow> string \<Rightarrow> string \<Rightarrow> (out_stream \<times> string) option" where
  "log_message current level clock msg =
     (if current \<le> level
      then (case level_tag level of (s, tag) \<Rightarrow> Some (s, clock @ tag @ msg @ [CHR 0x0A]))
      else None)"

lemma log_message_mono:
  assumes "log_message current a clock msg \<noteq> None" and "a \<le> b"
  shows "log_message current b clock msg' \<noteq> None"
  using assms by (auto simp: log_message_def split: if_splits prod.splits)

lemma fatal_always_logged: "log_message current FATAL clock msg \<noteq> None"
proof -
  have "current \<le> FATAL" by (cases current) (simp_all add: less_eq_log_level_def)
  then show ?thesis by (simp add: log_message_def)
qed

end
