(* ===== verification/Program.thy ===== *)
theory Program
  imports World Logging
begin

text \<open>
  The program \<open>ndnem\<close> (\<^verbatim>\<open>core/main.cc\<close>): \<open>run\<close> and \<open>main\<close>. The parsing of the command line is
  \<open>boost::program_options\<close>: \<open>options\<close> holds its result, with the default of the log level
  filled in. \<open>read_xml\<close> is the function of that name for the configuration file.
\<close>

record options =
  optHelp :: bool
  optLogLevel :: string
  optConfigFile :: "string option"

text \<open>
  How \<open>run\<close> ends: by \<open>exit\<close>, by an exception, or, when the emulator is up, in
  \<open>io_service::run\<close>, which goes on with the steps of the transition system World.
\<close>

datatype 'n outcome =
    Exited int
  | Raised log_level error
  | Running log_level "'n world"

definition emulator_run ::
  "('n, 'c) ndn \<Rightarrow> conv \<Rightarrow> rng \<Rightarrow> (int \<Rightarrow> nat) \<Rightarrow> (string \<Rightarrow> ptree result) \<Rightarrow> options \<Rightarrow> 'n outcome" where
  "emulator_run L C R seed read_xml opts =
     (case optConfigFile opts of
        None \<Rightarrow> Exited 1
      | Some file \<Rightarrow>
          if optHelp opts then Exited 1
          else case GetLogLevelFromString (optLogLevel opts) of
                 Inl e \<Rightarrow> Raised LOG_LEVEL e
               | Inr level \<Rightarrow>
                   (case and_then (read_xml file) (\<lambda>config.
                           and_then (Emulator_ReadNetworkConfig L C R seed config Emulator_new) (Emulator_Start L)) of
                      Inl e \<Rightarrow> Raised level e
                    | Inr w \<Rightarrow> Running level w))"

text \<open>
  \<open>Stop\<close>, which nothing in the repository calls: \<open>io_service::run\<close> returns, and no handler runs
  any more. The flag is the io service's: it is set once the service has been stopped.
\<close>

type_synonym 'n service = "'n world \<times> bool"

definition Emulator_Stop :: "'n service \<Rightarrow> 'n service" where
  "Emulator_Stop s = (fst s, True)"

inductive service_step :: "('n, 'c) ndn \<Rightarrow> rng \<Rightarrow> 'n service \<Rightarrow> 'n service \<Rightarrow> bool" for L R where
  handler: "step L R w w' \<Longrightarrow> service_step L R (w, False) (w', False)"
| stop: "service_step L R s (Emulator_Stop s)"

inductive service_reachable :: "('n, 'c) ndn \<Rightarrow> rng \<Rightarrow> 'n emulator \<Rightarrow> 'n service \<Rightarrow> bool" for L R em where
  started: "Emulator_Start L em = Inr w \<Longrightarrow> service_reachable L R em (w, False)"
| goes_on: "service_reachable L R em s \<Longrightarrow> service_step L R s s' \<Longrightarrow> service_reachable L R em s'"

inductive_cases service_stepE: "service_step L R s s'"

lemma stopped_stays: "service_step L R (w, True) s \<Longrightarrow> s = (w, True)"
  by (auto elim: service_stepE simp: Emulator_Stop_def)

text \<open>Stopping reaches no state that the emulator does not reach by itself.\<close>

lemma service_reachable_world: "service_reachable L R em s \<Longrightarrow> reachable L R em (fst s)"
  by (induction rule: service_reachable.induct)
    (auto elim!: service_stepE simp: Emulator_Stop_def intro: reachable.intros)

text \<open>
  The text of an exception; \<open>what\<close> of the exceptions of the libraries is a parameter. A
  failed assertion and undefined behaviour are no exceptions.
\<close>

fun catchable :: "error \<Rightarrow> bool" where
  "catchable AssertionFailed = False"
| "catchable (UndefinedBehaviour msg) = False"
| "catchable e = True"

text \<open>
  \<open>main\<close>: the exit status of the program if it ends, and the message it leaves. An exception
  is logged; the status is 0 all the same.
\<close>

definition emulator_main ::
  "(error \<Rightarrow> string) \<Rightarrow> string \<Rightarrow> 'n outcome \<Rightarrow> (int \<times> (out_stream \<times> string) option) option" where
  "emulator_main what clock out =
     (case out of
        Exited n \<Rightarrow> Some (n, None)
      | Raised level e \<Rightarrow>
          if catchable e
          then Some (0, log_message level FATAL clock (''[main] std error = '' @ what e)) else None
      | Running level w \<Rightarrow> None)"

end
