(* ===== verification/Client.thy ===== *)
theory Client
  imports Ndn
begin

text \<open>
  What the applications of the repository share: the operations of the \<open>ndn::Face\<close>, the
  \<open>ndn::Scheduler\<close> and the \<open>io_service\<close> they call, as requests in the result of each handler,
  and the functions of ndn-cxx and of \<open>boost::lexical_cast\<close> they use beyond those of the
  emulator, as the parameters \<open>client_lib\<close>. The names of the applications' handlers are the
  type variable \<open>'h\<close>.
\<close>

text \<open>
  \<open>showInt\<close> is \<open>lexical_cast<string>\<close> of an \<open>int\<close>, \<open>readInt\<close> \<open>lexical_cast<int>\<close>, \<open>None\<close> for
  the exception \<open>bad_lexical_cast\<close>. \<open>cmpOfBytes\<close> is the constructor of a component from
  bytes, \<open>cmpWireEncode\<close> the encoding of a component, \<open>signData\<close> the data a key chain signs.
  \<open>appendVersion\<close> takes the clock reading the version number is made of.
\<close>

record ('n, 'c) client_lib = "('n, 'c) ndn" +
  showInt :: "int \<Rightarrow> string"
  readInt :: "string \<Rightarrow> int option"
  cmpOfBytes :: "bytes \<Rightarrow> 'c"
  cmpWireEncode :: "'c \<Rightarrow> bytes"
  appendVersion :: "time \<Rightarrow> 'n \<Rightarrow> 'n"
  signData :: "'n data \<Rightarrow> 'n data"

definition milliseconds :: "int \<Rightarrow> time" where
  "milliseconds n = n * 1000000"

definition bad_lexical_cast :: error where
  "bad_lexical_cast = RuntimeError ''bad lexical cast''"

text \<open>\<open>ExpressInterest\<close> holds the name, the lifetime, \<open>MustBeFresh\<close> and the two callbacks.\<close>

datatype ('n, 'h) client_req =
    ExpressInterest 'n time bool 'h 'h
  | PutData "'n data"
  | SetInterestFilter 'n 'h 'h
  | ScheduleEvent time 'h
  | ShutdownFace
  | StopIoService
  | ProcessEvents

type_synonym ('n, 'h, 's) client_result = "('s \<times> ('n, 'h) client_req list) result"

text \<open>The names of an application: the component at an index that is known to be in range.\<close>

definition component_at :: "('n, 'c) client_lib \<Rightarrow> 'n \<Rightarrow> nat \<Rightarrow> 'c result" where
  "component_at C n i =
     (case nmAt C n i of None \<Rightarrow> Inl (UndefinedBehaviour ''name component out of range'') | Some c \<Rightarrow> Inr c)"

definition component_int :: "('n, 'c) client_lib \<Rightarrow> 'c \<Rightarrow> int result" where
  "component_int C c = (case readInt C (cmpToUri C c) of None \<Rightarrow> Inl bad_lexical_cast | Some n \<Rightarrow> Inr n)"

definition append_string :: "('n, 'c) client_lib \<Rightarrow> 'n \<Rightarrow> string \<Rightarrow> 'n" where
  "append_string C n s = nmAppend C n (cmpOfString C s)"

definition append_int :: "('n, 'c) client_lib \<Rightarrow> 'n \<Rightarrow> int \<Rightarrow> 'n" where
  "append_int C n k = append_string C n (showInt C k)"

definition make_data :: "('n, 'c) client_lib \<Rightarrow> 'n \<Rightarrow> time \<Rightarrow> bytes \<Rightarrow> 'n data" where
  "make_data C n freshness content = signData C \<lparr>dName = n, dFreshness = freshness, dContent = content, dWire = []\<rparr>"

text \<open>
  The documented behaviour the theorems rely on: names grow by one component, an integer can
  be written into a name and read back, and signing changes neither name nor content.
\<close>

definition client_laws :: "('n, 'c) client_lib \<Rightarrow> bool" where
  "client_laws C \<longleftrightarrow>
     (\<forall>n c. nmSize C (nmAppend C n c) = nmSize C n + 1) \<and>
     (\<forall>n c. nmAt C (nmAppend C n c) (nmSize C n) = Some c) \<and>
     (\<forall>n c i. i < nmSize C n \<longrightarrow> nmAt C (nmAppend C n c) i = nmAt C n i) \<and>
     (\<forall>n i. nmAt C n i = None \<longleftrightarrow> nmSize C n \<le> i) \<and>
     (\<forall>k. - (2 ^ 31) \<le> k \<and> k < 2 ^ 31 \<longrightarrow> readInt C (cmpToUri C (cmpOfString C (showInt C k))) = Some k) \<and>
     (\<forall>s k. readInt C s = Some k \<longrightarrow> - (2 ^ 31) \<le> k \<and> k < 2 ^ 31) \<and>
     (\<forall>d. dName (signData C d) = dName d \<and> dFreshness (signData C d) = dFreshness d \<and>
          dContent (signData C d) = dContent d)"

lemma client_lawsD:
  assumes "client_laws C"
  shows "nmSize C (nmAppend C n c) = nmSize C n + 1" and "nmAt C (nmAppend C n c) (nmSize C n) = Some c"
    and "i < nmSize C n \<Longrightarrow> nmAt C (nmAppend C n c) i = nmAt C n i"
    and "nmAt C n i = None \<longleftrightarrow> nmSize C n \<le> i"
    and "- (2 ^ 31) \<le> k \<Longrightarrow> k < 2 ^ 31 \<Longrightarrow> readInt C (cmpToUri C (cmpOfString C (showInt C k))) = Some k"
    and "readInt C s = Some k \<Longrightarrow> - (2 ^ 31) \<le> k \<and> k < 2 ^ 31"
    and "dName (signData C d) = dName d" and "dFreshness (signData C d) = dFreshness d"
    and "dContent (signData C d) = dContent d"
  using assms by (simp_all add: client_laws_def)

lemma make_data_fields:
  assumes "client_laws C"
  shows "dName (make_data C n t bs) = n" and "dFreshness (make_data C n t bs) = t"
    and "dContent (make_data C n t bs) = bs"
  by (simp_all add: make_data_def client_lawsD[OF assms])

lemma append_int_laws:
  assumes "client_laws C"
  shows "nmSize C (append_int C n k) = nmSize C n + 1"
    and "- (2 ^ 31) \<le> k \<Longrightarrow> k < 2 ^ 31 \<Longrightarrow> nmSize C n = i \<Longrightarrow>
      and_then (component_at C (append_int C n k) i) (component_int C) = Inr k"
  by (auto simp: append_int_def append_string_def component_at_def component_int_def client_lawsD[OF assms])

text \<open>Operation modes, which the sensor and the repository have in common.\<close>

datatype opt_mode = POLL | PUSH | NOTIFY

fun parse_mode :: "string \<Rightarrow> opt_mode option" where
  "parse_mode s =
     (if s = ''poll'' then Some POLL else if s = ''push'' then Some PUSH
      else if s = ''notify'' then Some NOTIFY else None)"

text \<open>
  The beginning of both \<open>main\<close> functions: the mode and the path, or the exit status. The
  list holds the arguments, the program's name first.
\<close>

fun mode_arguments :: "string list \<Rightarrow> int + (opt_mode \<times> string)" where
  "mode_arguments [prog, m, path] = (case parse_mode m of None \<Rightarrow> Inl 1 | Some mode \<Rightarrow> Inr (mode, path))"
| "mode_arguments args = Inl 1"

text \<open>A library on lists of strings that obeys the laws; integers are written in decimal.\<close>

function digits :: "nat \<Rightarrow> string" where
  "digits n = (if n < 10 then [char_of (48 + n)] else digits (n div 10) @ [char_of (48 + n mod 10)])"
  by pat_completeness auto
termination
  by (relation "measure id") auto

declare digits.simps [simp del]

definition digit_value :: "char \<Rightarrow> nat" where
  "digit_value c = of_char c - 48"

definition is_number :: "string \<Rightarrow> bool" where
  "is_number s \<longleftrightarrow> s \<noteq> [] \<and> list_all (\<lambda>c. 48 \<le> (of_char c :: nat) \<and> (of_char c :: nat) < 58) s"

definition number_value :: "string \<Rightarrow> nat" where
  "number_value s = foldl (\<lambda>a c. a * 10 + digit_value c) 0 s"

definition show_decimal :: "int \<Rightarrow> string" where
  "show_decimal k = (if 0 \<le> k then digits (nat k) else CHR ''-'' # digits (nat (- k)))"

definition read_decimal :: "string \<Rightarrow> int option" where
  "read_decimal s =
     (let (sign, ds) = (case s of c # t \<Rightarrow> if c = CHR ''-'' then (- 1, t) else (1, s) | [] \<Rightarrow> (1, s));
          k = sign * int (number_value ds)
      in if is_number ds \<and> - (2 ^ 31) \<le> k \<and> k < 2 ^ 31 then Some k else None)"

lemma of_char_digit: "m < 10 \<Longrightarrow> of_char (char_of (48 + m) :: char) = (48 + m :: nat)"
  by (simp add: of_char_of)

lemma number_digits: "number_value (digits n) = n \<and> is_number (digits n)"
proof (induction n rule: digits.induct)
  case (1 n)
  show ?case
  proof (cases "n < 10")
    case True
    then show ?thesis
      by (subst (1 2) digits.simps) (simp add: number_value_def is_number_def digit_value_def of_char_digit)
  next
    case False
    have "n mod 10 < 10" by simp
    then show ?thesis
      using 1[OF False] False
      by (subst (1 2) digits.simps)
        (simp add: number_value_def is_number_def digit_value_def of_char_digit list_all_append)
  qed
qed

lemma digits_no_sign: "digits n = c # t \<Longrightarrow> c \<noteq> CHR ''-''"
  using number_digits[of n] by (auto simp: is_number_def)

lemma read_show_decimal:
  assumes "- (2 ^ 31) \<le> k" and "k < 2 ^ 31"
  shows "read_decimal (show_decimal k) = Some k"
proof (cases "0 \<le> k")
  case True
  obtain c t where ct: "digits (nat k) = c # t"
    using number_digits[of "nat k"] by (cases "digits (nat k)") (auto simp: is_number_def)
  have "c \<noteq> CHR ''-''" by (rule digits_no_sign[OF ct])
  then show ?thesis
    using True assms number_digits[of "nat k"] ct by (simp add: read_decimal_def show_decimal_def)
next
  case False
  with assms number_digits[of "nat (- k)"] show ?thesis by (simp add: read_decimal_def show_decimal_def)
qed

definition list_client :: "(string list, string) client_lib" where
  "list_client = ndn.extend (list_ndn [] [] [])
     \<lparr>showInt = show_decimal, readInt = read_decimal, cmpOfBytes = map (\<lambda>b. char_of (unat b)), cmpWireEncode = map of_char,
      appendVersion = (\<lambda>t n. n @ [''v'']), signData = (\<lambda>d. d)\<rparr>"

lemma list_client_laws: "client_laws list_client"
proof -
  have "- (2 ^ 31) \<le> k \<and> k < 2 ^ 31" if "read_decimal s = Some k" for s k
    using that by (auto simp: read_decimal_def Let_def split: if_splits prod.splits)
  then show ?thesis
    by (simp add: client_laws_def list_client_def list_ndn_def ndn.extend_def read_show_decimal nth_append)
qed

end
