(* ===== verification/Simple.thy ===== *)
theory Simple
  imports Client
begin

text \<open>
  The simple consumer (\<^verbatim>\<open>apps/simple-consumer.h\<close>, \<^verbatim>\<open>apps/simple-consumer.cc\<close>), which
  asks for a name at a fixed rate, and the simple producer (\<^verbatim>\<open>apps/simple-producer.cc\<close>),
  which answers every Interest under a name.
\<close>

section \<open>Consumer\<close>

record simple_consumer =
  scDelay :: int
  scName :: string
  scPath :: string

definition SimpleConsumer_new :: "int \<Rightarrow> string \<Rightarrow> string \<Rightarrow> simple_consumer" where
  "SimpleConsumer_new delay name path = \<lparr>scDelay = delay, scName = name, scPath = path\<rparr>"

datatype consumer_handler = ConsumerHandleData | ConsumerHandleTimeout | ConsumerSendInterest

type_synonym 'n consumer_result = "('n, consumer_handler, simple_consumer) client_result"

definition SimpleConsumer_SendInterest :: "('n, 'c) client_lib \<Rightarrow> simple_consumer \<Rightarrow> 'n consumer_result" where
  "SimpleConsumer_SendInterest C s =
     (let i = ExpressInterest (nmOfUri C (scName s)) (milliseconds 1000) True
                ConsumerHandleData ConsumerHandleTimeout
      in Inr (s, i # (if scDelay s > 0 then [ScheduleEvent (milliseconds (scDelay s)) ConsumerSendInterest] else [])))"

text \<open>\<open>HandleData\<close> and \<open>HandleTimeout\<close> only print; \<open>Start\<close> enters \<open>io_service::run\<close>.\<close>

fun run_consumer :: "('n, 'c) client_lib \<Rightarrow> consumer_handler \<Rightarrow> simple_consumer \<Rightarrow> 'n consumer_result" where
  "run_consumer C ConsumerSendInterest s = SimpleConsumer_SendInterest C s"
| "run_consumer C ConsumerHandleData s = Inr (s, [])"
| "run_consumer C ConsumerHandleTimeout s = Inr (s, [])"

definition SimpleConsumer_Start :: "('n, 'c) client_lib \<Rightarrow> simple_consumer \<Rightarrow> 'n consumer_result" where
  "SimpleConsumer_Start C s = SimpleConsumer_SendInterest C s"

text \<open>
  \<open>main\<close>: the exit status for a wrong number of arguments, or the result of the try block,
  whose exceptions are reported and lead to the status 0. \<open>readLong\<close> is \<open>lexical_cast<long>\<close>.
\<close>

fun SimpleConsumer_main ::
  "('n, 'c) client_lib \<Rightarrow> (string \<Rightarrow> int option) \<Rightarrow> string list \<Rightarrow> int + 'n consumer_result" where
  "SimpleConsumer_main C readLong [prog, delay, name, path] =
     Inr (case readLong delay of
            None \<Rightarrow> Inl bad_lexical_cast
          | Some d \<Rightarrow> SimpleConsumer_Start C (SimpleConsumer_new d name path))"
| "SimpleConsumer_main C readLong args = Inl 1"

section \<open>Producer\<close>

record simple_producer =
  spName :: string
  spPath :: string

definition SimpleProducer_new :: "string \<Rightarrow> string \<Rightarrow> simple_producer" where
  "SimpleProducer_new name path = \<lparr>spName = name, spPath = path\<rparr>"

datatype producer_handler = ProducerOnInterest | ProducerOnRegisterFailed

type_synonym 'n producer_result = "('n, producer_handler, simple_producer) client_result"

definition hello_kitty :: bytes where
  "hello_kitty = map of_char ''HELLO KITTY''"

text \<open>\<open>now\<close> is the clock reading the version in the name is made of.\<close>

definition SimpleProducer_onInterest ::
  "('n, 'c) client_lib \<Rightarrow> time \<Rightarrow> 'n \<Rightarrow> simple_producer \<Rightarrow> 'n producer_result" where
  "SimpleProducer_onInterest C now interest s =
     (let dataName = appendVersion C now interest
      in Inr (s, [PutData (make_data C dataName (milliseconds 10000) hello_kitty)]))"

definition SimpleProducer_onRegisterFailed :: "simple_producer \<Rightarrow> 'n producer_result" where
  "SimpleProducer_onRegisterFailed s = Inr (s, [ShutdownFace])"

definition SimpleProducer_Run :: "('n, 'c) client_lib \<Rightarrow> simple_producer \<Rightarrow> 'n producer_result" where
  "SimpleProducer_Run C s =
     Inr (s, [SetInterestFilter (nmOfUri C (spName s)) ProducerOnInterest ProducerOnRegisterFailed, ProcessEvents])"

fun SimpleProducer_main :: "('n, 'c) client_lib \<Rightarrow> string list \<Rightarrow> int + 'n producer_result" where
  "SimpleProducer_main C [prog, name, path] = Inr (SimpleProducer_Run C (SimpleProducer_new name path))"
| "SimpleProducer_main C args = Inl 1"

section \<open>The consumer's rate\<close>

text \<open>
  The times at which Interests leave: each entry of the list is the time a request is made. The
  scheduler calls a handler at the time it was scheduled for, \<open>fuel\<close> handlers at most.
\<close>

fun sends :: "('n, 'c) client_lib \<Rightarrow> nat \<Rightarrow> time \<Rightarrow> consumer_handler \<Rightarrow> simple_consumer \<Rightarrow> (time \<times> 'n) list" where
  "sends C 0 now h s = []"
| "sends C (Suc fuel) now h s =
     (case run_consumer C h s of
        Inl e \<Rightarrow> []
      | Inr (s', reqs) \<Rightarrow>
          [(now, n). ExpressInterest n _ _ _ _ \<leftarrow> reqs] @
          concat [sends C fuel (now + t) h' s'. ScheduleEvent t h' \<leftarrow> reqs])"

lemma sends_periodic:
  assumes "0 < scDelay s"
  shows "sends C fuel now ConsumerSendInterest s =
    map (\<lambda>k. (now + int k * milliseconds (scDelay s), nmOfUri C (scName s))) [0..<fuel]"
proof (induction fuel arbitrary: now)
  case (Suc fuel)
  have "[0..<Suc fuel] = 0 # map Suc [0..<fuel]" by (simp add: upt_conv_Cons map_Suc_upt)
  with Suc show ?case
    using assms by (simp add: SimpleConsumer_SendInterest_def o_def algebra_simps)
qed simp

lemma sends_once:
  "scDelay s \<le> 0 \<Longrightarrow> sends C (Suc fuel) now ConsumerSendInterest s = [(now, nmOfUri C (scName s))]"
  by (simp add: SimpleConsumer_SendInterest_def)

text \<open>A producer's answer matches an Interest for a prefix: only the version follows its name.\<close>

lemma producer_answers:
  "client_laws C \<Longrightarrow> \<exists>d. SimpleProducer_onInterest C now n s = Inr (s, [PutData d]) \<and>
     dName d = appendVersion C now n \<and> dContent d = hello_kitty"
  by (simp add: SimpleProducer_onInterest_def make_data_fields)

end
