(* ===== verification/Delivery.thy ===== *)
theory Delivery
  imports Schedule
begin

text \<open>
  A frame on its way over a link, from the transmit queue of a device to the dispatch on the
  face of its receiver. The lemmas follow one schedule of the io service, handler by handler;
  the state after each of them is described by the tables of the emulator as functions.
\<close>

section \<open>The tables as functions\<close>

definition node_of :: "'n world \<Rightarrow> string \<Rightarrow> 'n node option" where
  "node_of w n = map_of (emNodeTable (wEm w)) n"

definition link_of :: "'n world \<Rightarrow> string \<Rightarrow> link option" where
  "link_of w l = map_of (emLinkTable (wEm w)) l"

definition timer_of :: "'n world \<Rightarrow> timer \<Rightarrow> (time \<times> task) option" where
  "timer_of w tm = map_of (wTimers w) tm"

definition set_node :: "string \<Rightarrow> 'n node \<Rightarrow> heap \<Rightarrow> 'n world \<Rightarrow> 'n world" where
  "set_node n nd h w = w\<lparr>wEm := (wEm w)\<lparr>emNodeTable := om_put n nd (emNodeTable (wEm w))\<rparr>, wHeap := h\<rparr>"

lemma view_set_node [simp]:
  "node_of (set_node n nd h w) = (node_of w)(n \<mapsto> nd)" "link_of (set_node n nd h w) = link_of w"
  "timer_of (set_node n nd h w) = timer_of w" "wHeap (set_node n nd h w) = h" "wNow (set_node n nd h w) = wNow w"
  "wReady (set_node n nd h w) = wReady w" "wSent (set_node n nd h w) = wSent w"
  "wReceives (set_node n nd h w) = wReceives w"
  by (simp_all add: set_node_def node_of_def link_of_def timer_of_def fun_eq_iff kv_simps)

lemma view_updates [simp]:
  "node_of (w\<lparr>wReady := ts\<rparr>) = node_of w" "link_of (w\<lparr>wReady := ts\<rparr>) = link_of w"
  "timer_of (w\<lparr>wReady := ts\<rparr>) = timer_of w"
  "node_of (w\<lparr>wNow := t\<rparr>) = node_of w" "link_of (w\<lparr>wNow := t\<rparr>) = link_of w" "timer_of (w\<lparr>wNow := t\<rparr>) = timer_of w"
  "node_of (w\<lparr>wReceives := r\<rparr>) = node_of w" "link_of (w\<lparr>wReceives := r\<rparr>) = link_of w"
  "timer_of (w\<lparr>wReceives := r\<rparr>) = timer_of w"
  "node_of (w\<lparr>wSent := snt\<rparr>) = node_of w" "link_of (w\<lparr>wSent := snt\<rparr>) = link_of w"
  "timer_of (w\<lparr>wSent := snt\<rparr>) = timer_of w"
  "node_of (w\<lparr>wTimers := tms\<rparr>) = node_of w" "link_of (w\<lparr>wTimers := tms\<rparr>) = link_of w"
  by (simp_all add: node_of_def link_of_def timer_of_def fun_eq_iff)

lemma view_post [simp]:
  "node_of (post t w) = node_of w" "link_of (post t w) = link_of w" "timer_of (post t w) = timer_of w"
  "wReady (post t w) = wReady w @ [t]" "wSent (post t w) = wSent w"
  by (simp_all add: post_def)

lemma view_arm [simp]:
  "node_of (arm tm dl t w) = node_of w" "link_of (arm tm dl t w) = link_of w"
  "timer_of (arm tm dl t w) = (timer_of w)(tm \<mapsto> (wNow w + dl, t))" "wSent (arm tm dl t w) = wSent w"
  "wReady (arm tm dl t w) = wReady w @ (case timer_of w tm of None \<Rightarrow> [] | Some (_, old) \<Rightarrow> [cancelled old])"
  by (simp_all add: arm_def node_of_def link_of_def timer_of_def fun_eq_iff kv_simps)

lemma device_of_node: "device_of n d (wEm w) = (case node_of w n of None \<Rightarrow> None | Some nd \<Rightarrow> map_of (ndDeviceTable nd) d)"
  by (simp add: device_of_def node_of_def)

lemma on_node_run:
  assumes "node_of w n = Some nd" and "handler (wHeap w) nd = Inr (h', nd', out)"
  shows "on_node n handler w = Inr (fold (node_request n) out (set_node n nd' h' w))"
  using assms by (simp add: on_node_def node_of_def set_node_def)

lemma on_node_keep:
  assumes "node_of w n = Some nd" and "f (wHeap w) nd = Inr (nd', out)"
  shows "on_node n (\<lambda>h. keep_heap (f h) h) w = Inr (fold (node_request n) out (set_node n nd' (wHeap w) w))"
  by (rule on_node_run[OF assms(1)]) (simp add: keep_heap_def assms(2))

section \<open>Quiet devices\<close>

definition put_device :: "string \<Rightarrow> device \<Rightarrow> 'n node \<Rightarrow> 'n node" where
  "put_device d dv nd = nd\<lparr>ndDeviceTable := om_put d dv (ndDeviceTable nd)\<rparr>"

lemma device_put_device [simp]:
  "map_of (ndDeviceTable (put_device d dv nd)) = (map_of (ndDeviceTable nd))(d \<mapsto> dv)"
  "put_device d dv (put_device d dv' nd) = put_device d dv nd"
  "ndPit (put_device d dv nd) = ndPit nd" "ndFib (put_device d dv nd) = ndFib nd"
  "ndCacheManager (put_device d dv nd) = ndCacheManager nd" "ndFaceTable (put_device d dv nd) = ndFaceTable nd"
  "ndFibManager (put_device d dv nd) = ndFibManager nd" "ndId (put_device d dv nd) = ndId nd"
  "ndFaceCounter (put_device d dv nd) = ndFaceCounter nd"
  by (simp_all add: put_device_def kv_simps)

text \<open>Nothing is received or sent at a device: it is idle, and neither of its timers is armed.\<close>

definition quiet :: "'n world \<Rightarrow> string \<Rightarrow> string \<Rightarrow> bool" where
  "quiet w n d \<longleftrightarrow> (\<forall>dv. device_of n d (wEm w) = Some dv \<longrightarrow> dvState dv = IDLE \<and> dvTxQueue dv = []) \<and>
     timer_of w (RxTimer n d) = None \<and> timer_of w (CsmaTimer n d) = None"

lemma Node_StartRx_idle:
  assumes "map_of (ndDeviceTable nd) d = Some dv" and "dvState dv = IDLE"
    and "tx_delay (lnkTxRate (dvLink dv)) (Packet_GetLength h p) = Inr t"
  shows "Node_StartRx h p d nd =
    Inr (put_device d (dv\<lparr>dvState := RX, dvPendingRx := Some p\<rparr>) nd, [DevIO d (ArmRx t)])"
  using assms
  by (simp add: Node_StartRx_def Node_on_device_def Node_GetDevice_def LinkDevice_StartRx_def put_device_def)

section \<open>The receivers\<close>

text \<open>
  \<open>rx\<close> lists receivers, at most one on each node. The handlers of all of them change only their
  own devices: \<open>devices_changed g\<close> says that every device of the list has become \<open>g\<close> of what it
  was, and that the other nodes are as before.
\<close>

definition devices_changed :: "(device \<Rightarrow> device) \<Rightarrow> (string \<times> string) list \<Rightarrow> 'n world \<Rightarrow> 'n world \<Rightarrow> bool" where
  "devices_changed g rx w w' \<longleftrightarrow>
     (\<forall>(m, k) \<in> set rx. \<exists>nd dv. node_of w m = Some nd \<and> map_of (ndDeviceTable nd) k = Some dv \<and>
        node_of w' m = Some (put_device k (g dv) nd)) \<and>
     (\<forall>n. n \<notin> fst ` set rx \<longrightarrow> node_of w' n = node_of w n)"

text \<open>Everything but the nodes, the timers and the queue of handlers.\<close>

definition same_rest :: "'n world \<Rightarrow> 'n world \<Rightarrow> bool" where
  "same_rest w w' \<longleftrightarrow> link_of w' = link_of w \<and> wHeap w' = wHeap w \<and> wNow w' = wNow w \<and> wSent w' = wSent w \<and>
     wReceives w' = wReceives w"

lemma same_rest_trans: "same_rest w w1 \<Longrightarrow> same_rest w1 w2 \<Longrightarrow> same_rest w w2"
  by (simp add: same_rest_def)

definition has_device :: "'n world \<Rightarrow> string \<Rightarrow> string \<Rightarrow> (device \<Rightarrow> bool) \<Rightarrow> bool" where
  "has_device w m k P \<longleftrightarrow> (\<exists>nd dv. node_of w m = Some nd \<and> map_of (ndDeviceTable nd) k = Some dv \<and> P dv)"

lemma has_deviceE:
  assumes "has_device w m k P"
  obtains nd dv where "node_of w m = Some nd" and "map_of (ndDeviceTable nd) k = Some dv" and "P dv"
  using assms unfolding has_device_def by blast

lemma devices_changed_Cons:
  assumes "node_of w m = Some nd" and "map_of (ndDeviceTable nd) k = Some dv"
    and "node_of w1 = (node_of w)(m \<mapsto> put_device k (g dv) nd)" and "m \<notin> fst ` set rx"
    and "devices_changed g rx w1 w'"
  shows "devices_changed g ((m, k) # rx) w w'"
proof -
  have rest: "\<exists>nd dv. node_of w m' = Some nd \<and> map_of (ndDeviceTable nd) k' = Some dv \<and>
      node_of w' m' = Some (put_device k' (g dv) nd)" if "(m', k') \<in> set rx" for m' k'
  proof -
    have "m' \<noteq> m" using that assms(4) by force
    then show ?thesis using assms(3,5) that by (fastforce simp: devices_changed_def)
  qed
  have "node_of w' m = Some (put_device k (g dv) nd)" using assms(3-5) by (simp add: devices_changed_def)
  then show ?thesis using rest assms by (auto simp: devices_changed_def)
qed

text \<open>The reception starts at all of them.\<close>

lemma start_receptions:
  assumes "tx_delay rate (Packet_GetLength (wHeap w) p) = Inr t" and "distinct (map fst rx)"
    and "\<And>m k. (m, k) \<in> set rx \<Longrightarrow> has_device w m k (\<lambda>dv. dvState dv = IDLE \<and> lnkTxRate (dvLink dv) = rate) \<and>
      timer_of w (RxTimer m k) = None"
  shows "\<exists>w'. each (\<lambda>(m, d). on_node m (\<lambda>h. keep_heap (Node_StartRx h p d) h)) rx w = Inr w' \<and>
    devices_changed (\<lambda>dv. dv\<lparr>dvState := RX, dvPendingRx := Some p\<rparr>) rx w w' \<and> same_rest w w' \<and> wReady w' = wReady w \<and>
    (\<forall>m k. (m, k) \<in> set rx \<longrightarrow> timer_of w' (RxTimer m k) = Some (wNow w + t * 1000, RunPostRx m k False)) \<and>
    (\<forall>tm. (\<forall>(m, k) \<in> set rx. tm \<noteq> RxTimer m k) \<longrightarrow> timer_of w' tm = timer_of w tm)"
  using assms
proof (induction rx arbitrary: w)
  case Nil
  then show ?case by (simp add: devices_changed_def same_rest_def)
next
  case (Cons x rx)
  obtain m k where x: "x = (m, k)" by (cases x)
  have dev: "has_device w m k (\<lambda>dv. dvState dv = IDLE \<and> lnkTxRate (dvLink dv) = rate)"
    and tm: "timer_of w (RxTimer m k) = None" using Cons.prems(3)[of m k] x by auto
  obtain nd dv where nd: "node_of w m = Some nd" and dv: "map_of (ndDeviceTable nd) k = Some dv"
    "dvState dv = IDLE" "lnkTxRate (dvLink dv) = rate" using dev by (auto elim: has_deviceE)
  let ?nd = "put_device k (dv\<lparr>dvState := RX, dvPendingRx := Some p\<rparr>) nd"
  define w1 where "w1 = arm (RxTimer m k) (t * 1000) (RunPostRx m k False) (set_node m ?nd (wHeap w) w)"
  have "Node_StartRx (wHeap w) p k nd = Inr (?nd, [DevIO k (ArmRx t)])"
    using Node_StartRx_idle[OF dv(1,2)] dv(3) Cons.prems(1) by simp
  from on_node_keep[where f = "\<lambda>h. Node_StartRx h p k", OF nd this]
  have one: "on_node m (\<lambda>h. keep_heap (Node_StartRx h p k) h) w = Inr w1" by (simp add: w1_def)
  have m: "m \<notin> fst ` set rx" using Cons.prems(2) x by auto
  have v1: "node_of w1 = (node_of w)(m \<mapsto> ?nd)" "same_rest w w1" "wReady w1 = wReady w" "wNow w1 = wNow w"
    "wHeap w1 = wHeap w"
    "timer_of w1 = (timer_of w)(RxTimer m k \<mapsto> (wNow w + t * 1000, RunPostRx m k False))"
    by (simp_all add: w1_def same_rest_def tm)
  have "has_device w1 m' k' (\<lambda>dv. dvState dv = IDLE \<and> lnkTxRate (dvLink dv) = rate) \<and> timer_of w1 (RxTimer m' k') = None"
    if "(m', k') \<in> set rx" for m' k'
  proof -
    have "m' \<noteq> m" using that m by force
    then show ?thesis using Cons.prems(3)[of m' k'] that x by (simp add: has_device_def v1)
  qed
  with Cons.IH[of w1] Cons.prems(1,2) x v1 obtain w' where
    rest: "each (\<lambda>(m, d). on_node m (\<lambda>h. keep_heap (Node_StartRx h p d) h)) rx w1 = Inr w'"
    and ch: "devices_changed (\<lambda>dv. dv\<lparr>dvState := RX, dvPendingRx := Some p\<rparr>) rx w1 w'" and sm: "same_rest w1 w'"
    and rd: "wReady w' = wReady w1"
    and t1: "\<forall>m k. (m, k) \<in> set rx \<longrightarrow> timer_of w' (RxTimer m k) = Some (wNow w1 + t * 1000, RunPostRx m k False)"
    and t2: "\<forall>tm. (\<forall>(m, k) \<in> set rx. tm \<noteq> RxTimer m k) \<longrightarrow> timer_of w' tm = timer_of w1 tm"
    by auto
  have "timer_of w' (RxTimer m k) = timer_of w1 (RxTimer m k)" using t2 m by force
  moreover have "devices_changed (\<lambda>dv. dv\<lparr>dvState := RX, dvPendingRx := Some p\<rparr>) ((m, k) # rx) w w'"
    by (rule devices_changed_Cons[OF nd dv(1) v1(1) m ch])
  ultimately show ?case
    using one rest x v1 same_rest_trans[OF v1(2) sm] rd t1 t2 by auto
qed

text \<open>Their timers complete.\<close>

lemma timer_of_fire [simp]: "timer_of (w\<lparr>wTimers := kv_erase tm (wTimers w)\<rparr>) = (timer_of w)(tm := None)"
  by (simp add: timer_of_def fun_eq_iff um.lookup_erase)

lemma perform_fire:
  assumes "timer_of w tm = Some (expiry, t)" and "expiry \<le> wNow w" and "may_fire tm w"
  shows "perform L R (Fire tm) w = Inr (w\<lparr>wTimers := kv_erase tm (wTimers w), wReady := wReady w @ [t]\<rparr>)"
  using assms by (simp add: timer_of_def)

lemma receptions_end:
  assumes "distinct (map fst rx)" and "\<And>t m k. t \<in> set (wReady w) \<Longrightarrow> (m, k) \<in> set rx \<Longrightarrow> completed t \<noteq> Some (RxTimer m k)"
    and "\<And>m k. (m, k) \<in> set rx \<Longrightarrow> \<exists>e. timer_of w (RxTimer m k) = Some (e, RunPostRx m k False) \<and> e \<le> wNow w"
  shows "\<exists>w'. each (perform L R) (map (\<lambda>(m, k). Fire (RxTimer m k)) rx) w = Inr w' \<and>
    node_of w' = node_of w \<and> same_rest w w' \<and> wReady w' = wReady w @ map (\<lambda>(m, k). RunPostRx m k False) rx \<and>
    timer_of w' = (\<lambda>tm. if \<exists>(m, k) \<in> set rx. tm = RxTimer m k then None else timer_of w tm)"
  using assms
proof (induction rx arbitrary: w)
  case Nil
  then show ?case by (simp add: same_rest_def)
next
  case (Cons x rx)
  obtain m k where x: "x = (m, k)" by (cases x)
  obtain e where e: "timer_of w (RxTimer m k) = Some (e, RunPostRx m k False)" "e \<le> wNow w"
    using Cons.prems(3)[of m k] x by auto
  have "may_fire (RxTimer m k) w" using Cons.prems(2) x by (auto simp: may_fire_def)
  note fire = perform_fire[OF e this, of L R]
  define w1 where "w1 = w\<lparr>wTimers := kv_erase (RxTimer m k) (wTimers w), wReady := wReady w @ [RunPostRx m k False]\<rparr>"
  have v1: "node_of w1 = node_of w" "same_rest w w1" "wReady w1 = wReady w @ [RunPostRx m k False]" "wNow w1 = wNow w"
    "timer_of w1 = (timer_of w)(RxTimer m k := None)" by (simp_all add: w1_def same_rest_def)
  have ne: "m' \<noteq> m" if "(m', k') \<in> set rx" for m' k' using that Cons.prems(1) x by force
  have "\<exists>w'. each (perform L R) (map (\<lambda>(m, k). Fire (RxTimer m k)) rx) w1 = Inr w' \<and>
    node_of w' = node_of w1 \<and> same_rest w1 w' \<and> wReady w' = wReady w1 @ map (\<lambda>(m, k). RunPostRx m k False) rx \<and>
    timer_of w' = (\<lambda>tm. if \<exists>(m, k) \<in> set rx. tm = RxTimer m k then None else timer_of w1 tm)"
  proof (rule Cons.IH)
    show "distinct (map fst rx)" using Cons.prems(1) by simp
    fix t m' k' assume mk: "(m', k') \<in> set rx"
    show "\<exists>e. timer_of w1 (RxTimer m' k') = Some (e, RunPostRx m' k' False) \<and> e \<le> wNow w1"
      using Cons.prems(3)[of m' k'] mk ne[OF mk] by (simp add: v1)
    show "completed t \<noteq> Some (RxTimer m' k')" if "t \<in> set (wReady w1)"
      using that Cons.prems(2)[of t m' k'] mk ne[OF mk] by (auto simp: v1)
  qed
  then obtain w' where rest: "each (perform L R) (map (\<lambda>(m, k). Fire (RxTimer m k)) rx) w1 = Inr w'"
    "node_of w' = node_of w1" "same_rest w1 w'" "wReady w' = wReady w1 @ map (\<lambda>(m, k). RunPostRx m k False) rx"
    "timer_of w' = (\<lambda>tm. if \<exists>(m, k) \<in> set rx. tm = RxTimer m k then None else timer_of w1 tm)" by blast
  have "timer_of w' = (\<lambda>tm. if \<exists>(m, k) \<in> set (x # rx). tm = RxTimer m k then None else timer_of w tm)"
    unfolding rest(5) v1(5) x by (auto simp: fun_eq_iff)
  then show ?case
    using fire rest v1 same_rest_trans[OF v1(2) rest(3)] x by (simp add: w1_def[symmetric])
qed

section \<open>The end of the receptions\<close>

text \<open>
  \<open>same_ports\<close>: a handler keeps the routes, every face and every device of its node.
  \<open>node_kept\<close>: also the pending Interests and the cache.
\<close>

definition same_ports :: "'n node \<Rightarrow> 'n node \<Rightarrow> bool" where
  "same_ports nd nd' \<longleftrightarrow> ndId nd' = ndId nd \<and> ndFib nd' = ndFib nd \<and> ndFibManager nd' = ndFibManager nd \<and>
     (\<forall>f face. map_of (ndFaceTable nd) f = Some face \<longrightarrow> map_of (ndFaceTable nd') f = Some face) \<and>
     (\<forall>d. rel_option same_device (map_of (ndDeviceTable nd) d) (map_of (ndDeviceTable nd') d))"

definition node_kept :: "'n node \<Rightarrow> 'n node \<Rightarrow> bool" where
  "node_kept nd nd' \<longleftrightarrow> same_ports nd nd' \<and> ndPit nd' = ndPit nd \<and> ndCacheManager nd' = ndCacheManager nd"

lemma same_ports_refl [simp]: "same_ports nd nd"
  by (simp add: same_ports_def option.rel_refl)

lemma same_ports_trans:
  assumes "same_ports a b" and "same_ports b c"
  shows "same_ports a c"
proof -
  have "rel_option same_device (map_of (ndDeviceTable a) d) (map_of (ndDeviceTable c) d)" for d
  proof -
    have "rel_option same_device (map_of (ndDeviceTable a) d) (map_of (ndDeviceTable b) d)"
      and "rel_option same_device (map_of (ndDeviceTable b) d) (map_of (ndDeviceTable c) d)"
      using assms by (simp_all add: same_ports_def)
    then show ?thesis
      by (cases "map_of (ndDeviceTable a) d"; cases "map_of (ndDeviceTable b) d"; cases "map_of (ndDeviceTable c) d")
        (auto intro: same_device_trans)
  qed
  with assms show ?thesis by (simp add: same_ports_def)
qed

lemma node_kept_refl [simp]: "node_kept nd nd"
  by (simp add: node_kept_def)

lemma node_kept_trans: "node_kept a b \<Longrightarrow> node_kept b c \<Longrightarrow> node_kept a c"
  using same_ports_trans[of a b c] by (simp add: node_kept_def)

lemma node_kept_put_device:
  "map_of (ndDeviceTable nd) d = Some dv \<Longrightarrow> same_device dv dv' \<Longrightarrow> node_kept nd (put_device d dv' nd)"
  by (simp add: node_kept_def same_ports_def option.rel_refl)

text \<open>
  What a reception on the device \<open>k\<close> does to its node: the device is idle again, and, if the
  frame was \<open>mine\<close>, it has a face to the source, which may have taken one number for a face.
\<close>

definition received :: "64 word \<Rightarrow> bool \<Rightarrow> string \<Rightarrow> 'n node \<Rightarrow> 'n node \<Rightarrow> bool" where
  "received src mine k nd nd' \<longleftrightarrow> node_kept nd nd' \<and> (\<forall>j. j \<noteq> k \<longrightarrow> map_of (ndDeviceTable nd') j = map_of (ndDeviceTable nd) j) \<and>
     (\<exists>dv dv'. map_of (ndDeviceTable nd) k = Some dv \<and> map_of (ndDeviceTable nd') k = Some dv' \<and>
        dvState dv' = IDLE \<and> dvTxQueue dv' = dvTxQueue dv \<and> ndFaceCounter nd' \<le> ndFaceCounter nd + 1 \<and>
        (mine \<longrightarrow> (\<exists>lf. map_of (dvFaces dv') src = Some lf \<and> lfRemoteMac lf = src \<and> lfDevice lf = k \<and>
           map_of (ndFaceTable nd') (lfId lf) = Some (LinkFc lf))))"

definition source_face :: "64 word \<Rightarrow> string \<Rightarrow> 'n node \<Rightarrow> int" where
  "source_face src k nd = lfId (the (map_of (dvFaces (the (map_of (ndDeviceTable nd) k))) src))"

lemma receive_frame_total:
  assumes "ndFaceCounter nd < 2 ^ 31 - 1"
  shows "\<exists>dv1 nd1 io. receive_frame Node_AddLinkFace h p dv nd = Inr (dv1, nd1, io)"
proof (cases "receive_frame Node_AddLinkFace h p dv nd")
  case (Inl e)
  then show ?thesis
    using assms
    by (auto simp: receive_frame_def Let_def and_then_Inl_iff AddLinkFace_total(2) split: if_splits option.splits)
next
  case (Inr r)
  then show ?thesis by (cases r) simp
qed

lemma Node_PostRx_frame:
  assumes "node_ok nd" and "map_of (ndDeviceTable nd) k = Some dv" and "dvState dv = RX" and "dvPendingRx dv = Some p"
    and mine_def: "mine \<longleftrightarrow> Packet_GetDst h p = dvMac dv \<or> Packet_GetDst h p = BROADCAST_MAC"
    and number: "ndFaceCounter nd < 2 ^ 31 - 1"
  shows "\<exists>nd'. Node_PostRx h False k nd = Inr (nd', if mine
      then [DevIO k (PostDispatch (source_face (Packet_GetSrc h p) k nd') (Packet_GetBlock h p))] else []) \<and>
    received (Packet_GetSrc h p) mine k nd nd'"
proof -
  let ?src = "Packet_GetSrc h p" and ?wire = "Packet_GetBlock h p"
  note tab = node_okD(1)[OF assms(1)]
  note dv = tables_ok_device[OF tab assms(2)]
  obtain dv1 nd1 io where rf: "receive_frame Node_AddLinkFace h p dv nd = Inr (dv1, nd1, io)"
    using receive_frame_total[OF number] by metis
  note ok = node.receive_frame_ok[OF tab dv(3,4) rf]
  let ?dv = "dv1\<lparr>dvState := IDLE\<rparr>"
  define nd' where "nd' = put_device k ?dv nd1"
  have rx: "Node_PostRx h False k nd = Inr (nd', map (DevIO k) io)"
    using assms(2-4) rf
    by (simp add: Node_PostRx_def Node_on_device_def Node_GetDevice_def LinkDevice_PostRx_def nd'_def put_device_def)
  have nd1: "ndDeviceTable nd1 = ndDeviceTable nd \<and> node_kept nd nd1 \<and> ndFaceCounter nd1 \<le> ndFaceCounter nd + 1"
  proof (cases "nd1 = nd")
    case False
    then obtain m d f where add: "Node_AddLinkFace m d nd = Inr (f, nd1)"
      using rf by (auto simp: receive_frame_def Let_def and_then_Inr_iff split: if_splits option.splits prod.splits)
    note f = AddLinkFace_fields[OF add]
    show ?thesis
      using fresh_face[OF tab] by (auto simp: f(2) node_kept_def same_ports_def option.rel_refl kv_simps)
  qed simp
  have "node_kept nd nd'"
    unfolding nd'_def using nd1 assms(2) ok
    by (intro node_kept_trans[OF conjunct1[OF conjunct2[OF nd1]] node_kept_put_device[of _ _ dv]])
      (simp_all add: same_device_def)
  moreover have "\<exists>lf. map_of (dvFaces ?dv) ?src = Some lf \<and> lfRemoteMac lf = ?src \<and> lfDevice lf = k \<and>
      map_of (ndFaceTable nd') (lfId lf) = Some (LinkFc lf) \<and> io = [PostDispatch (lfId lf) ?wire]" if mine
  proof -
    from ok that obtain lf where lf: "map_of (dvFaces dv1) ?src = Some lf" "io = [PostDispatch (lfId lf) ?wire]"
      by (auto simp: mine_def)
    have "faces_known Node_link_face dv1 nd1" using ok by simp
    from faces_knownD[OF this lf(1)] have "lfRemoteMac lf = ?src" "lfDevice lf = dvId dv1"
      "Node_link_face nd1 (lfId lf) = Some lf" by simp_all
    moreover have "dvId dv1 = k" using ok dv(1) by (simp add: same_device_def)
    ultimately show ?thesis
      using lf by (auto simp: nd'_def Node_link_face_def split: option.splits face.splits)
  qed
  moreover have "io = []" if "\<not> mine" using ok that by (simp add: mine_def)
  ultimately show ?thesis
    using rx ok nd1 assms(2)
    by (intro exI[of _ nd']) (auto simp: received_def source_face_def nd'_def split: if_splits)
qed

definition addressed :: "'n world \<Rightarrow> pkt_ref \<Rightarrow> string \<times> string \<Rightarrow> bool" where
  "addressed w p x \<longleftrightarrow> (\<exists>dv. device_of (fst x) (snd x) (wEm w) = Some dv \<and>
     (Packet_GetDst (wHeap w) p = dvMac dv \<or> Packet_GetDst (wHeap w) p = BROADCAST_MAC))"

definition dispatch_of :: "'n world \<Rightarrow> pkt_ref \<Rightarrow> string \<times> string \<Rightarrow> task" where
  "dispatch_of w p x = RunDispatch (fst x)
     (case node_of w (fst x) of None \<Rightarrow> 0 | Some nd \<Rightarrow> source_face (Packet_GetSrc (wHeap w) p) (snd x) nd)
     (Packet_GetBlock (wHeap w) p)"

definition frame_received :: "pkt_ref \<Rightarrow> (string \<times> string) list \<Rightarrow> 'n world \<Rightarrow> 'n world \<Rightarrow> bool" where
  "frame_received p rx w w' \<longleftrightarrow>
     (\<forall>(m, k) \<in> set rx. \<exists>nd nd'. node_of w m = Some nd \<and> node_of w' m = Some nd' \<and>
        received (Packet_GetSrc (wHeap w) p) (addressed w p (m, k)) k nd nd') \<and>
     (\<forall>n. n \<notin> fst ` set rx \<longrightarrow> node_of w' n = node_of w n)"

lemma receptions_done:
  assumes "distinct (map fst rx)" and "wReady w = map (\<lambda>(m, k). RunPostRx m k False) rx @ ts"
    and "\<And>m k. (m, k) \<in> set rx \<Longrightarrow> \<exists>nd dv. node_of w m = Some nd \<and> node_ok nd \<and> ndFaceCounter nd < 2 ^ 31 - 1 \<and>
      map_of (ndDeviceTable nd) k = Some dv \<and> dvState dv = RX \<and> dvPendingRx dv = Some p"
  shows "\<exists>w'. each (perform L R) (replicate (length rx) Run) w = Inr w' \<and> frame_received p rx w w' \<and>
    same_rest w w' \<and> wReady w' = ts @ map (dispatch_of w' p) (filter (addressed w p) rx) \<and> timer_of w' = timer_of w"
  using assms
proof (induction rx arbitrary: w ts)
  case Nil
  then show ?case by (simp add: frame_received_def same_rest_def)
next
  case (Cons x rx)
  obtain m k where x: "x = (m, k)" by (cases x)
  obtain nd dv where nd: "node_of w m = Some nd" "node_ok nd" "ndFaceCounter nd < 2 ^ 31 - 1"
    and dv: "map_of (ndDeviceTable nd) k = Some dv" "dvState dv = RX" "dvPendingRx dv = Some p" using Cons.prems(3)[of m k] x by auto
  let ?w = "w\<lparr>wReady := map (\<lambda>(m, k). RunPostRx m k False) rx @ ts\<rparr>"
  let ?src = "Packet_GetSrc (wHeap w) p" and ?wire = "Packet_GetBlock (wHeap w) p"
  let ?mine = "addressed w p (m, k)"
  have "?mine \<longleftrightarrow> Packet_GetDst (wHeap w) p = dvMac dv \<or> Packet_GetDst (wHeap w) p = BROADCAST_MAC"
    using nd(1) dv(1) by (simp add: addressed_def device_of_node)
  from Node_PostRx_frame[OF nd(2) dv this nd(3)] obtain nd1 where
    rx: "Node_PostRx (wHeap w) False k nd = Inr (nd1, if ?mine
      then [DevIO k (PostDispatch (source_face ?src k nd1) ?wire)] else [])"
    and rcv: "received ?src ?mine k nd nd1" by blast
  define out where "out = (if ?mine then [DevIO k (PostDispatch (source_face ?src k nd1) ?wire)] else [])"
  define w1 where "w1 = fold (node_request m) out (set_node m nd1 (wHeap w) ?w)"
  have "on_node m (\<lambda>h. keep_heap (Node_PostRx h False k) h) ?w = Inr w1"
    using on_node_keep[where f = "\<lambda>h. Node_PostRx h False k" and w = ?w and n = m, of nd nd1 out] nd(1) rx
    by (simp add: w1_def out_def)
  then have one: "perform L R Run w = Inr w1" using Cons.prems(2) x by simp
  define ts1 where "ts1 = ts @ (if ?mine then [RunDispatch m (source_face ?src k nd1) ?wire] else [])"
  have v1: "node_of w1 = (node_of w)(m \<mapsto> nd1)" "same_rest w w1" "timer_of w1 = timer_of w" "wHeap w1 = wHeap w"
    "wReady w1 = map (\<lambda>(m, k). RunPostRx m k False) rx @ ts1"
    by (simp_all add: w1_def out_def ts1_def same_rest_def)
  have m: "m \<notin> fst ` set rx" using Cons.prems(1) x by auto
  have "\<exists>w'. each (perform L R) (replicate (length rx) Run) w1 = Inr w' \<and> frame_received p rx w1 w' \<and>
    same_rest w1 w' \<and> wReady w' = ts1 @ map (dispatch_of w' p) (filter (addressed w1 p) rx) \<and> timer_of w' = timer_of w1"
  proof (rule Cons.IH)
    fix m' k' assume mk: "(m', k') \<in> set rx"
    then have "m' \<noteq> m" using m by force
    with Cons.prems(3)[of m' k'] mk show "\<exists>nd dv. node_of w1 m' = Some nd \<and> node_ok nd \<and>
      ndFaceCounter nd < 2 ^ 31 - 1 \<and> map_of (ndDeviceTable nd) k' = Some dv \<and> dvState dv = RX \<and> dvPendingRx dv = Some p" by (simp add: v1)
  qed (use Cons.prems v1 in simp_all)
  then obtain w' where rest: "each (perform L R) (replicate (length rx) Run) w1 = Inr w'"
    "frame_received p rx w1 w'" "same_rest w1 w'" "timer_of w' = timer_of w1"
    "wReady w' = ts1 @ map (dispatch_of w' p) (filter (addressed w1 p) rx)" by blast
  have other: "addressed w1 p y = addressed w p y" if "y \<in> set rx" for y
    using that m by (auto simp: addressed_def device_of_node v1)
  then have "filter (addressed w1 p) rx = filter (addressed w p) rx" by (simp cong: filter_cong)
  moreover have "node_of w' m = Some nd1" using rest(2) m by (simp add: frame_received_def v1)
  moreover have "wHeap w' = wHeap w" using rest(3) v1(4) by (simp add: same_rest_def)
  ultimately have ready: "wReady w' = ts @ map (dispatch_of w' p) (filter (addressed w p) (x # rx))"
    by (simp add: rest(5) ts1_def x dispatch_of_def)
  have "\<exists>nd nd'. node_of w m' = Some nd \<and> node_of w' m' = Some nd' \<and>
      received ?src (addressed w p (m', k')) k' nd nd'" if mk: "(m', k') \<in> set rx" for m' k'
  proof -
    have "m' \<noteq> m" using mk m by force
    then show ?thesis using rest(2) mk other[OF mk] by (fastforce simp: frame_received_def v1)
  qed
  moreover have "node_of w' n = node_of w n" if "n \<notin> fst ` set (x # rx)" for n
    using rest(2) that x by (simp add: frame_received_def v1)
  ultimately have "frame_received p (x # rx) w w'"
    using x nd(1) \<open>node_of w' m = Some nd1\<close> rcv by (auto simp: frame_received_def)
  then show ?case
    using one rest v1 same_rest_trans[OF v1(2) rest(3)] ready by simp
qed

section \<open>The sender\<close>

lemma Node_DoCsma_idle:
  assumes "map_of (ndDeviceTable nd) d = Some dv" and "dvState dv = IDLE" and "dvTxQueue dv = p # ps"
    and "tx_delay (lnkTxRate (dvLink dv)) (Packet_GetLength h p) = Inr t"
  shows "Node_DoCsma R h NB BE False d nd = Inr (put_device d (dv\<lparr>dvState := TX\<rparr>) nd,
    [DevIO d (PostTransmit (lnkId (dvLink dv)) (dvNodeId dv) p), DevIO d (ArmCsma (-1) (-1) t)])"
  using assms
  by (simp add: Node_DoCsma_def Node_on_device_def Node_GetDevice_def LinkDevice_DoCsma_def put_device_def)

lemma Node_DoCsma_sent:
  assumes "map_of (ndDeviceTable nd) d = Some dv" and "dvState dv = TX" and "dvTxQueue dv = [p]"
  shows "Node_DoCsma R h NB BE False d nd = Inr (put_device d (dv\<lparr>dvTxQueue := [], dvState := IDLE\<rparr>) nd, [])"
  using assms
  by (simp add: Node_DoCsma_def Node_on_device_def Node_GetDevice_def LinkDevice_DoCsma_def next_in_queue_def put_device_def)

text \<open>The two handlers of the sender, each after the completion of the CSMA timer.\<close>

lemma transmission_starts:
  assumes "wReady w = []" and "node_of w a = Some nd" and "map_of (ndDeviceTable nd) d = Some dv"
    and "dvState dv = IDLE" and "dvTxQueue dv = p # ps" and "dvNodeId dv = a"
    and "timer_of w (CsmaTimer a d) = Some (e, RunDoCsma a d NB BE False)" and "e \<le> wNow w"
    and "tx_delay (lnkTxRate (dvLink dv)) (Packet_GetLength (wHeap w) p) = Inr t"
  shows "\<exists>w'. each (perform L R) [Fire (CsmaTimer a d), Run] w = Inr w' \<and>
    node_of w' = (node_of w)(a \<mapsto> put_device d (dv\<lparr>dvState := TX\<rparr>) nd) \<and> same_rest w w' \<and>
    wReady w' = [RunTransmit (lnkId (dvLink dv)) a p] \<and>
    timer_of w' = (timer_of w)(CsmaTimer a d \<mapsto> (wNow w + t * 1000, RunDoCsma a d (-1) (-1) False))"
proof -
  let ?nd = "put_device d (dv\<lparr>dvState := TX\<rparr>) nd" and ?l = "lnkId (dvLink dv)"
  have "may_fire (CsmaTimer a d) w" by (simp add: may_fire_def assms(1))
  note fire = perform_fire[OF assms(7,8) this, of L R]
  let ?w1 = "w\<lparr>wTimers := kv_erase (CsmaTimer a d) (wTimers w), wReady := [RunDoCsma a d NB BE False]\<rparr>"
  let ?w2 = "?w1\<lparr>wReady := []\<rparr>"
  have "Node_DoCsma R (wHeap w) NB BE False d nd =
      Inr (?nd, [DevIO d (PostTransmit ?l a p), DevIO d (ArmCsma (-1) (-1) t)])"
    using Node_DoCsma_idle[OF assms(3-5,9)] assms(6) by simp
  then have run: "on_node a (\<lambda>h. keep_heap (Node_DoCsma R h NB BE False d) h) ?w2 =
      Inr (arm (CsmaTimer a d) (t * 1000) (RunDoCsma a d (-1) (-1) False)
        (post (RunTransmit ?l a p) (set_node a ?nd (wHeap w) ?w2)))"
    using on_node_keep[where f = "\<lambda>h. Node_DoCsma R h NB BE False d" and w = ?w2 and n = a, of nd] assms(2)
    by simp
  show ?thesis
    using fire run assms(1) by (simp add: same_rest_def)
qed

lemma transmission_ends:
  assumes "wReady w = []" and "node_of w a = Some nd" and "map_of (ndDeviceTable nd) d = Some dv"
    and "dvState dv = TX" and "dvTxQueue dv = [p]"
    and "timer_of w (CsmaTimer a d) = Some (e, RunDoCsma a d NB BE False)" and "e \<le> wNow w"
  shows "\<exists>w'. each (perform L R) [Fire (CsmaTimer a d), Run] w = Inr w' \<and>
    node_of w' = (node_of w)(a \<mapsto> put_device d (dv\<lparr>dvTxQueue := [], dvState := IDLE\<rparr>) nd) \<and> same_rest w w' \<and>
    wReady w' = [] \<and> timer_of w' = (timer_of w)(CsmaTimer a d := None)"
proof -
  have "may_fire (CsmaTimer a d) w" by (simp add: may_fire_def assms(1))
  note fire = perform_fire[OF assms(6,7) this, of L R]
  let ?w2 = "w\<lparr>wTimers := kv_erase (CsmaTimer a d) (wTimers w), wReady := []\<rparr>"
  have run: "on_node a (\<lambda>h. keep_heap (Node_DoCsma R h NB BE False d) h) ?w2 =
      Inr (set_node a (put_device d (dv\<lparr>dvTxQueue := [], dvState := IDLE\<rparr>) nd) (wHeap w) ?w2)"
    using on_node_keep[where f = "\<lambda>h. Node_DoCsma R h NB BE False d" and w = ?w2 and n = a, of nd] assms(2)
      Node_DoCsma_sent[OF assms(3-5)] by simp
  show ?thesis
    using fire run assms(1) by (simp add: same_rest_def)
qed

lemma transmit_task:
  assumes "link_of w l = Some lk" and "Link_Transmit R a lk = Inr (rx, lk')"
    and "tx_delay rate (Packet_GetLength (wHeap w) p) = Inr t" and "distinct (map fst rx)"
    and "wReady w = [RunTransmit l a p]"
    and "\<And>m k. (m, k) \<in> set rx \<Longrightarrow> has_device w m k (\<lambda>dv. dvState dv = IDLE \<and> lnkTxRate (dvLink dv) = rate) \<and>
      timer_of w (RxTimer m k) = None"
  shows "\<exists>w'. perform L R Run w = Inr w' \<and>
    devices_changed (\<lambda>dv. dv\<lparr>dvState := RX, dvPendingRx := Some p\<rparr>) rx w w' \<and> link_of w' = (link_of w)(l \<mapsto> lk') \<and>
    wHeap w' = wHeap w \<and> wNow w' = wNow w \<and> wSent w' = wSent w \<and> wReceives w' = wReceives w \<and> wReady w' = [] \<and>
    (\<forall>m k. (m, k) \<in> set rx \<longrightarrow> timer_of w' (RxTimer m k) = Some (wNow w + t * 1000, RunPostRx m k False)) \<and>
    (\<forall>tm. (\<forall>(m, k) \<in> set rx. tm \<noteq> RxTimer m k) \<longrightarrow> timer_of w' tm = timer_of w tm)"
proof -
  let ?w = "w\<lparr>wReady := [], wEm := (wEm w)\<lparr>emLinkTable := om_put l lk' (emLinkTable (wEm w))\<rparr>\<rparr>"
  have v: "node_of ?w = node_of w" "timer_of ?w = timer_of w" "link_of ?w = (link_of w)(l \<mapsto> lk')"
    by (simp_all add: node_of_def timer_of_def link_of_def fun_eq_iff kv_simps)
  have "\<exists>w'. each (\<lambda>(m, d). on_node m (\<lambda>h. keep_heap (Node_StartRx h p d) h)) rx ?w = Inr w' \<and>
    devices_changed (\<lambda>dv. dv\<lparr>dvState := RX, dvPendingRx := Some p\<rparr>) rx ?w w' \<and> same_rest ?w w' \<and> wReady w' = wReady ?w \<and>
    (\<forall>m k. (m, k) \<in> set rx \<longrightarrow> timer_of w' (RxTimer m k) = Some (wNow ?w + t * 1000, RunPostRx m k False)) \<and>
    (\<forall>tm. (\<forall>(m, k) \<in> set rx. tm \<noteq> RxTimer m k) \<longrightarrow> timer_of w' tm = timer_of ?w tm)"
    using assms(3,4,6) by (intro start_receptions) (auto simp: has_device_def v)
  then obtain w' where w': "each (\<lambda>(m, d). on_node m (\<lambda>h. keep_heap (Node_StartRx h p d) h)) rx ?w = Inr w'"
    "devices_changed (\<lambda>dv. dv\<lparr>dvState := RX, dvPendingRx := Some p\<rparr>) rx ?w w'" "same_rest ?w w'" "wReady w' = wReady ?w"
    "\<forall>m k. (m, k) \<in> set rx \<longrightarrow> timer_of w' (RxTimer m k) = Some (wNow ?w + t * 1000, RunPostRx m k False)"
    "\<forall>tm. (\<forall>(m, k) \<in> set rx. tm \<noteq> RxTimer m k) \<longrightarrow> timer_of w' tm = timer_of ?w tm"
    by (elim exE conjE) (rule that)
  have "perform L R Run w = Inr w'"
    using assms(1,2,5) w'(1) by (simp add: World_Transmit_def link_of_def)
  then show ?thesis
    using w' v by (intro exI[of _ w']) (simp add: same_rest_def devices_changed_def)
qed

section \<open>From the queue of a device to its neighbours\<close>

text \<open>
  The schedule of one frame that is on the air for \<open>t\<close> microseconds: its transmission starts and
  the link hands it to the receivers \<open>rx\<close>; when the time has passed the transmission ends, and
  then the receptions, in the order of the link.
\<close>

definition frame_schedule :: "string \<Rightarrow> string \<Rightarrow> time \<Rightarrow> (string \<times> string) list \<Rightarrow> action list" where
  "frame_schedule a d at_end rx =
     [Fire (CsmaTimer a d), Run, Run, Tick at_end, Fire (CsmaTimer a d), Run] @
     map (\<lambda>(m, k). Fire (RxTimer m k)) rx @ replicate (length rx) Run"

lemma each_chain: "each f xs s = Inr s1 \<Longrightarrow> each f ys s1 = Inr t \<Longrightarrow> each f (xs @ ys) s = Inr t"
  by (simp add: each_append)

lemma each_one: "perform L R x s = Inr t \<Longrightarrow> each (perform L R) [x] s = Inr t"
  by simp

lemma schedule_world:
  assumes "world_ok w" and "each (perform L R) as w = Inr w'"
  shows "world_ok w'"
  by (rule each_invariant[OF assms(2), where I = world_ok]) (auto intro: assms(1) step_world perform_step)

lemma world_node:
  assumes "world_ok w" and "node_of w n = Some nd"
  shows "node_ok nd" and "ndId nd = n"
  using world_okD(3)[OF assms(1)] assms(2) by (simp_all add: node_of_def)

lemma subseq_distinct_map: "subseq xs ys \<Longrightarrow> distinct ys \<Longrightarrow> distinct xs"
  by (induction rule: list_emb.induct) (auto dest: list_emb_set)

text \<open>What \<open>Transmit\<close> returns, seen from the emulator: devices on this link, none of the sender.\<close>

lemma receivers:
  assumes "world_ok w" and "link_of w l = Some lk" and "Link_Transmit R a lk = Inr (rx, lk')"
  shows "lnkId lk = l" and "distinct (map fst rx)" and "a \<notin> fst ` set rx"
    and "(m, k) \<in> set rx \<Longrightarrow> \<exists>nd dv. node_of w m = Some nd \<and> map_of (ndDeviceTable nd) k = Some dv \<and>
      dvLink dv = Link_const lk"
proof -
  note em = world_okD(4)[OF assms(1)]
  have lk: "map_of (emLinkTable (wEm w)) l = Some lk" using assms(2) by (simp add: link_of_def)
  then show "lnkId lk = l" using emulator_okD(2)[OF em] by blast
  have ok: "link_ok lk" using emulator_okD(2)[OF em lk] by blast
  have sub: "subseq (map fst rx) (map fst (row a lk))"
    and dev: "\<forall>d \<in> set rx. map_of (lnkNodeTable lk) (fst d) = Some (snd d)"
    using Transmit_ok[OF ok, of R a] assms(3) by auto
  have row: "row_ok (lnkNodeTable lk) a (row a lk)" by (rule row_ok_row[OF ok])
  then have "distinct (map fst (row a lk))" using om.ok_distinct by (auto simp: row_ok_def)
  then show "distinct (map fst rx)" using sub subseq_distinct_map by blast
  have "a \<notin> set (map fst (row a lk))" using row by (auto simp: row_ok_def)
  then show "a \<notin> fst ` set rx" using subseq_set[OF sub] by auto
  assume "(m, k) \<in> set rx"
  then have "map_of (lnkNodeTable lk) m = Some k" using dev by auto
  from emulator_okD(3)[OF em lk this] show "\<exists>nd dv. node_of w m = Some nd \<and>
      map_of (ndDeviceTable nd) k = Some dv \<and> dvLink dv = Link_const lk"
    by (auto simp: device_of_def node_of_def split: option.splits)
qed

text \<open>
  A frame that waits in the queue of an idle device, when the CSMA timer is due and the devices of
  its receivers are quiet.
\<close>

definition ready_to_send :: "'n world \<Rightarrow> string \<Rightarrow> string \<Rightarrow> pkt_ref \<Rightarrow> 'n node \<Rightarrow> device \<Rightarrow> bool" where
  "ready_to_send w a d p nd dv \<longleftrightarrow> wReady w = [] \<and> node_of w a = Some nd \<and> map_of (ndDeviceTable nd) d = Some dv \<and>
     dvState dv = IDLE \<and> dvTxQueue dv = [p] \<and>
     (\<exists>e NB BE. timer_of w (CsmaTimer a d) = Some (e, RunDoCsma a d NB BE False) \<and> e \<le> wNow w)"

text \<open>
  The numbers of faces are ints. A node \<open>has_number\<close> if it can number one more face; \<open>face_room k\<close>
  says that every node can number \<open>k\<close> more.
\<close>

definition has_number :: "'n world \<Rightarrow> string \<Rightarrow> bool" where
  "has_number w n \<longleftrightarrow> (\<forall>nd. node_of w n = Some nd \<longrightarrow> ndFaceCounter nd < 2 ^ 31 - 1)"

definition face_room :: "nat \<Rightarrow> 'n world \<Rightarrow> bool" where
  "face_room k w \<longleftrightarrow> (\<forall>n nd. node_of w n = Some nd \<longrightarrow> ndFaceCounter nd + int k < 2 ^ 31)"

lemma received_before:
  assumes "received src mine k (put_device k dv1 nd) nd'" and "map_of (ndDeviceTable nd) k = Some dv"
    and "same_device dv dv1" and "dvTxQueue dv1 = dvTxQueue dv"
  shows "received src mine k nd nd'"
  using assms node_kept_trans[OF node_kept_put_device[OF assms(2,3)]] by (auto simp: received_def)

lemma tx_delay_nonneg: "tx_delay rate len = Inr t \<Longrightarrow> 0 < rate \<Longrightarrow> 0 \<le> t"
  by (auto simp: tx_delay_def trunc_real_def)

lemma frame_crosses_link:
  assumes ok: "world_ok w" and ready: "ready_to_send w a d p nd dv"
    and lk: "link_of w (lnkId (dvLink dv)) = Some lk" and tr: "Link_Transmit R a lk = Inr (rx, lk')"
    and quiet_rx: "\<forall>(m, k) \<in> set rx. quiet w m k \<and> has_number w m"
    and t: "tx_delay (lnkTxRate lk) (Packet_GetLength (wHeap w) p) = Inr t" and rate: "0 < lnkTxRate lk"
  shows "\<exists>w'. each (perform L R) (frame_schedule a d (wNow w + t * 1000) rx) w = Inr w' \<and> world_ok w' \<and>
    wNow w' = wNow w + t * 1000 \<and> wHeap w' = wHeap w \<and> wSent w' = wSent w \<and> wReceives w' = wReceives w \<and>
    wReady w' = map (dispatch_of w' p) (filter (addressed w p) rx) \<and>
    frame_received p rx (set_node a (put_device d (dv\<lparr>dvTxQueue := []\<rparr>) nd) (wHeap w) w) w' \<and>
    link_of w' = (link_of w)(lnkId lk \<mapsto> lk') \<and> timer_of w' = (timer_of w)(CsmaTimer a d := None)"
proof -
  let ?l = "lnkId (dvLink dv)"
  note rx = receivers[OF ok lk tr]
  have quiet: "quiet w m k" if "(m, k) \<in> set rx" for m k using quiet_rx that by blast
  obtain e NB BE where w: "wReady w = []" "node_of w a = Some nd" "map_of (ndDeviceTable nd) d = Some dv"
    "dvState dv = IDLE" "dvTxQueue dv = [p]" "timer_of w (CsmaTimer a d) = Some (e, RunDoCsma a d NB BE False)"
    "e \<le> wNow w" using ready by (auto simp: ready_to_send_def)
  note nd = world_node[OF ok w(2)]
  note dv = tables_ok_device[OF node_okD(1)[OF nd(1)] w(3)]
  have na: "dvNodeId dv = a" using dv(2) nd(2) by simp
  have "device_of a d (wEm w) = Some dv" using w(2,3) by (simp add: device_of_node)
  then have const: "dvLink dv = Link_const lk"
    using emulator_okD(4)[OF world_okD(4)[OF ok]] lk by (fastforce simp: link_of_def)
  have t': "tx_delay (lnkTxRate (dvLink dv)) (Packet_GetLength (wHeap w) p) = Inr t" using t const by simp
  \<comment> \<open>the transmission starts\<close>
  obtain w1 where w1: "each (perform L R) [Fire (CsmaTimer a d), Run] w = Inr w1"
    "node_of w1 = (node_of w)(a \<mapsto> put_device d (dv\<lparr>dvState := TX\<rparr>) nd)" "same_rest w w1"
    "wReady w1 = [RunTransmit ?l a p]"
    "timer_of w1 = (timer_of w)(CsmaTimer a d \<mapsto> (wNow w + t * 1000, RunDoCsma a d (-1) (-1) False))"
    using transmission_starts[OF w(1-5) na w(6,7) t'] by blast
  have ne: "m \<noteq> a" if "(m, k) \<in> set rx" for m k using that rx(3) by force
  have dev: "has_device w1 m k (\<lambda>dv. dvState dv = IDLE \<and> lnkTxRate (dvLink dv) = lnkTxRate lk) \<and>
      timer_of w1 (RxTimer m k) = None" if mk: "(m, k) \<in> set rx" for m k
  proof -
    from rx(4)[OF mk] obtain nm dm where "node_of w m = Some nm" "map_of (ndDeviceTable nm) k = Some dm"
      "dvLink dm = Link_const lk" by blast
    with quiet[OF mk] ne[OF mk] show ?thesis
      by (simp add: has_device_def quiet_def device_of_node w1)
  qed
  \<comment> \<open>the link hands the frame to the receivers\<close>
  have "\<exists>w2. perform L R Run w1 = Inr w2 \<and>
    devices_changed (\<lambda>dv. dv\<lparr>dvState := RX, dvPendingRx := Some p\<rparr>) rx w1 w2 \<and> link_of w2 = (link_of w1)(?l \<mapsto> lk') \<and>
    wHeap w2 = wHeap w1 \<and> wNow w2 = wNow w1 \<and> wSent w2 = wSent w1 \<and> wReceives w2 = wReceives w1 \<and> wReady w2 = [] \<and>
    (\<forall>m k. (m, k) \<in> set rx \<longrightarrow> timer_of w2 (RxTimer m k) = Some (wNow w1 + t * 1000, RunPostRx m k False)) \<and>
    (\<forall>tm. (\<forall>(m, k) \<in> set rx. tm \<noteq> RxTimer m k) \<longrightarrow> timer_of w2 tm = timer_of w1 tm)"
    using w1(3) lk t by (intro transmit_task[OF _ tr _ rx(2) w1(4) dev]) (simp_all add: same_rest_def)
  then obtain w2 where w2: "perform L R Run w1 = Inr w2"
    "devices_changed (\<lambda>dv. dv\<lparr>dvState := RX, dvPendingRx := Some p\<rparr>) rx w1 w2" "link_of w2 = (link_of w1)(?l \<mapsto> lk')"
    "wHeap w2 = wHeap w1" "wNow w2 = wNow w1" "wSent w2 = wSent w1" "wReceives w2 = wReceives w1" "wReady w2 = []"
    "\<forall>m k. (m, k) \<in> set rx \<longrightarrow> timer_of w2 (RxTimer m k) = Some (wNow w1 + t * 1000, RunPostRx m k False)"
    "\<forall>tm. (\<forall>(m, k) \<in> set rx. tm \<noteq> RxTimer m k) \<longrightarrow> timer_of w2 tm = timer_of w1 tm"
    by (elim exE conjE) (rule that)
  have now: "wNow w1 = wNow w" "wHeap w1 = wHeap w" "link_of w1 = link_of w" "wSent w1 = wSent w"
    "wReceives w1 = wReceives w" using w1(3) by (simp_all add: same_rest_def)
  \<comment> \<open>the time passes, and the transmission ends\<close>
  define w3 where "w3 = w2\<lparr>wNow := wNow w + t * 1000\<rparr>"
  have tick: "perform L R (Tick (wNow w + t * 1000)) w2 = Inr w3"
    using tx_delay_nonneg[OF t rate] by (simp add: w3_def w2(5) now)
  have na2: "node_of w3 a = Some (put_device d (dv\<lparr>dvState := TX\<rparr>) nd)"
    using w2(2) rx(3) by (simp add: devices_changed_def w3_def w1(2))
  have tm3: "timer_of w3 (CsmaTimer a d) = Some (wNow w + t * 1000, RunDoCsma a d (-1) (-1) False)"
    using w2(10) by (simp add: w3_def w1(5) split_beta)
  obtain w4 where w4: "each (perform L R) [Fire (CsmaTimer a d), Run] w3 = Inr w4"
    "node_of w4 = (node_of w3)(a \<mapsto> put_device d ((dv\<lparr>dvState := TX\<rparr>)\<lparr>dvTxQueue := [], dvState := IDLE\<rparr>)
       (put_device d (dv\<lparr>dvState := TX\<rparr>) nd))" "same_rest w3 w4" "wReady w4 = []"
    "timer_of w4 = (timer_of w3)(CsmaTimer a d := None)"
    using transmission_ends[OF _ na2 _ _ _ tm3, where dv = "dv\<lparr>dvState := TX\<rparr>" and p = p and L = L and R = R]
      w2(8) w(5) by (auto simp: w3_def)
  have idle_again: "(dv\<lparr>dvState := TX\<rparr>)\<lparr>dvTxQueue := [], dvState := IDLE\<rparr> = dv\<lparr>dvTxQueue := []\<rparr>" using w(4) by simp
  \<comment> \<open>the receptions end\<close>
  have "\<exists>w5. each (perform L R) (map (\<lambda>(m, k). Fire (RxTimer m k)) rx) w4 = Inr w5 \<and>
    node_of w5 = node_of w4 \<and> same_rest w4 w5 \<and> wReady w5 = wReady w4 @ map (\<lambda>(m, k). RunPostRx m k False) rx \<and>
    timer_of w5 = (\<lambda>tm. if \<exists>(m, k) \<in> set rx. tm = RxTimer m k then None else timer_of w4 tm)"
    using w2(9) w4(3) by (intro receptions_end rx(2)) (simp_all add: w4 w3_def now same_rest_def)
  then obtain w5 where w5: "each (perform L R) (map (\<lambda>(m, k). Fire (RxTimer m k)) rx) w4 = Inr w5"
    "node_of w5 = node_of w4" "same_rest w4 w5" "wReady w5 = map (\<lambda>(m, k). RunPostRx m k False) rx @ []"
    "timer_of w5 = (\<lambda>tm. if \<exists>(m, k) \<in> set rx. tm = RxTimer m k then None else timer_of w4 tm)"
    using w4(4) by auto
  have src: "node_of w5 m = node_of w2 m" if "m \<noteq> a" for m
    using that by (simp add: w5(2) w4(2) w3_def)
  have w05: "each (perform L R) ([Fire (CsmaTimer a d), Run, Run, Tick (wNow w + t * 1000), Fire (CsmaTimer a d), Run] @
      map (\<lambda>(m, k). Fire (RxTimer m k)) rx) w = Inr w5"
    using each_chain[OF w1(1) each_chain[OF each_one[OF w2(1)] each_chain[OF each_one[OF tick] each_chain[OF w4(1) w5(1)]]]]
    by (simp only: append_Cons append_Nil)
  note ok5 = schedule_world[OF ok w05]
  have rec: "\<exists>nm dm. node_of w m = Some nm \<and> map_of (ndDeviceTable nm) k = Some dm \<and>
      node_of w5 m = Some (put_device k (dm\<lparr>dvState := RX, dvPendingRx := Some p\<rparr>) nm)" if mk: "(m, k) \<in> set rx" for m k
    using w2(2) mk ne[OF mk] src[OF ne[OF mk]] by (fastforce simp: devices_changed_def w1(2))
  have "\<exists>w6. each (perform L R) (replicate (length rx) Run) w5 = Inr w6 \<and> frame_received p rx w5 w6 \<and>
    same_rest w5 w6 \<and> wReady w6 = [] @ map (dispatch_of w6 p) (filter (addressed w5 p) rx) \<and> timer_of w6 = timer_of w5"
  proof (rule receptions_done[OF rx(2) w5(4)])
    fix m k assume mk: "(m, k) \<in> set rx"
    from rec[OF this] obtain nm dm where "map_of (ndDeviceTable nm) k = Some dm"
      and n5: "node_of w5 m = Some (put_device k (dm\<lparr>dvState := RX, dvPendingRx := Some p\<rparr>) nm)"
      and "node_of w m = Some nm" by blast
    moreover have "ndFaceCounter nm < 2 ^ 31 - 1"
      using quiet_rx mk \<open>node_of w m = Some nm\<close> by (auto simp: has_number_def)
    ultimately show "\<exists>nd dv. node_of w5 m = Some nd \<and> node_ok nd \<and>
      ndFaceCounter nd < 2 ^ 31 - 1 \<and> map_of (ndDeviceTable nd) k = Some dv \<and> dvState dv = RX \<and> dvPendingRx dv = Some p"
      using world_node(1)[OF ok5 n5] by simp
  qed
  then obtain w6 where w6: "each (perform L R) (replicate (length rx) Run) w5 = Inr w6" "frame_received p rx w5 w6"
    "same_rest w5 w6" "wReady w6 = [] @ map (dispatch_of w6 p) (filter (addressed w5 p) rx)" "timer_of w6 = timer_of w5"
    by (elim exE conjE) (rule that)
  have run: "each (perform L R) (frame_schedule a d (wNow w + t * 1000) rx) w = Inr w6"
    using each_chain[OF w05 w6(1)] by (simp only: frame_schedule_def append_assoc append_Cons append_Nil)
  \<comment> \<open>what has changed altogether\<close>
  have heap: "wHeap w5 = wHeap w" "wHeap w6 = wHeap w" "wNow w6 = wNow w + t * 1000" "wSent w6 = wSent w"
    "wReceives w6 = wReceives w" "link_of w6 = (link_of w)(lnkId lk \<mapsto> lk')"
    using w6(3) w5(3) w4(3) w2(3-7) now rx(1) by (simp_all add: same_rest_def w3_def)
  have mine: "addressed w5 p x = addressed w p x" if "x \<in> set rx" for x
    using rec[of "fst x" "snd x"] that by (auto simp: addressed_def device_of_node heap)
  then have filter: "filter (addressed w5 p) rx = filter (addressed w p) rx" by (simp cong: filter_cong)
  let ?w = "set_node a (put_device d (dv\<lparr>dvTxQueue := []\<rparr>) nd) (wHeap w) w"
  have "frame_received p rx ?w w6"
  proof -
    have "\<exists>nm nm'. node_of ?w m = Some nm \<and> node_of w6 m = Some nm' \<and>
        received (Packet_GetSrc (wHeap w) p) (addressed w p (m, k)) k nm nm'" if mk: "(m, k) \<in> set rx" for m k
    proof -
      from rec[OF mk] obtain nm dm where n: "node_of w m = Some nm" "map_of (ndDeviceTable nm) k = Some dm"
        "node_of w5 m = Some (put_device k (dm\<lparr>dvState := RX, dvPendingRx := Some p\<rparr>) nm)" by blast
      from w6(2) mk n(3) obtain nm' where "node_of w6 m = Some nm'"
        "received (Packet_GetSrc (wHeap w) p) (addressed w p (m, k)) k
          (put_device k (dm\<lparr>dvState := RX, dvPendingRx := Some p\<rparr>) nm) nm'"
        using mine[OF mk] by (fastforce simp: frame_received_def heap)
      with received_before[OF this(2) n(2)] n(1) ne[OF mk] show ?thesis by (simp add: same_device_def)
    qed
    moreover have "node_of w6 n = node_of ?w n" if n: "n \<notin> fst ` set rx" for n
    proof (cases "n = a")
      case True
      with n w6(2) show ?thesis
        by (simp add: frame_received_def w5(2) w4(2) idle_again)
    next
      case False
      with n w6(2) w2(2) show ?thesis by (simp add: frame_received_def devices_changed_def w1(2) src)
    qed
    moreover have "addressed ?w p x = addressed w p x" if "x \<in> set rx" for x
      using ne[of "fst x" "snd x"] that by (simp add: addressed_def device_of_node)
    ultimately show ?thesis unfolding frame_received_def by fastforce
  qed
  moreover have "timer_of w6 tm = ((timer_of w)(CsmaTimer a d := None)) tm" for tm
  proof (cases "\<exists>(m, k) \<in> set rx. tm = RxTimer m k")
    case True
    then show ?thesis using quiet by (auto simp: w6(5) w5(5) quiet_def)
  next
    case False
    then have "timer_of w2 tm = timer_of w1 tm" using w2(10) by fastforce
    with False show ?thesis by (auto simp: w6(5) w5(5) w4(5) w3_def w1(5))
  qed
  ultimately show ?thesis
    using run schedule_world[OF ok run] heap w6(4) filter by auto
qed

end
