(* ===== verification/Network.thy ===== *)
theory Network
  imports Delivery Forwarding
begin

text \<open>
  One hop of a packet: a packet arrives at a node, from a link or from an application, the node
  decides on the face to send a packet on, and the packet arrives at the node behind that face.
  The hops are stated for Interests and Data alike, between worlds in which nothing else is on
  its way; they are put together in the theory Journey.
\<close>

section \<open>What a node does with a packet\<close>

text \<open>A packet that arrives leaves the node with a packet to send on one face.\<close>

lemma Dispatch_interest_to:
  assumes "node_ok nd" and "name_laws L" and "blkType L wire = tlvInterest L" and "decodeInterest L wire = Some i"
    and "CacheManager_FindMatchingData L now i (ndCacheManager nd) = None"
    and "\<forall>g t. (iName i, iNonce i, g, t) \<notin> pending (ndPit nd)" and "routed L i nd - {f} = {fo}" and "fo \<noteq> 0"
  shows "\<exists>pit. Face_Dispatch L R now f wire (h, nd, []) =
      Node_ForwardToFace R (length h) fo (h @ [Packet_new (encodeInterest L i)], nd\<lparr>ndPit := pit\<rparr>, []) \<and>
    node_ok (nd\<lparr>ndPit := pit\<rparr>) \<and>
    pending pit = insert (iName i, iNonce i, f, now + iLifetime i) (pending (ndPit nd))"
proof -
  have fresh: "fst (Pit_AddInterest now f i (ndPit nd))"
    using AddInterest_node(1)[OF assms(1)] assms(6) by blast
  note add = AddInterest_node(2,3)[OF assms(1), of now f i]
  have faces: "interest_faces L f i nd = [fo]"
    using interest_faces_spec[OF assms(1,2), of f i] assms(7) by (intro ss_ok_unique) simp_all
  show ?thesis
  proof (cases rule: HandleInterest_cases[where L = L and R = R and now = now and f = f and i = i
        and h = h and nd = nd and out = "[]"])
    case (forward pit pkt h1)
    then have "Node_HandleInterest L R now f i (h, nd, []) =
        Node_ForwardToFace R (length h) fo (h @ [Packet_new (encodeInterest L i)], nd\<lparr>ndPit := pit\<rparr>, [])"
      by (cases "Node_ForwardToFace R pkt fo (h1, nd\<lparr>ndPit := pit\<rparr>, [])")
        (simp_all add: Node_ForwardToFaces_def faces InterestPacket_new_def alloc_def)
    with assms(3,4) add fresh forward(3) show ?thesis
      by (intro exI[of _ pit]) (simp add: Face_Dispatch_def)
  qed (use assms(5,8) fresh faces in auto)
qed

lemma Dispatch_data_to:
  assumes "node_ok nd" and "blkType L wire = tlvData L" and "tlvData L \<noteq> tlvInterest L"
    and "decodeData L wire = Some d" and "asked L now d nd = {fo}"
  shows "\<exists>pit c. Face_Dispatch L R now f wire (h, nd, []) =
      Node_ForwardToFace R (length h) fo (h @ [Packet_new (encodeData L d)], nd\<lparr>ndPit := pit, ndCacheManager := c\<rparr>, []) \<and>
    node_ok (nd\<lparr>ndPit := pit, ndCacheManager := c\<rparr>)"
proof -
  obtain fs pit where con: "Pit_ConsumeInterestWithDataName L now (dName d) [] (ndPit nd) = (fs, pit)"
    by fastforce
  have fs: "fs = [fo]" using Consume_spec[OF con] assms(5) by (intro ss_ok_unique) simp_all
  have "pit_ok pit"
    using pit_ok_Consume[OF node_okD(3)[OF assms(1)], of L now "dName d" "[]"] con by simp
  then have ok: "node_ok (nd\<lparr>ndPit := pit\<rparr>)" by (rule node_ok_pit[OF assms(1)])
  obtain c where c: "CacheManager_Insert L now d (ndCacheManager nd) = Inr c" "cache_ok c"
    using cache_ok_Insert[OF node_okD(5)[OF assms(1)]] by blast
  let ?nd = "nd\<lparr>ndPit := pit, ndCacheManager := c\<rparr>"
  let ?h = "h @ [Packet_new (encodeData L d)]"
  have "Node_HandleData L R now f d (h, nd, []) = Node_ForwardToFace R (length h) fo (?h, ?nd, [])"
    by (cases "Node_ForwardToFace R (length h) fo (?h, ?nd, [])")
      (simp_all add: Node_HandleData_def con fs c Node_ForwardToFaces_def DataPacket_new_def alloc_def)
  then show ?thesis
    using assms(2-4) node_ok_cache[OF ok c(2)] by (intro exI[of _ pit] exI[of _ c]) (simp add: Face_Dispatch_def)
qed

section \<open>Arrival\<close>

definition app_at :: "'n world \<Rightarrow> string \<Rightarrow> int \<Rightarrow> bool" where
  "app_at w n f \<longleftrightarrow> (\<exists>nd. node_of w n = Some nd \<and> map_of (ndFaceTable nd) f = Some (AppFc (AppFace_new f))) \<and>
     (n, f) \<in> set (wReceives w)"

definition calm :: "'n world \<Rightarrow> bool" where
  "calm w \<longleftrightarrow> wReady w = [] \<and> (\<forall>n d. quiet w n d)"

lemma calm_device:
  assumes "calm w" and "node_of w n = Some nd" and "map_of (ndDeviceTable nd) d = Some dv"
  shows "dvState dv = IDLE \<and> dvTxQueue dv = []"
proof -
  have "device_of n d (wEm w) = Some dv" using assms(2,3) by (simp add: device_of_node)
  then show ?thesis using assms(1) by (simp add: calm_def quiet_def)
qed

lemma calm_timers: "calm w \<Longrightarrow> timer_of w (RxTimer n d) = None \<and> timer_of w (CsmaTimer n d) = None"
  by (simp add: calm_def quiet_def)

text \<open>
  A packet arrives at a node on a face: a dispatch on the face is the only handler that is
  queued, or an application writes the packet to its socket while nothing is queued.
\<close>

definition arrives :: "('n, 'c) ndn \<Rightarrow> string \<Rightarrow> int \<Rightarrow> bytes \<Rightarrow> action \<Rightarrow> 'n world \<Rightarrow> bool" where
  "arrives L n f wire act w \<longleftrightarrow> calm (w\<lparr>wReady := []\<rparr>) \<and>
     (act = Run \<and> wReady w = [RunDispatch n f wire] \<or>
      act = Receive n f wire \<and> wReady w = [] \<and> app_at w n f \<and> blkFromBuffer L wire = Some wire)"

text \<open>The state when a node has given a packet to one of its faces.\<close>

definition sends_on :: "rng \<Rightarrow> string \<Rightarrow> int \<Rightarrow> pkt_ref \<Rightarrow> 'n world \<Rightarrow> 'n world \<Rightarrow> bool" where
  "sends_on R n f p w w' \<longleftrightarrow> p < length (wHeap w) \<and> (\<exists>nd h nd' out. node_of w n = Some nd \<and>
     Node_ForwardToFace R p f (wHeap w, nd, []) = Inr (h, nd', out) \<and>
     w' = fold (node_request n) out (set_node n nd' h w))"

lemma set_node_again [simp]: "set_node n nd h (set_node n nd' h' w) = set_node n nd h w"
  by (simp add: set_node_def)

lemma set_node_receives: "set_node n nd h (w\<lparr>wReceives := r\<rparr>) = (set_node n nd h w)\<lparr>wReceives := r\<rparr>"
  by (simp add: set_node_def)

text \<open>Forwarding starts no receive, so the outstanding receives commute with it.\<close>

lemma ForwardToFace_receives:
  assumes "Node_ForwardToFace R p f (h, nd, []) = Inr (h', nd', out)"
  shows "concat (map receive_of out) = []"
proof (cases "map_of (ndFaceTable nd) f")
  case (Some face)
  with assms show ?thesis
    by (cases face) (auto simp: Node_ForwardToFace_def Let_def split: option.splits prod.splits)
qed (use assms in \<open>simp add: Node_ForwardToFace_def\<close>)

lemma request_receives:
  assumes "receive_of x = []"
  shows "node_request n x (w\<lparr>wReceives := r\<rparr>) = (node_request n x w)\<lparr>wReceives := r\<rparr>"
proof -
  have "device_request n d y (w\<lparr>wReceives := r\<rparr>) = (device_request n d y w)\<lparr>wReceives := r\<rparr>" for d y
    by (cases y) (simp_all add: arm_def post_def split: option.splits)
  with assms show ?thesis by (cases x) (simp_all add: arm_def split: option.splits)
qed

lemma requests_receives:
  "concat (map receive_of out) = [] \<Longrightarrow>
     fold (node_request n) out (w\<lparr>wReceives := r\<rparr>) = (fold (node_request n) out w)\<lparr>wReceives := r\<rparr>"
  by (induction out arbitrary: w) (simp_all add: request_receives)

lemma calm_set_node:
  assumes "calm w" and "node_of w n = Some nd" and "ndDeviceTable nd1 = ndDeviceTable nd"
  shows "calm (set_node n nd1 h w)"
proof -
  have "device_of m d (wEm (set_node n nd1 h w)) = device_of m d (wEm w)" for m d
    using assms(2,3) by (simp add: device_of_node)
  with assms(1) show ?thesis by (simp add: calm_def quiet_def)
qed

lemma calm_receives: "calm (w\<lparr>wReceives := r\<rparr>) = calm w"
  by (simp add: calm_def quiet_def device_of_node)

lemma frames_block:
  assumes "block_laws L" and "blkFromBuffer L wire = Some wire"
  shows "frames L wire = ([wire], [])"
  using frames_Some[OF assms] by simp

text \<open>
  What \<open>Dispatch\<close> makes of the packet is what happens to the node; a read on the socket also
  starts the next receive.
\<close>

lemma receive_block:
  assumes "block_laws L" and "0 < maxPacketSize L" and "blkFromBuffer L wire = Some wire"
    and "om_ok (ndFaceTable nd)" and "map_of (ndFaceTable nd) f = Some (AppFc (AppFace_new f))"
    and "Face_Dispatch L R now f wire (h, nd, []) = Inr (h', nd', out)" and "ndFaceTable nd' = ndFaceTable nd"
  shows "Node_HandleReceive L R now f False wire (h, nd, []) = Some (Inr (h', nd', out @ [AppReceive f]))"
proof -
  have "om_put f (AppFc (AppFace_new f)) (ndFaceTable nd') = ndFaceTable nd'"
    using assms(4,5,7) om_put_same by metis
  moreover have "AppFace_HandleReceive L (Face_Dispatch L R now f) (remove_face f) False wire (AppFace_new f) (h, nd, []) =
      Some (Inr (Some (AppFace_new f), (h', nd', out)))"
    using assms(6) frames_block[OF assms(1,3)]
    by (simp add: HandleReceive_absorb[OF assms(1,2)] absorb_def AppFace_new_def)
  ultimately show ?thesis using assms(5) by (simp add: Node_HandleReceive_def)
qed

lemma set_remove_append: "x \<in> set xs \<Longrightarrow> set (remove1 x xs @ [x]) = set xs"
  by (induction xs) auto

lemma arrival_sends:
  assumes arr: "arrives L n f wire act w" and laws: "block_laws L" "0 < maxPacketSize L"
    and nd: "node_of w n = Some nd" "om_ok (ndFaceTable nd)" and ok: "node_ok nd1"
    and nd1: "ndFaceTable nd1 = ndFaceTable nd" "ndDeviceTable nd1 = ndDeviceTable nd"
    and disp: "Face_Dispatch L R (wNow w) f wire (wHeap w, nd, []) = Node_ForwardToFace R p fo (h1, nd1, [])"
    and p: "p < length h1"
  shows "\<exists>w1 w'. perform L R act w = Inr w' \<and> sends_on R n fo p w1 w' \<and> calm w1 \<and>
    node_of w1 = (node_of w)(n \<mapsto> nd1) \<and> wHeap w1 = h1 \<and> link_of w1 = link_of w \<and> wNow w1 = wNow w \<and>
    wSent w1 = wSent w \<and> set (wReceives w1) = set (wReceives w)"
proof -
  obtain h' nd' out where fwd: "Node_ForwardToFace R p fo (h1, nd1, []) = Inr (h', nd', out)"
    and fw: "forwarded nd1 h1 nd' h'"
    using ForwardToFace_spec[OF ok, of R p fo h1 "[]"] by auto
  note rcv = ForwardToFace_receives[OF fwd]
  have calm: "calm (w\<lparr>wReady := []\<rparr>)" using arr by (simp add: arrives_def)
  consider (run) "act = Run" "wReady w = [RunDispatch n f wire]"
    | (app) "act = Receive n f wire" "wReady w = []" "app_at w n f" "blkFromBuffer L wire = Some wire"
    using arr by (auto simp: arrives_def)
  then show ?thesis
  proof cases
    case run
    define w1 where "w1 = set_node n nd1 h1 (w\<lparr>wReady := []\<rparr>)"
    let ?w' = "fold (node_request n) out (set_node n nd' h' (w\<lparr>wReady := []\<rparr>))"
    have "perform L R act w = Inr ?w'"
      using on_node_run[of "w\<lparr>wReady := []\<rparr>" n nd] nd run disp fwd by simp
    moreover have "sends_on R n fo p w1 ?w'" using p fwd by (simp add: sends_on_def w1_def)
    moreover have "calm w1" unfolding w1_def by (rule calm_set_node[OF calm _ nd1(2)]) (simp add: nd)
    ultimately show ?thesis by (intro exI[of _ w1] exI[of _ ?w']) (simp add: w1_def)
  next
    case app
    let ?rest = "remove1 (n, f) (wReceives w)"
    let ?r = "?rest @ [(n, f)]"
    define w0 where "w0 = set_node n nd1 h1 w"
    let ?w' = "(fold (node_request n) out (set_node n nd' h' w0))\<lparr>wReceives := ?r\<rparr>"
    have mem: "(n, f) \<in> set (wReceives w)" and face: "map_of (ndFaceTable nd) f = Some (AppFc (AppFace_new f))"
      using app(3) nd(1) by (simp_all add: app_at_def)
    have "ndFaceTable nd' = ndFaceTable nd" using forwarded_face_table(1)[OF fw] nd1(1) by simp
    note hr = receive_block[OF laws app(4) nd(2) face _ this, of R "wNow w" "wHeap w" h' out]
    have "perform L R act w = on_node n (\<lambda>h nd. case Node_HandleReceive L R (wNow w) f False wire (h, nd, []) of
        None \<Rightarrow> Inl (UndefinedBehaviour ''endless loop'') | Some r \<Rightarrow> r) (w\<lparr>wReceives := ?rest\<rparr>)"
      using mem app(1) by (simp add: run_receive_def)
    also have "\<dots> = Inr (fold (node_request n) (out @ [AppReceive f]) (set_node n nd' h' (w\<lparr>wReceives := ?rest\<rparr>)))"
      using on_node_run[of "w\<lparr>wReceives := ?rest\<rparr>" n nd] nd(1) hr disp fwd by simp
    also have "fold (node_request n) (out @ [AppReceive f]) (set_node n nd' h' (w\<lparr>wReceives := ?rest\<rparr>)) = ?w'"
      using requests_receives[OF rcv, where n = n and w = "set_node n nd' h' w"] rcv
      by (simp add: w0_def set_node_receives requests_fields)
    finally have "perform L R act w = Inr ?w'" .
    moreover have "sends_on R n fo p (w0\<lparr>wReceives := ?r\<rparr>) ?w'"
      using p fwd requests_receives[OF rcv, where n = n and w = "set_node n nd' h' w0"]
      by (simp add: sends_on_def w0_def set_node_receives exI[of _ out])
    moreover have "calm (w0\<lparr>wReceives := ?r\<rparr>)"
      unfolding calm_receives w0_def using calm app(2) nd(1) nd1(2)
      by (intro calm_set_node[of w n nd]) (simp_all add: calm_def quiet_def device_of_node)
    moreover have "set ?r = set (wReceives w)" using mem by (rule set_remove_append)
    ultimately show ?thesis by (intro exI[of _ "w0\<lparr>wReceives := ?r\<rparr>"] exI[of _ ?w']) (simp add: w0_def)
  qed
qed

section \<open>Over a link\<close>

text \<open>
  \<open>reaches w n d b k M\<close>: the device \<open>d\<close> of the node \<open>n\<close> is on a link on which nothing is lost from
  \<open>n\<close>, and of the neighbours of \<open>n\<close> there only \<open>b\<close>, with its device \<open>k\<close>, has the address \<open>M\<close>.
\<close>

definition reaches :: "'n world \<Rightarrow> string \<Rightarrow> string \<Rightarrow> string \<Rightarrow> string \<Rightarrow> 64 word \<Rightarrow> bool" where
  "reaches w n d b k M \<longleftrightarrow> M \<noteq> BROADCAST_MAC \<and> (\<exists>dv lk db. device_of n d (wEm w) = Some dv \<and>
     link_of w (lnkId (dvLink dv)) = Some lk \<and> (\<forall>e \<in> set (row n lk). laRate (snd e) = 0) \<and>
     b \<in> fst ` set (row n lk) \<and> map_of (lnkNodeTable lk) b = Some k \<and>
     device_of b k (wEm w) = Some db \<and> dvMac db = M \<and>
     (\<forall>m j dm. m \<in> fst ` set (row n lk) \<and> map_of (lnkNodeTable lk) m = Some j \<and>
        device_of m j (wEm w) = Some dm \<and> dvMac dm = M \<longrightarrow> m = b))"

text \<open>A frame of \<open>len\<close> bytes is on the device and on the air no longer than \<open>H\<close>, the backoff included.\<close>

definition carries :: "'n world \<Rightarrow> string \<Rightarrow> string \<Rightarrow> nat \<Rightarrow> time \<Rightarrow> bool" where
  "carries w n d len H \<longleftrightarrow> (\<exists>dv t. device_of n d (wEm w) = Some dv \<and> int len \<le> lnkMtu (dvLink dv) \<and>
     dvTxLimit dv \<noteq> 0 \<and> 0 < lnkTxRate (dvLink dv) \<and> tx_delay (lnkTxRate (dvLink dv)) len = Inr t \<and>
     (7 * BACKOFF_PERIOD + t) * 1000 \<le> H)"

lemma filter_unique:
  assumes "distinct (map fst xs)" and "(b, k) \<in> set xs" and "\<And>x. x \<in> set xs \<Longrightarrow> P x \<longleftrightarrow> fst x = b"
  shows "filter P xs = [(b, k)]"
  using assms
proof (induction xs)
  case (Cons x xs)
  show ?case
  proof (cases "fst x = b")
    case True
    then have "x = (b, k)" using Cons.prems(1,2) by (cases x) (auto simp: rev_image_eqI)
    moreover have "fst y \<noteq> b" if "y \<in> set xs" for y using that True Cons.prems(1) by (cases x) (auto simp: rev_image_eqI)
    then have "filter P xs = []" using Cons.prems(3) by (simp add: filter_empty_conv)
    ultimately show ?thesis using Cons.prems(3)[of x] by simp
  next
    case False
    then show ?thesis using Cons by (cases x) auto
  qed
qed simp

lemma Send_idle:
  assumes "dvTxQueue dv = []" and "int (Packet_GetLength h p) \<le> lnkMtu (dvLink dv)" and "dvTxLimit dv \<noteq> 0"
    and "rng_laws R"
  shows "\<exists>g b. LinkFace_Send R p lf h dv = (Packet_SetSrc (dvMac dv) p (Packet_SetDst (lfRemoteMac lf) p h),
      dv\<lparr>dvTxQueue := [p], dvEngine := g\<rparr>, [ArmCsma 0 MIN_BE b]) \<and> 0 \<le> b \<and> b \<le> 7 * BACKOFF_PERIOD"
proof -
  obtain b dv1 where draw: "draw_backoff R MIN_BE (dv\<lparr>dvTxQueue := [p]\<rparr>) = (b, dv1)" by fastforce
  obtain g where "dv1 = dv\<lparr>dvTxQueue := [p], dvEngine := g\<rparr>" using draw_backoff_device[OF draw] by auto
  with draw draw_backoff_range[OF assms(4) draw] assms(1-3) show ?thesis
    by (intro exI[of _ g] exI[of _ b]) (simp add: LinkFace_Send_def LinkDevice_StartTx_def LinkDevice_StartCsma_def MIN_BE_def)
qed

text \<open>What a link face makes of a packet when its device is idle: the frame waits for its backoff.\<close>

lemma sends_on_link:
  assumes "sends_on R n f p w w'" and "calm w" and "rng_laws R"
    and "node_of w n = Some nd" and "map_of (ndFaceTable nd) f = Some (LinkFc lf)"
    and "map_of (ndDeviceTable nd) (lfDevice lf) = Some dv"
    and "int (Packet_GetLength (wHeap w) p) \<le> lnkMtu (dvLink dv)" and "dvTxLimit dv \<noteq> 0"
  shows "\<exists>g b. 0 \<le> b \<and> b \<le> 7 * BACKOFF_PERIOD \<and>
    w' = arm (CsmaTimer n (lfDevice lf)) (b * 1000) (RunDoCsma n (lfDevice lf) 0 MIN_BE False)
      (set_node n (put_device (lfDevice lf) (dv\<lparr>dvTxQueue := [p], dvEngine := g\<rparr>) nd)
        (Packet_SetSrc (dvMac dv) p (Packet_SetDst (lfRemoteMac lf) p (wHeap w))) w)"
proof -
  have "dvTxQueue dv = []"
    using calm_device[OF assms(2,4,6)] by simp
  from Send_idle[OF this assms(7,8,3), of lf] obtain g b where
    send: "LinkFace_Send R p lf (wHeap w) dv = (Packet_SetSrc (dvMac dv) p (Packet_SetDst (lfRemoteMac lf) p (wHeap w)),
      dv\<lparr>dvTxQueue := [p], dvEngine := g\<rparr>, [ArmCsma 0 MIN_BE b])" and b: "0 \<le> b" "b \<le> 7 * BACKOFF_PERIOD" by blast
  from assms(1) obtain h nd' out where fwd: "Node_ForwardToFace R p f (wHeap w, nd, []) = Inr (h, nd', out)"
    and w': "w' = fold (node_request n) out (set_node n nd' h w)"
    using assms(4) by (auto simp: sends_on_def)
  with send assms(4-6) b show ?thesis
    by (intro exI[of _ g] exI[of _ b]) (auto simp: Node_ForwardToFace_def put_device_def)
qed

text \<open>What stays the same outside of the nodes of \<open>S\<close>, and what of those stays the same.\<close>

definition same_link :: "link \<Rightarrow> link \<Rightarrow> bool" where
  "same_link lk lk' \<longleftrightarrow> Link_const lk' = Link_const lk \<and> lnkNodeTable lk' = lnkNodeTable lk \<and>
     (\<forall>n. map (\<lambda>e. (fst e, laRate (snd e))) (row n lk') = map (\<lambda>e. (fst e, laRate (snd e))) (row n lk))"

definition evolves :: "string set \<Rightarrow> 'n world \<Rightarrow> 'n world \<Rightarrow> bool" where
  "evolves S w w' \<longleftrightarrow> (\<forall>n. rel_option (if n \<in> S then same_ports else node_kept) (node_of w n) (node_of w' n)) \<and>
     (\<forall>l. rel_option same_link (link_of w l) (link_of w' l)) \<and> wNow w \<le> wNow w' \<and>
     set (wReceives w') = set (wReceives w)"

lemma transmit_loop_rates:
  "transmit_loop R tab nbs = Inr (rx, nbs') \<Longrightarrow>
     map (\<lambda>e. (fst e, laRate (snd e))) nbs' = map (\<lambda>e. (fst e, laRate (snd e))) nbs"
proof (induction nbs arbitrary: rx nbs')
  case (Cons x nbs)
  then show ?case
    by (cases x) (auto simp: and_then_Inr_iff LinkAttribute_DropPacket_def Let_def split: prod.splits if_splits option.splits)
qed simp

lemma Transmit_same_link:
  assumes "Link_Transmit R n lk = Inr (rx, lk')"
  shows "same_link lk lk'"
proof -
  from assms obtain nbs where loop: "transmit_loop R (lnkNodeTable lk) (row n lk) = Inr (rx, nbs)"
    and lk': "lk' = lk\<lparr>lnkMatrix := om_put n nbs (lnkMatrix lk)\<rparr>"
    by (auto simp: Link_Transmit_def and_then_Inr_iff)
  have "row m lk' = (if m = n then nbs else row m lk)" for m
    by (simp add: row_def lk' kv_simps)
  then show ?thesis
    using transmit_loop_rates[OF loop]
    by (simp add: same_link_def lk' Link_const_def link_const.truncate_def)
qed

lemma same_link_trans: "same_link a b \<Longrightarrow> same_link b c \<Longrightarrow> same_link a c"
  by (simp add: same_link_def)

lemma same_link_refl [simp]: "same_link a a"
  by (simp add: same_link_def)

lemma rel_option_trans:
  assumes "rel_option P a b" and "rel_option Q b c" and "\<And>x y z. P x y \<Longrightarrow> Q y z \<Longrightarrow> W x z"
  shows "rel_option W a c"
  using assms by (cases a; cases b; cases c) auto

lemma kept_ports: "node_kept a b \<Longrightarrow> same_ports a b"
  by (simp add: node_kept_def)

lemma evolves_trans:
  assumes "evolves S w w1" and "evolves T w1 w2" and "S \<union> T \<subseteq> U"
  shows "evolves U w w2"
proof -
  have "rel_option (if n \<in> U then same_ports else node_kept) (node_of w n) (node_of w2 n)" for n
  proof (rule rel_option_trans)
    show "rel_option (if n \<in> S then same_ports else node_kept) (node_of w n) (node_of w1 n)"
      and "rel_option (if n \<in> T then same_ports else node_kept) (node_of w1 n) (node_of w2 n)"
      using assms by (simp_all only: evolves_def)
    fix x y z :: "'a node"
    assume "(if n \<in> S then same_ports else node_kept) x y" "(if n \<in> T then same_ports else node_kept) y z"
    then show "(if n \<in> U then same_ports else node_kept) x z"
      using assms(3) by (auto split: if_splits intro: same_ports_trans node_kept_trans dest: kept_ports)
  qed
  moreover have "rel_option same_link (link_of w l) (link_of w2 l)" for l
    using assms by (intro rel_option_trans[OF _ _ same_link_trans]) (auto simp: evolves_def)
  ultimately show ?thesis using assms by (simp add: evolves_def)
qed

text \<open>The receivers of a frame without loss, and which of them it is for.\<close>

lemma lossless_receivers:
  assumes "link_ok lk" and "rng_laws R" and "\<forall>e \<in> set (row n lk). laRate (snd e) = 0"
  shows "\<exists>rx lk'. Link_Transmit R n lk = Inr (rx, lk') \<and> map fst rx = map fst (row n lk) \<and>
    (\<forall>x \<in> set rx. map_of (lnkNodeTable lk) (fst x) = Some (snd x))"
proof -
  obtain rx nbs where t: "Link_Transmit R n lk = Inr (rx, lk\<lparr>lnkMatrix := om_put n nbs (lnkMatrix lk)\<rparr>)"
    "\<forall>x \<in> set rx. map_of (lnkNodeTable lk) (fst x) = Some (snd x)"
    using Transmit_ok[OF assms(1), of R n] by metis
  then have "map fst rx = map fst (row n lk)"
    using transmit_loop_lossless[OF assms(2,3)] by (auto simp: Link_Transmit_def and_then_Inr_iff)
  with t show ?thesis by blast
qed

lemma frame_hop:
  assumes ok: "world_ok w" and sent: "wReady w = []" "node_of w n = Some nd" "map_of (ndDeviceTable nd) d = Some dv"
      "dvState dv = IDLE" "dvTxQueue dv = [p]"
      "timer_of w (CsmaTimer n d) = Some (e, RunDoCsma n d NB BE False)" "e \<le> wNow w"
    and dst: "Packet_GetDst (wHeap w) p = M" and reach: "reaches w n d b k M" and R: "rng_laws R"
    and others: "\<And>m j. m \<noteq> n \<Longrightarrow> quiet w m j \<and> has_number w m"
    and t: "tx_delay (lnkTxRate (dvLink dv)) (Packet_GetLength (wHeap w) p) = Inr t" and rate: "0 < lnkTxRate (dvLink dv)"
  shows "\<exists>rx lk lk' w'. each (perform L R) (frame_schedule n d (wNow w + t * 1000) rx) w = Inr w' \<and> world_ok w' \<and>
    wNow w' = wNow w + t * 1000 \<and> wHeap w' = wHeap w \<and> wSent w' = wSent w \<and> wReceives w' = wReceives w \<and>
    wReady w' = [dispatch_of w' p (b, k)] \<and> (b, k) \<in> set rx \<and> addressed w p (b, k) \<and> n \<notin> fst ` set rx \<and>
    frame_received p rx (set_node n (put_device d (dv\<lparr>dvTxQueue := []\<rparr>) nd) (wHeap w) w) w' \<and>
    link_of w (lnkId lk) = Some lk \<and> same_link lk lk' \<and>
    link_of w' = (link_of w)(lnkId lk \<mapsto> lk') \<and> timer_of w' = (timer_of w)(CsmaTimer n d := None)"
proof -
  have "device_of n d (wEm w) = Some dv" using sent(2,3) by (simp add: device_of_node)
  with reach obtain lk db where M: "M \<noteq> BROADCAST_MAC" and lk: "link_of w (lnkId (dvLink dv)) = Some lk"
    and row: "\<forall>e \<in> set (row n lk). laRate (snd e) = 0" "b \<in> fst ` set (row n lk)" "map_of (lnkNodeTable lk) b = Some k"
    and db: "device_of b k (wEm w) = Some db" "dvMac db = M"
    and unique: "\<forall>m j dm. m \<in> fst ` set (row n lk) \<and> map_of (lnkNodeTable lk) m = Some j \<and>
        device_of m j (wEm w) = Some dm \<and> dvMac dm = M \<longrightarrow> m = b"
    unfolding reaches_def by auto
  have em: "map_of (emLinkTable (wEm w)) (lnkId (dvLink dv)) = Some lk" using lk by (simp add: link_of_def)
  note lkok = emulator_okD(2)[OF world_okD(4)[OF ok] em]
  obtain rx lk' where tr: "Link_Transmit R n lk = Inr (rx, lk')" and rows: "map fst rx = map fst (row n lk)"
    and tab: "\<forall>x \<in> set rx. map_of (lnkNodeTable lk) (fst x) = Some (snd x)"
    using lossless_receivers[OF _ R row(1)] lkok by blast
  note rx = receivers[OF ok lk tr]
  have rx_row: "fst ` set rx = fst ` set (row n lk)" using rows by (metis set_map)
  have bk: "(b, k) \<in> set rx"
  proof -
    from row(2) rx_row obtain x where "x \<in> set rx" "fst x = b" by force
    with tab row(3) show ?thesis by (cases x) auto
  qed
  have for_b: "addressed w p x \<longleftrightarrow> fst x = b" if x: "x \<in> set rx" for x
  proof
    assume "addressed w p x"
    then obtain dm where "device_of (fst x) (snd x) (wEm w) = Some dm" "dvMac dm = M"
      using M dst by (auto simp: addressed_def)
    moreover have "fst x \<in> fst ` set (row n lk)" using x rx_row by blast
    ultimately show "fst x = b" using unique tab x by blast
  next
    assume "fst x = b"
    then have "x = (b, k)" using x tab row(3) by (cases x) auto
    with db dst show "addressed w p x" by (simp add: addressed_def)
  qed
  have mine: "filter (addressed w p) rx = [(b, k)]" by (rule filter_unique[OF rx(2) bk for_b])
  have const: "dvLink dv = Link_const lk"
    using emulator_okD(4)[OF world_okD(4)[OF ok]] lk \<open>device_of n d (wEm w) = Some dv\<close> by (fastforce simp: link_of_def)
  then have rate': "lnkTxRate (dvLink dv) = lnkTxRate lk" by (simp add: Link_const_def link_const.truncate_def)
  have ready: "ready_to_send w n d p nd dv" using sent by (auto simp: ready_to_send_def)
  have quiet: "\<forall>(m, j) \<in> set rx. quiet w m j \<and> has_number w m"
  proof clarify
    fix m j assume "(m, j) \<in> set rx"
    then have "m \<noteq> n" using rx(3) by (auto simp: rev_image_eqI)
    then show "quiet w m j \<and> has_number w m" by (rule others)
  qed
  from frame_crosses_link[OF ok ready lk tr quiet t[unfolded rate'] rate[unfolded rate'], of L]
  obtain w' where w': "each (perform L R) (frame_schedule n d (wNow w + t * 1000) rx) w = Inr w'" "world_ok w'"
    "wNow w' = wNow w + t * 1000" "wHeap w' = wHeap w" "wSent w' = wSent w" "wReceives w' = wReceives w"
    "wReady w' = map (dispatch_of w' p) (filter (addressed w p) rx)"
    "frame_received p rx (set_node n (put_device d (dv\<lparr>dvTxQueue := []\<rparr>) nd) (wHeap w) w) w'"
    "link_of w' = (link_of w)(lnkId lk \<mapsto> lk')" "timer_of w' = (timer_of w)(CsmaTimer n d := None)"
    by (elim exE conjE) (rule that)
  show ?thesis
    using w' mine bk for_b[OF bk] rx(1) rx(3) lk Transmit_same_link[OF tr]
    by (intro exI[of _ rx] exI[of _ lk] exI[of _ lk'] exI[of _ w']) simp
qed

text \<open>A frame that nobody else sends at the same time keeps every node, and leaves all devices idle.\<close>

lemma frame_kept:
  assumes "frame_received p rx w w'"
  shows "rel_option node_kept (node_of w n) (node_of w' n)"
proof (cases "n \<in> fst ` set rx")
  case True
  then obtain k where "(n, k) \<in> set rx" by force
  with assms show ?thesis by (fastforce simp: frame_received_def received_def)
next
  case False
  with assms show ?thesis by (simp add: frame_received_def option.rel_refl)
qed

lemma frame_room:
  assumes "frame_received p rx w w'" and "face_room (Suc k) w"
  shows "face_room k w'"
  unfolding face_room_def
proof (intro allI impI)
  fix n nd' assume nd': "node_of w' n = Some nd'"
  show "ndFaceCounter nd' + int k < 2 ^ 31"
  proof (cases "n \<in> fst ` set rx")
    case True
    then obtain j where "(n, j) \<in> set rx" by force
    with assms(1) nd' obtain nd where "node_of w n = Some nd" "ndFaceCounter nd' \<le> ndFaceCounter nd + 1"
      by (fastforce simp: frame_received_def received_def)
    moreover have "ndFaceCounter nd + int (Suc k) < 2 ^ 31" using assms(2) calculation(1) unfolding face_room_def by blast
    ultimately show ?thesis by simp
  next
    case False
    with assms(1) nd' have "node_of w n = Some nd'" by (simp add: frame_received_def)
    then have "ndFaceCounter nd' + int (Suc k) < 2 ^ 31" using assms(2) unfolding face_room_def by blast
    then show ?thesis by simp
  qed
qed

lemma face_room_number: "face_room (Suc k) w \<Longrightarrow> has_number w n"
  unfolding face_room_def has_number_def by fastforce

lemma face_room_put:
  assumes "face_room k w" and "node_of w n = Some nd" and "ndFaceCounter nd1 = ndFaceCounter nd"
    and "node_of w1 = (node_of w)(n \<mapsto> nd1)"
  shows "face_room k w1"
  using assms by (auto simp: face_room_def split: if_splits)

lemma face_room_same: "node_of w' = node_of w \<Longrightarrow> face_room k w' = face_room k w"
  by (simp add: face_room_def)

definition devices_idle :: "'n world \<Rightarrow> bool" where
  "devices_idle w \<longleftrightarrow> (\<forall>n nd d dv. node_of w n = Some nd \<longrightarrow> map_of (ndDeviceTable nd) d = Some dv \<longrightarrow>
     dvState dv = IDLE \<and> dvTxQueue dv = [])"

lemma calm_iff:
  "calm w \<longleftrightarrow> wReady w = [] \<and> devices_idle w \<and> (\<forall>n d. timer_of w (RxTimer n d) = None \<and> timer_of w (CsmaTimer n d) = None)"
  by (auto simp: calm_def quiet_def devices_idle_def device_of_node split: option.splits)

lemma frame_idle:
  assumes "frame_received p rx w w'" and "devices_idle w"
  shows "devices_idle w'"
  unfolding devices_idle_def
proof (intro allI impI)
  fix n nd' j dv' assume nd': "node_of w' n = Some nd'" and dv': "map_of (ndDeviceTable nd') j = Some dv'"
  show "dvState dv' = IDLE \<and> dvTxQueue dv' = []"
  proof (cases "n \<in> fst ` set rx")
    case True
    then obtain k where "(n, k) \<in> set rx" by force
    with assms(1) nd' obtain nd mine where nd: "node_of w n = Some nd"
      and rcv: "received (Packet_GetSrc (wHeap w) p) mine k nd nd'" by (fastforce simp: frame_received_def)
    show ?thesis
    proof (cases "j = k")
      case True
      with rcv dv' obtain dv where "map_of (ndDeviceTable nd) k = Some dv" "dvTxQueue dv' = dvTxQueue dv" "dvState dv' = IDLE"
        by (auto simp: received_def)
      with assms(2) nd show ?thesis by (simp add: devices_idle_def)
    next
      case False
      with rcv dv' have "map_of (ndDeviceTable nd) j = Some dv'" by (simp add: received_def)
      with assms(2) nd show ?thesis unfolding devices_idle_def by blast
    qed
  next
    case False
    with assms(1) nd' have "node_of w n = Some nd'" by (simp add: frame_received_def)
    with assms(2) dv' show ?thesis unfolding devices_idle_def by blast
  qed
qed

lemma devices_idle_put:
  assumes "devices_idle w" and "node_of w n = Some nd" and "dvState dv = IDLE" and "dvTxQueue dv = []"
    and "node_of w' = (node_of w)(n \<mapsto> put_device d dv nd)"
  shows "devices_idle w'"
  using assms by (auto simp: devices_idle_def split: if_splits)

text \<open>The links and addresses of the network stay what they are.\<close>

lemma evolves_device:
  assumes "evolves S w w'"
  shows "rel_option same_device (device_of n d (wEm w)) (device_of n d (wEm w'))"
proof -
  have "rel_option same_ports (node_of w n) (node_of w' n)"
    using assms by (cases "n \<in> S") (auto simp: evolves_def elim!: allE[of _ n] option.rel_mono_strong dest: kept_ports)
  then show ?thesis by (cases rule: option.rel_cases) (simp_all add: device_of_node same_ports_def)
qed

lemma evolves_deviceE:
  assumes "evolves S w w'" and "device_of n d (wEm w) = Some dv"
  obtains dv' where "device_of n d (wEm w') = Some dv'" and "same_device dv dv'"
  using evolves_device[OF assms(1), of n d] assms(2) by (cases "device_of n d (wEm w')") auto

lemma evolves_linkE:
  assumes "evolves S w w'" and "link_of w l = Some lk"
  obtains lk' where "link_of w' l = Some lk'" and "same_link lk lk'"
  using assms by (cases "link_of w' l") (auto simp: evolves_def elim!: allE[of _ l])

lemma reaches_evolves:
  assumes "evolves S w w'" and "reaches w n d b k M"
  shows "reaches w' n d b k M"
proof -
  from assms(2) obtain dv lk db where M: "M \<noteq> BROADCAST_MAC" and dv: "device_of n d (wEm w) = Some dv"
    and lk: "link_of w (lnkId (dvLink dv)) = Some lk" and row: "\<forall>e \<in> set (row n lk). laRate (snd e) = 0"
      "b \<in> fst ` set (row n lk)" "map_of (lnkNodeTable lk) b = Some k"
    and db: "device_of b k (wEm w) = Some db" "dvMac db = M"
    and unique: "\<forall>m j dm. m \<in> fst ` set (row n lk) \<and> map_of (lnkNodeTable lk) m = Some j \<and>
        device_of m j (wEm w) = Some dm \<and> dvMac dm = M \<longrightarrow> m = b"
    unfolding reaches_def by auto
  obtain dv' where dv': "device_of n d (wEm w') = Some dv'" "same_device dv dv'" by (rule evolves_deviceE[OF assms(1) dv])
  obtain lk' where lk': "link_of w' (lnkId (dvLink dv)) = Some lk'" "same_link lk lk'" by (rule evolves_linkE[OF assms(1) lk])
  obtain db' where db': "device_of b k (wEm w') = Some db'" "same_device db db'" by (rule evolves_deviceE[OF assms(1) db(1)])
  have rows: "map (\<lambda>e. (fst e, laRate (snd e))) (row n lk') = map (\<lambda>e. (fst e, laRate (snd e))) (row n lk)"
    and tab: "lnkNodeTable lk' = lnkNodeTable lk" using lk'(2) by (simp_all add: same_link_def)
  have "set (map (\<lambda>e. (fst e, laRate (snd e))) (row n lk')) = set (map (\<lambda>e. (fst e, laRate (snd e))) (row n lk))"
    by (simp only: rows)
  then have eq: "(\<lambda>e. (fst e, laRate (snd e))) ` set (row n lk') = (\<lambda>e. (fst e, laRate (snd e))) ` set (row n lk)"
    by simp
  have "fst ` set (row n lk') = fst ` ((\<lambda>e. (fst e, laRate (snd e))) ` set (row n lk'))" by (simp add: image_image)
  then have keys: "fst ` set (row n lk') = fst ` set (row n lk)" unfolding eq by (simp add: image_image)
  have lossless: "laRate (snd e) = 0" if "e \<in> set (row n lk')" for e
  proof -
    have "(fst e, laRate (snd e)) \<in> (\<lambda>e. (fst e, laRate (snd e))) ` set (row n lk)" unfolding eq[symmetric] using that by blast
    with row(1) show ?thesis by auto
  qed
  have "m = b" if m: "m \<in> fst ` set (row n lk)" "map_of (lnkNodeTable lk) m = Some j"
      "device_of m j (wEm w') = Some dm'" "dvMac dm' = M" for m j dm'
  proof -
    from evolves_device[OF assms(1), of m j] m(3) obtain dm where "device_of m j (wEm w) = Some dm" "same_device dm dm'"
      by (cases "device_of m j (wEm w)") auto
    with unique m show ?thesis by (auto simp: same_device_def)
  qed
  then have "\<forall>m j dm. m \<in> fst ` set (row n lk') \<and> map_of (lnkNodeTable lk') m = Some j \<and>
      device_of m j (wEm w') = Some dm \<and> dvMac dm = M \<longrightarrow> m = b" unfolding keys tab by blast
  moreover have "link_of w' (lnkId (dvLink dv')) = Some lk'" "dvMac db' = M"
    using lk'(1) dv'(2) db'(2) db(2) by (simp_all add: same_device_def)
  moreover have "b \<in> fst ` set (row n lk')" "map_of (lnkNodeTable lk') b = Some k" using row(2,3) by (simp_all only: keys tab)
  ultimately show ?thesis unfolding reaches_def using M dv'(1) db'(1) lossless by blast
qed

lemma carries_evolves:
  assumes "evolves S w w'" and "carries w n d len H"
  shows "carries w' n d len H"
proof -
  obtain dv where "device_of n d (wEm w) = Some dv" using assms(2) by (auto simp: carries_def)
  from evolves_deviceE[OF assms(1) this] assms(2) this show ?thesis
    by (fastforce simp: carries_def same_device_def)
qed

text \<open>The actions of the emulator itself: no application does anything.\<close>

fun internal :: "action \<Rightarrow> bool" where
  "internal (Accept n f) = False"
| "internal (Receive n f bs) = False"
| "internal (Close n f) = False"
| "internal act = True"

lemma internal_frame_schedule [simp]: "\<forall>act \<in> set (frame_schedule n d e rx). internal act"
  by (auto simp: frame_schedule_def)

definition link_face_at :: "'n world \<Rightarrow> string \<Rightarrow> int \<Rightarrow> string \<Rightarrow> 64 word \<Rightarrow> bool" where
  "link_face_at w n f d M \<longleftrightarrow> (\<exists>nd lf. node_of w n = Some nd \<and> map_of (ndFaceTable nd) f = Some (LinkFc lf) \<and>
     lfDevice lf = d \<and> lfRemoteMac lf = M)"

text \<open>
  A packet that a node has given to a link face arrives at the node behind it, on a face that leads
  back to the sender, and nothing else happens.
\<close>

lemma link_hop:
  assumes ok: "world_ok w'" and sent: "sends_on R n f p w w'" and calm: "calm w" and R: "rng_laws R"
    and face: "link_face_at w n f d M" and dv: "device_of n d (wEm w) = Some dv"
    and carry: "carries w n d (Packet_GetLength (wHeap w) p) H" and reach: "reaches w n d b k M"
    and room: "face_room (Suc r) w"
  shows "\<exists>as w2 fb. each (perform L R) as w' = Inr w2 \<and> (\<forall>act \<in> set as. internal act) \<and> world_ok w2 \<and>
    arrives L b fb (Packet_GetBlock (wHeap w) p) Run w2 \<and> link_face_at w2 b fb k (dvMac dv) \<and>
    evolves {} w w2 \<and> wNow w2 \<le> wNow w + H \<and> wSent w2 = wSent w \<and> face_room r w2"
proof -
  obtain nd lf where nd: "node_of w n = Some nd" and lf: "map_of (ndFaceTable nd) f = Some (LinkFc lf)"
    "lfDevice lf = d" "lfRemoteMac lf = M" using face by (auto simp: link_face_at_def)
  have dev: "map_of (ndDeviceTable nd) d = Some dv" using dv nd by (simp add: device_of_node)
  have idle: "dvState dv = IDLE" "dvTxQueue dv = []" using calm_device[OF calm nd dev] by simp_all
  let ?len = "Packet_GetLength (wHeap w) p"
  obtain t where c: "int ?len \<le> lnkMtu (dvLink dv)" "dvTxLimit dv \<noteq> 0" "0 < lnkTxRate (dvLink dv)"
    "tx_delay (lnkTxRate (dvLink dv)) ?len = Inr t" "(7 * BACKOFF_PERIOD + t) * 1000 \<le> H"
    using carry dv by (auto simp: carries_def)
  obtain g b0 where b0: "0 \<le> b0" "b0 \<le> 7 * BACKOFF_PERIOD" and w': "w' = arm (CsmaTimer n d) (b0 * 1000)
      (RunDoCsma n d 0 MIN_BE False) (set_node n (put_device d (dv\<lparr>dvTxQueue := [p], dvEngine := g\<rparr>) nd)
        (Packet_SetSrc (dvMac dv) p (Packet_SetDst M p (wHeap w))) w)"
    using sends_on_link[OF sent calm R nd lf(1) _ c(1,2), unfolded lf(2,3), OF dev] by blast
  have p: "p < length (wHeap w)" using sent by (simp add: sends_on_def)
  \<comment> \<open>the backoff\<close>
  let ?dv = "dv\<lparr>dvTxQueue := [p], dvEngine := g\<rparr>"
  define w3 where "w3 = w'\<lparr>wNow := wNow w + b0 * 1000\<rparr>"
  have tick: "perform L R (Tick (wNow w + b0 * 1000)) w' = Inr w3" using b0(1) by (simp add: w' w3_def)
  have ok3: "world_ok w3" using schedule_world[OF ok each_one[OF tick]] .
  have v3: "wReady w3 = []" "node_of w3 = (node_of w)(n \<mapsto> put_device d ?dv nd)" "link_of w3 = link_of w"
    "timer_of w3 = (timer_of w)(CsmaTimer n d \<mapsto> (wNow w + b0 * 1000, RunDoCsma n d 0 MIN_BE False))"
    "wNow w3 = wNow w + b0 * 1000" "wSent w3 = wSent w" "wReceives w3 = wReceives w"
    "wHeap w3 = Packet_SetSrc (dvMac dv) p (Packet_SetDst M p (wHeap w))"
    using calm calm_timers[OF calm, of n d] by (simp_all add: w3_def w' calm_def)
  have "evolves {} w w3"
    using nd dev b0(1) node_kept_put_device[OF dev, of ?dv]
    by (simp add: evolves_def v3 option.rel_refl same_device_def)
  then have reach3: "reaches w3 n d b k M" by (rule reaches_evolves[OF _ reach])
  \<comment> \<open>the frame\<close>
  have dst: "Packet_GetDst (wHeap w3) p = M" and src: "Packet_GetSrc (wHeap w3) p = dvMac dv"
    and wire: "Packet_GetBlock (wHeap w3) p = Packet_GetBlock (wHeap w) p"
    and len: "Packet_GetLength (wHeap w3) p = ?len"
    using p by (simp_all add: v3 getters_after_setters)
  have room3: "face_room (Suc r) w3" by (rule face_room_put[OF room nd _ v3(2)]) simp
  have others: "quiet w3 m j \<and> has_number w3 m" if "m \<noteq> n" for m j
    using calm that face_room_number[OF room3] by (simp add: calm_def quiet_def device_of_node v3)
  have "\<exists>rx lk lk' w'. each (perform L R) (frame_schedule n d (wNow w3 + t * 1000) rx) w3 = Inr w' \<and> world_ok w' \<and>
    wNow w' = wNow w3 + t * 1000 \<and> wHeap w' = wHeap w3 \<and> wSent w' = wSent w3 \<and> wReceives w' = wReceives w3 \<and>
    wReady w' = [dispatch_of w' p (b, k)] \<and> (b, k) \<in> set rx \<and> addressed w3 p (b, k) \<and> n \<notin> fst ` set rx \<and>
    frame_received p rx (set_node n (put_device d (?dv\<lparr>dvTxQueue := []\<rparr>) (put_device d ?dv nd)) (wHeap w3) w3) w' \<and>
    link_of w3 (lnkId lk) = Some lk \<and> same_link lk lk' \<and>
    link_of w' = (link_of w3)(lnkId lk \<mapsto> lk') \<and> timer_of w' = (timer_of w3)(CsmaTimer n d := None)"
    by (rule frame_hop[where e = "wNow w + b0 * 1000" and NB = 0 and BE = MIN_BE, OF ok3 v3(1) _ _ _ _ _ _ dst reach3 R others]) (use idle c v3 len in simp_all)
  then obtain rx lk lk' w2 where
    run: "each (perform L R) (frame_schedule n d (wNow w3 + t * 1000) rx) w3 = Inr w2" and ok2: "world_ok w2"
    and w2: "wNow w2 = wNow w3 + t * 1000" "wHeap w2 = wHeap w3" "wSent w2 = wSent w3" "wReceives w2 = wReceives w3"
      "wReady w2 = [dispatch_of w2 p (b, k)]"
    and bk: "(b, k) \<in> set rx" "addressed w3 p (b, k)" and n: "n \<notin> fst ` set rx"
    and fr: "frame_received p rx (set_node n (put_device d (?dv\<lparr>dvTxQueue := []\<rparr>) (put_device d ?dv nd)) (wHeap w3) w3) w2"
    and lks: "link_of w3 (lnkId lk) = Some lk" "same_link lk lk'" "link_of w2 = (link_of w3)(lnkId lk \<mapsto> lk')"
    and tm: "timer_of w2 = (timer_of w3)(CsmaTimer n d := None)" by (elim exE conjE) (rule that)
  define dv0 where "dv0 = ?dv\<lparr>dvTxQueue := []\<rparr>"
  define w4 where "w4 = set_node n (put_device d dv0 nd) (wHeap w3) w3"
  have fr4: "frame_received p rx w4 w2" using fr by (simp add: w4_def dv0_def)
  have v4: "node_of w4 = (node_of w)(n \<mapsto> put_device d dv0 nd)" by (simp add: w4_def v3)
  have room2: "face_room r w2" by (rule frame_room[OF fr4 face_room_put[OF room nd _ v4]]) simp
  \<comment> \<open>the receiver\<close>
  have idle2: "devices_idle w2"
  proof (rule frame_idle[OF fr4], rule devices_idle_put[OF _ nd _ _ v4])
    show "devices_idle w" using calm by (simp add: calm_iff)
  qed (simp_all add: dv0_def idle)
  have timers: "timer_of w2 = timer_of w" using calm_timers[OF calm, of n d] by (simp add: tm v3 fun_eq_iff)
  from fr4 bk(1) obtain nb nb' where nb: "node_of w4 b = Some nb" "node_of w2 b = Some nb'"
    "received (Packet_GetSrc (wHeap w4) p) (addressed w4 p (b, k)) k nb nb'" by (fastforce simp: frame_received_def)
  have "b \<noteq> n" using n bk(1) by force
  then have "addressed w4 p (b, k)" using bk(2) by (simp add: addressed_def device_of_node w4_def)
  with nb(3) obtain dvb lb where lb: "map_of (ndDeviceTable nb') k = Some dvb"
    "map_of (dvFaces dvb) (dvMac dv) = Some lb" "lfRemoteMac lb = dvMac dv" "lfDevice lb = k"
    "map_of (ndFaceTable nb') (lfId lb) = Some (LinkFc lb)"
    using src by (auto simp: received_def w4_def)
  have fb: "dispatch_of w2 p (b, k) = RunDispatch b (lfId lb) (Packet_GetBlock (wHeap w) p)"
    using nb(2) lb(1,2) src wire w2(2) by (simp add: dispatch_of_def source_face_def)
  have "calm (w2\<lparr>wReady := []\<rparr>)"
    using idle2 timers calm_timers[OF calm] by (simp add: calm_iff devices_idle_def)
  then have arr: "arrives L b (lfId lb) (Packet_GetBlock (wHeap w) p) Run w2"
    by (simp add: arrives_def w2(5) fb)
  \<comment> \<open>nothing else has changed\<close>
  have "rel_option node_kept (node_of w m) (node_of w4 m)" for m
    using nd node_kept_put_device[OF dev, of dv0] by (simp add: v4 option.rel_refl same_device_def dv0_def)
  then have "rel_option node_kept (node_of w m) (node_of w2 m)" for m
    using frame_kept[OF fr4, of m] by (rule rel_option_trans) (rule node_kept_trans)
  moreover have "rel_option same_link (link_of w l) (link_of w2 l)" for l
    using lks by (auto simp: v3 option.rel_refl)
  moreover have "wNow w \<le> wNow w2" "wNow w2 \<le> wNow w + H"
    using tx_delay_nonneg[OF c(4,3)] b0 c(5) by (simp_all add: w2(1) v3)
  ultimately have ev: "evolves {} w w2" by (simp add: evolves_def w2 v3)
  have "each (perform L R) ([Tick (wNow w + b0 * 1000)] @ frame_schedule n d (wNow w3 + t * 1000) rx) w' = Inr w2"
    by (rule each_chain[OF each_one[OF tick] run])
  moreover have "\<forall>act \<in> set ([Tick (wNow w + b0 * 1000)] @ frame_schedule n d (wNow w3 + t * 1000) rx). internal act"
    using internal_frame_schedule by auto
  moreover have "link_face_at w2 b (lfId lb) k (dvMac dv)" using nb(2) lb by (auto simp: link_face_at_def)
  moreover have "wSent w2 = wSent w" by (simp add: w2 v3)
  ultimately show ?thesis using ok2 arr ev \<open>wNow w2 \<le> wNow w + H\<close> room2 by blast
qed

end
