(* ===== verification/Chain.thy ===== *)
theory Chain
  imports Schedule
begin

text \<open>
  A run of the emulator on three nodes in a row, A, B and C, for the theorems about packets that
  travel through the network: the configuration, and the state in which an application of C has
  registered a prefix that the others have routes for.
\<close>

section \<open>Three nodes in a row\<close>

definition trio_config :: ptree where
  "trio_config =
     (let dev = (\<lambda>d l. (''Device'', PTree [] [leaf ''DeviceId'' d, leaf ''LinkId'' l]));
          node = (\<lambda>n ds rs. (''Node'', PTree [] [leaf ''Id'' n, leaf ''Path'' n,
            (''Devices'', PTree [] ds), (''Routes'', PTree [] rs)]));
          route = (\<lambda>d m. (''Route'', PTree [] [leaf ''Prefix'' ''/wsn'', leaf ''Interface'' d, leaf ''Nexthop'' m]));
          conn = (\<lambda>n m. (''Connection'', PTree [] [leaf ''From'' n, leaf ''To'' m, leaf ''LossRate'' ''0.0'']));
          matrix = (\<lambda>l n m. (''Matrix'', PTree [] [leaf ''LinkId'' l, (''Connections'', PTree [] [conn n m, conn m n])]))
      in PTree [] [(''Config'', PTree [] [
           (''Links'', PTree [] [(''Link'', PTree [] [leaf ''Id'' ''l0'']), (''Link'', PTree [] [leaf ''Id'' ''l1''])]),
           (''Nodes'', PTree [] [node ''A'' [dev ''d'' ''l0''] [route ''d'' ''B''],
              node ''B'' [dev ''d'' ''l0'', dev ''e'' ''l1''] [route ''e'' ''C''],
              node ''C'' [dev ''d'' ''l1''] []]),
           (''Matrices'', PTree [] [matrix ''l0'' ''A'' ''B'', matrix ''l1'' ''B'' ''C''])])])"

definition trio_interest :: "string list interest" where
  "trio_interest = \<lparr>iName = [''wsn'', ''thermometer'', ''read''], iNonce = 7, iLifetime = 2000000000, iMustBeFresh = True, iWire = []\<rparr>"

definition trio_data :: "string list data" where
  "trio_data = \<lparr>dName = [''wsn'', ''thermometer'', ''read'', ''7''], dFreshness = 5000000000,
     dContent = [75, 0, 0, 0, 232, 3, 0, 0], dWire = []\<rparr>"

definition trio_register :: "string list interest" where
  "trio_register = ask [''localhost'', ''nfd'', ''rib'', ''register'', ''p''] 1 10000"

definition trio_reply :: "string list data" where
  "trio_reply = \<lparr>dName = [''localhost'', ''nfd'', ''rib'', ''register'', ''p''], dFreshness = 0, dContent = [], dWire = []\<rparr>"

definition trio_lib :: "(string list, string) ndn" where
  "trio_lib = list_ndn [(trio_interest, [5, 1, 7]), (trio_register, [5, 1, 9])]
     [(trio_data, [6, 1, 7]), (trio_reply, [6, 1, 9])] [(''p'', \<lparr>cpName = Some [''wsn'', ''thermometer''], cpFaceId = None\<rparr>)]"

definition trio_device :: "string \<Rightarrow> string \<Rightarrow> string \<Rightarrow> 64 word \<Rightarrow> nat \<Rightarrow> int \<Rightarrow> device" where
  "trio_device n d l mac g f = \<lparr>dvId = d, dvMac = mac, dvNodeId = n,
     dvLink = \<lparr>lnkId = l, lnkTxRate = 40, lnkMtu = 8800\<rparr>, dvState = IDLE, dvPendingRx = None,
     dvTxQueue = [], dvTxLimit = 5, dvEngine = g,
     dvFaces = [(0xffff, \<lparr>lfId = f, lfRemoteMac = 0xffff, lfDevice = d\<rparr>)]\<rparr>"

definition trio_face :: "int \<Rightarrow> 64 word \<Rightarrow> string \<Rightarrow> int \<times> face" where
  "trio_face f mac d = (f, LinkFc \<lparr>lfId = f, lfRemoteMac = mac, lfDevice = d\<rparr>)"

definition trio_node :: "string \<Rightarrow> int \<Rightarrow> (int \<times> face) list \<Rightarrow> (string \<times> device) list \<Rightarrow> (string list \<times> int list) list \<Rightarrow>
    string list node" where
  "trio_node n cnt faces devices fib = \<lparr>ndId = n, ndPath = n, ndIsListening = False, ndFaceCounter = cnt,
     ndFaceTable = faces, ndDeviceTable = devices, ndPit = Pit_new 10000000000, ndFib = fib,
     ndFibManager = None, ndCacheManager = CacheManager_new 102400\<rparr>"

definition trio_started :: "int \<Rightarrow> string list node \<Rightarrow> string list node" where
  "trio_started cnt nd = nd\<lparr>ndIsListening := True, ndFaceCounter := cnt,
     ndFibManager := Some \<lparr>fmId = 0, fmCmdPrefix = [''localhost'', ''nfd'', ''rib'']\<rparr>\<rparr>"

definition trio_faces :: "string \<Rightarrow> (int \<times> face) list" where
  "trio_faces n = (if n = ''A'' then [trio_face 1 0xffff ''d'', trio_face 2 2 ''d'']
     else if n = ''B'' then [trio_face 1 0xffff ''d'', trio_face 2 0xffff ''e'', trio_face 3 4 ''e'']
     else [trio_face 1 0xffff ''d''])"

definition trio_devices :: "string \<Rightarrow> (string \<times> device) list" where
  "trio_devices n = (if n = ''A'' then [(''d'', trio_device ''A'' ''d'' ''l0'' 1 1 1)]
     else if n = ''B'' then [(''d'', trio_device ''B'' ''d'' ''l0'' 2 2 1), (''e'', trio_device ''B'' ''e'' ''l1'' 3 3 2)]
     else [(''d'', trio_device ''C'' ''d'' ''l1'' 4 4 1)])"

definition trio_link :: "string \<Rightarrow> string \<times> string \<Rightarrow> string \<times> string \<Rightarrow> link" where
  "trio_link l x y = \<lparr>lnkId = l, lnkTxRate = 40, lnkMtu = 8800, lnkNodeTable = [x, y],
     lnkMatrix = [(fst x, [(fst y, \<lparr>laRate = 0, laEngine = 0\<rparr>)]), (fst y, [(fst x, \<lparr>laRate = 0, laEngine = 0\<rparr>)])]\<rparr>"

definition trio_links :: "(string \<times> link) list" where
  "trio_links = [(''l0'', trio_link ''l0'' (''A'', ''d'') (''B'', ''d'')), (''l1'', trio_link ''l1'' (''B'', ''e'') (''C'', ''d''))]"

definition trio_em :: "string list emulator" where
  "trio_em = \<lparr>emNodeTable = [(''A'', trio_node ''A'' 3 (trio_faces ''A'') (trio_devices ''A'') [([''wsn''], [2])]),
       (''B'', trio_node ''B'' 4 (trio_faces ''B'') (trio_devices ''B'') [([''wsn''], [3])]),
       (''C'', trio_node ''C'' 2 (trio_faces ''C'') (trio_devices ''C'') [])], emLinkTable = trio_links\<rparr>"

text \<open>
  A has an application on face 3; an application on face 2 of C has registered the prefix
  \<open>/wsn/thermometer\<close>, under \<open>/wsn\<close>, which B and A have routes for.
\<close>

definition trio_rib :: "string list \<times> int list" where
  "trio_rib = ([''localhost'', ''nfd'', ''rib''], [0])"

definition trio_a :: "string list node" where
  "trio_a = trio_started 5 (trio_node ''A'' 5 (trio_faces ''A'' @ [(3, AppFc (AppFace_new 3))]) (trio_devices ''A'')
     [([''wsn''], [2]), trio_rib])"

definition trio_b :: "string list node" where
  "trio_b = trio_started 5 (trio_node ''B'' 5 (trio_faces ''B'') (trio_devices ''B'') [([''wsn''], [3]), trio_rib])"

definition trio_c :: "string list node" where
  "trio_c = (trio_started 4 (trio_node ''C'' 4 (trio_faces ''C'' @ [(2, AppFc (AppFace_new 2))]) (trio_devices ''C'')
     [trio_rib, ([''wsn'', ''thermometer''], [2])]))\<lparr>ndCacheManager :=
       (CacheManager_new 102400)\<lparr>cmQueue := [\<lparr>ceData = trio_reply, ceSize = 3, ceExpire = 0\<rparr>], cmCount := 3\<rparr>\<rparr>"

definition trio_world :: "string list world" where
  "trio_world = \<lparr>wEm = \<lparr>emNodeTable = [(''A'', trio_a), (''B'', trio_b), (''C'', trio_c)], emLinkTable = trio_links\<rparr>,
     wHeap = [\<lparr>pktDst = 0, pktSrc = 0, pktWire = [6, 1, 9]\<rparr>], wNow = 0, wReady = [],
     wTimers = map (\<lambda>n. (PitTimer n, 10000000000, RunPitCleanUp n False)) [''A'', ''B'', ''C''],
     wAccepts = [(''B'', 4), (''A'', 4), (''C'', 3)], wReceives = [(''A'', 3), (''C'', 2)],
     wSent = [(''C'', 2, [6, 1, 9])]\<rparr>"

lemma trio_read:
  "Emulator_ReadNetworkConfig trio_lib config_conv counting_rng nat trio_config Emulator_new = Inr trio_em"
  by code_simp

lemma trio_rates: "rates_ok config_conv trio_config"
  by (simp add: rates_ok_def rate_ok_def get_optional_def config_conv_def trio_config_def leaf_def Let_def)

lemma trio_run:
  "and_then (Emulator_Start trio_lib trio_em) (each (perform trio_lib counting_rng)
     [Accept ''A'' 3, Accept ''C'' 2, Receive ''C'' 2 [5, 1, 9]]) = Inr trio_world"
  by code_simp

lemma trio_reachable: "reachable trio_lib counting_rng trio_em trio_world"
  by (rule and_thenE[OF trio_run]) (rule perform_reachable)

text \<open>The first frame of a fetch: A's application has asked for a reading, and the backoff of A's device is over.\<close>

definition trio_sender :: device where
  "trio_sender = (trio_device ''A'' ''d'' ''l0'' 1 2 1)\<lparr>dvTxQueue := [1]\<rparr>"

definition trio_asking :: "string list node" where
  "trio_asking = trio_a\<lparr>ndDeviceTable := [(''d'', trio_sender)],
     ndPit := \<lparr>pTable = [(iName trio_interest, \<lparr>peInterest = trio_interest,
       peNonceTable = [(7, \<lparr>frFaceId = 3, frExpire = 2000000000\<rparr>)]\<rparr>)], pCleanupInterval = 10000000000\<rparr>\<rparr>"

definition trio_frame :: "string list world" where
  "trio_frame = \<lparr>wEm = \<lparr>emNodeTable = [(''A'', trio_asking), (''B'', trio_b), (''C'', trio_c)], emLinkTable = trio_links\<rparr>,
     wHeap = [\<lparr>pktDst = 0, pktSrc = 0, pktWire = [6, 1, 9]\<rparr>, \<lparr>pktDst = 2, pktSrc = 1, pktWire = [5, 1, 7]\<rparr>],
     wNow = 320000, wReady = [],
     wTimers = map (\<lambda>n. (PitTimer n, 10000000000, RunPitCleanUp n False)) [''A'', ''B'', ''C''] @
       [(CsmaTimer ''A'' ''d'', 320000, RunDoCsma ''A'' ''d'' 0 3 False)],
     wAccepts = [(''B'', 4), (''A'', 4), (''C'', 3)], wReceives = [(''C'', 2), (''A'', 3)],
     wSent = [(''C'', 2, [6, 1, 9])]\<rparr>"

lemma trio_frame_run:
  "each (perform trio_lib counting_rng) [Receive ''A'' 3 [5, 1, 7], Tick 320000] trio_world = Inr trio_frame"
  by code_simp

lemma trio_frame_reachable: "reachable trio_lib counting_rng trio_em trio_frame"
  by (rule each_invariant[OF trio_frame_run, where I = "reachable trio_lib counting_rng trio_em"])
    (auto intro: trio_reachable reachable.next_step perform_step)

text \<open>
  The whole fetch as a schedule: the application of C registers its prefix, the application of A
  asks for a reading, the Interest crosses both links, and the reading, which C's application
  writes in two parts, crosses them back.
\<close>

definition trio_fetch :: "action list" where
  "trio_fetch =
     [Fire (CsmaTimer ''A'' ''d''), Run, Run, Tick 905000, Fire (CsmaTimer ''A'' ''d''), Run,
      Fire (RxTimer ''B'' ''d''), Run, Run, Tick 1865000, Fire (CsmaTimer ''B'' ''e''), Run, Run, Tick 2450000,
      Fire (CsmaTimer ''B'' ''e''), Run, Fire (RxTimer ''C'' ''d''), Run, Run,
      Receive ''C'' 2 [6, 1], Receive ''C'' 2 [7],
      Tick 3730000, Fire (CsmaTimer ''C'' ''d''), Run, Run, Tick 4315000, Fire (CsmaTimer ''C'' ''d''), Run,
      Fire (RxTimer ''B'' ''e''), Run, Run, Tick 4955000, Fire (CsmaTimer ''B'' ''d''), Run, Run, Tick 5540000,
      Fire (CsmaTimer ''B'' ''d''), Run, Fire (RxTimer ''A'' ''d''), Run, Run]"

lemma trio_fetch_sent:
  "case each (perform trio_lib counting_rng) trio_fetch trio_frame of
     Inl e \<Rightarrow> False
   | Inr w \<Rightarrow> wSent w = [(''C'', 2, [6, 1, 9]), (''C'', 2, [5, 1, 7]), (''A'', 3, [6, 1, 7])] \<and>
       (case map_of (emNodeTable (wEm w)) ''A'' of None \<Rightarrow> False | Some nd \<Rightarrow> is_app_face nd 3)"
  by code_simp

definition trio_schedule :: "action list" where
  "trio_schedule = [Accept ''A'' 3, Accept ''C'' 2, Receive ''C'' 2 [5, 1, 9], Receive ''A'' 3 [5, 1, 7], Tick 320000] @
     trio_fetch"

lemma trio_schedule_run:
  obtains w0 w nd where "Emulator_Start trio_lib trio_em = Inr w0"
    and "each (perform trio_lib counting_rng) trio_schedule w0 = Inr w"
    and "wSent w = [(''C'', 2, [6, 1, 9]), (''C'', 2, [5, 1, 7]), (''A'', 3, [6, 1, 7])]"
    and "map_of (emNodeTable (wEm w)) ''A'' = Some nd" and "is_app_face nd 3"
proof -
  obtain w0 where start: "Emulator_Start trio_lib trio_em = Inr w0"
    and first: "each (perform trio_lib counting_rng) [Accept ''A'' 3, Accept ''C'' 2, Receive ''C'' 2 [5, 1, 9]] w0 = Inr trio_world"
    by (rule and_thenE[OF trio_run])
  have eq: "trio_schedule = [Accept ''A'' 3, Accept ''C'' 2, Receive ''C'' 2 [5, 1, 9]] @
      [Receive ''A'' 3 [5, 1, 7], Tick 320000] @ trio_fetch" by (simp add: trio_schedule_def)
  have "each (perform trio_lib counting_rng) trio_schedule w0 = each (perform trio_lib counting_rng) trio_fetch trio_frame"
    unfolding eq each_append[of _ _ "_ @ _"] each_append[of _ "[Receive ''A'' 3 [5, 1, 7], Tick 320000]"] first
      and_then.simps trio_frame_run ..
  with start trio_fetch_sent show thesis
    by (cases "each (perform trio_lib counting_rng) trio_fetch trio_frame") (auto intro: that split: option.splits)
qed

end
