(* ===== verification/Journey.thy ===== *)
theory Journey
  imports Network Chain
begin

text \<open>
  The journey of an Interest through the network and of the Data that answers it back, along a
  path of nodes each of which routes the Interest to the next.
\<close>

section \<open>The conditions\<close>

text \<open>The codec can carry the two packets, and the Data answers the Interest.\<close>

definition exchange :: "('n, 'c) ndn \<Rightarrow> 'n interest \<Rightarrow> 'n data \<Rightarrow> bool" where
  "exchange L i d \<longleftrightarrow> tlvData L \<noteq> tlvInterest L \<and> nmIsPrefixOf L (iName i) (dName d) \<and>
     blkType L (encodeInterest L i) = tlvInterest L \<and> decodeInterest L (encodeInterest L i) = Some i \<and>
     blkFromBuffer L (encodeInterest L i) = Some (encodeInterest L i) \<and>
     blkType L (encodeData L d) = tlvData L \<and> decodeData L (encodeData L d) = Some d \<and>
     blkFromBuffer L (encodeData L d) = Some (encodeData L d)"

text \<open>The node has not cached an answer, and nothing that the Data answers is pending at it.\<close>

definition unasked :: "('n, 'c) ndn \<Rightarrow> 'n interest \<Rightarrow> 'n data \<Rightarrow> 'n world \<Rightarrow> string \<Rightarrow> bool" where
  "unasked L i d w n \<longleftrightarrow> (\<exists>nd. node_of w n = Some nd \<and>
     (\<forall>now \<ge> wNow w. CacheManager_FindMatchingData L now i (ndCacheManager nd) = None) \<and>
     (\<forall>k x g t. (k, x, g, t) \<in> pending (ndPit nd) \<longrightarrow> \<not> nmIsPrefixOf L k (dName d)))"

definition routes_to :: "('n, 'c) ndn \<Rightarrow> 'n interest \<Rightarrow> 'n world \<Rightarrow> string \<Rightarrow> int set" where
  "routes_to L i w n = (case node_of w n of None \<Rightarrow> {} | Some nd \<Rightarrow> routed L i nd)"

text \<open>
  The path from the face \<open>fo\<close> of the node \<open>n\<close> over the nodes \<open>bs\<close> to the application face \<open>g\<close> of
  the last of them: each link carries the Interest there and the Data back, and each node routes
  the Interest to one face, which does not lead back.
\<close>

fun way :: "('n, 'c) ndn \<Rightarrow> 'n interest \<Rightarrow> 'n data \<Rightarrow> time \<Rightarrow> 'n world \<Rightarrow> string \<Rightarrow> int \<Rightarrow> string list \<Rightarrow> int \<Rightarrow> bool" where
  "way L i d H w n fo [] g \<longleftrightarrow> fo = g \<and> app_at w n g"
| "way L i d H w n fo (b # bs) g \<longleftrightarrow> (\<exists>e k M dv fo'. device_of n e (wEm w) = Some dv \<and>
     link_face_at w n fo e M \<and> reaches w n e b k M \<and> carries w n e (length (encodeInterest L i)) H \<and>
     reaches w b k n e (dvMac dv) \<and> carries w b k (length (encodeData L d)) H \<and>
     unasked L i d w b \<and> routes_to L i w b = {fo'} \<and> \<not> link_face_at w b fo' k (dvMac dv) \<and> way L i d H w b fo' bs g)"

text \<open>Until the deadline the Data is for one face of the node.\<close>

definition waits :: "('n, 'c) ndn \<Rightarrow> 'n data \<Rightarrow> 'n world \<Rightarrow> string \<Rightarrow> int \<Rightarrow> time \<Rightarrow> bool" where
  "waits L d w n f deadline \<longleftrightarrow> (\<exists>nd. node_of w n = Some nd \<and> (\<forall>now < deadline. asked L now d nd = {f}))"

section \<open>They stay true elsewhere\<close>

lemma evolves_node: "evolves S w w' \<Longrightarrow> rel_option (if n \<in> S then same_ports else node_kept) (node_of w n) (node_of w' n)"
  unfolding evolves_def by blast

lemma evolves_portsE:
  assumes "evolves S w w'" and "node_of w n = Some nd"
  obtains nd' where "node_of w' n = Some nd'" and "same_ports nd nd'"
  using evolves_node[OF assms(1), of n] assms(2) that
  by (cases "node_of w' n") (auto dest: kept_ports split: if_splits)

lemma evolves_keptE:
  assumes "evolves S w w'" and "n \<notin> S" and "node_of w n = Some nd"
  obtains nd' where "node_of w' n = Some nd'" and "node_kept nd nd'"
  using evolves_node[OF assms(1), of n] assms(2,3) that by (cases "node_of w' n") auto

lemma link_face_evolves:
  assumes "evolves S w w'" and "link_face_at w n f d M"
  shows "link_face_at w' n f d M"
proof -
  obtain nd lf where "node_of w n = Some nd" "map_of (ndFaceTable nd) f = Some (LinkFc lf)" "lfDevice lf = d" "lfRemoteMac lf = M"
    using assms(2) by (auto simp: link_face_at_def)
  with evolves_portsE[OF assms(1) this(1)] show ?thesis by (metis link_face_at_def same_ports_def)
qed

lemma app_evolves:
  assumes "evolves S w w'" and "app_at w n f"
  shows "app_at w' n f"
proof -
  obtain nd where "node_of w n = Some nd" "map_of (ndFaceTable nd) f = Some (AppFc (AppFace_new f))" "(n, f) \<in> set (wReceives w)"
    using assms(2) by (auto simp: app_at_def)
  with evolves_portsE[OF assms(1) this(1)] assms(1) show ?thesis unfolding app_at_def evolves_def same_ports_def by metis
qed

lemma unasked_evolves:
  assumes "evolves S w w'" and "n \<notin> S" and "unasked L i d w n"
  shows "unasked L i d w' n"
proof -
  obtain nd where nd: "node_of w n = Some nd" "\<forall>now \<ge> wNow w. CacheManager_FindMatchingData L now i (ndCacheManager nd) = None"
    "\<forall>k x g t. (k, x, g, t) \<in> pending (ndPit nd) \<longrightarrow> \<not> nmIsPrefixOf L k (dName d)"
    using assms(3) by (auto simp: unasked_def)
  obtain nd' where "node_of w' n = Some nd'" "node_kept nd nd'" by (rule evolves_keptE[OF assms(1,2) nd(1)])
  moreover have "wNow w \<le> wNow w'" using assms(1) by (simp add: evolves_def)
  ultimately show ?thesis using nd(2,3) by (auto simp: unasked_def node_kept_def)
qed

lemma waits_evolves:
  assumes "evolves S w w'" and "n \<notin> S" and "waits L d w n f t"
  shows "waits L d w' n f t"
proof -
  obtain nd where nd: "node_of w n = Some nd" "\<forall>now < t. asked L now d nd = {f}" using assms(3) by (auto simp: waits_def)
  obtain nd' where "node_of w' n = Some nd'" "node_kept nd nd'" by (rule evolves_keptE[OF assms(1,2) nd(1)])
  with nd(2) show ?thesis by (simp add: waits_def asked_def node_kept_def)
qed

lemma routes_evolves:
  assumes "evolves S w w'" and "node_of w n = Some nd"
  shows "routes_to L i w' n = routes_to L i w n"
  by (rule evolves_portsE[OF assms]) (simp add: routes_to_def routed_def same_ports_def assms(2))

lemma way_face:
  "way L i d H w n fo bs g \<Longrightarrow> \<exists>nd face. node_of w n = Some nd \<and> map_of (ndFaceTable nd) fo = Some face"
  by (cases bs) (auto simp: app_at_def link_face_at_def)

lemma way_evolves:
  "evolves S w w' \<Longrightarrow> set bs \<inter> S = {} \<Longrightarrow> way L i d H w n fo bs g \<Longrightarrow> way L i d H w' n fo bs g"
proof (induction bs arbitrary: n fo)
  case Nil
  then show ?case by (simp add: app_evolves)
next
  case (Cons b bs)
  note ev = Cons.prems(1)
  from Cons.prems(3) obtain e k M dv fo' where v: "device_of n e (wEm w) = Some dv" "link_face_at w n fo e M"
    "reaches w n e b k M" "carries w n e (length (encodeInterest L i)) H" "reaches w b k n e (dvMac dv)"
    "carries w b k (length (encodeData L d)) H" "unasked L i d w b" "routes_to L i w b = {fo'}"
    "\<not> link_face_at w b fo' k (dvMac dv)" "way L i d H w b fo' bs g" by auto
  obtain dv' where dv': "device_of n e (wEm w') = Some dv'" "same_device dv dv'" by (rule evolves_deviceE[OF ev v(1)])
  have mac: "dvMac dv' = dvMac dv" using dv'(2) by (simp add: same_device_def)
  obtain nb face where nb: "node_of w b = Some nb" "map_of (ndFaceTable nb) fo' = Some face" using way_face[OF v(10)] by blast
  obtain nb' where nb': "node_of w' b = Some nb'" "same_ports nb nb'" by (rule evolves_portsE[OF ev nb(1)])
  have "\<not> link_face_at w' b fo' k (dvMac dv)" using v(9) nb nb' by (auto simp: link_face_at_def same_ports_def)
  moreover have "b \<notin> S" "set bs \<inter> S = {}" using Cons.prems(2) by auto
  ultimately show ?case
    using dv'(1) mac v(8) routes_evolves[OF ev nb(1), of L i] link_face_evolves[OF ev v(2)] reaches_evolves[OF ev v(3)]
      reaches_evolves[OF ev v(5)] carries_evolves[OF ev v(4)] carries_evolves[OF ev v(6)] unasked_evolves[OF ev _ v(7)]
      Cons.IH[OF ev _ v(10)]
    by (simp, metis)
qed

section \<open>Arrivals\<close>

lemma same_ports_updates [simp]:
  "same_ports nd (nd\<lparr>ndPit := pit\<rparr>)" "same_ports nd (nd\<lparr>ndPit := pit, ndCacheManager := c\<rparr>)"
  by (simp_all add: same_ports_def option.rel_refl)

lemma evolves_at_node:
  assumes "node_of w n = Some nd" and "same_ports nd nd1" and "node_of w1 = (node_of w)(n \<mapsto> nd1)"
    and "link_of w1 = link_of w" and "wNow w1 = wNow w" and "set (wReceives w1) = set (wReceives w)"
  shows "evolves {n} w w1"
  using assms by (simp add: evolves_def option.rel_refl)

text \<open>The laws of the library that the hops rely on.\<close>

definition library :: "('n, 'c) ndn \<Rightarrow> rng \<Rightarrow> bool" where
  "library L R \<longleftrightarrow> name_laws L \<and> block_laws L \<and> 0 < maxPacketSize L \<and> rng_laws R"

lemma interest_arrival:
  assumes lib: "library L R" and ok: "world_ok w" and arr: "arrives L n f (encodeInterest L i) act w"
    and ex: "exchange L i d" and un: "unasked L i d w n" and rt: "routes_to L i w n - {f} = {fo}"
    and face: "node_of w n = Some nd" "map_of (ndFaceTable nd) fo \<noteq> None"
  shows "\<exists>w1 w' p. perform L R act w = Inr w' \<and> world_ok w' \<and> sends_on R n fo p w1 w' \<and> calm w1 \<and>
    Packet_GetBlock (wHeap w1) p = encodeInterest L i \<and> evolves {n} w w1 \<and> wNow w1 = wNow w \<and> wSent w1 = wSent w \<and>
    waits L d w1 n f (wNow w + iLifetime i) \<and> (\<forall>k. face_room k w \<longrightarrow> face_room k w1)"
proof -
  note nd = world_node[OF ok face(1)]
  note tab = node_okD(1)[OF nd(1)]
  have un: "CacheManager_FindMatchingData L (wNow w) i (ndCacheManager nd) = None"
    "\<forall>k x g t. (k, x, g, t) \<in> pending (ndPit nd) \<longrightarrow> \<not> nmIsPrefixOf L k (dName d)"
    using un face(1) by (auto simp: unasked_def)
  have ex: "blkType L (encodeInterest L i) = tlvInterest L" "decodeInterest L (encodeInterest L i) = Some i"
    "nmIsPrefixOf L (iName i) (dName d)" using ex by (simp_all add: exchange_def)
  have "fo \<noteq> 0" using face(2) tables_ok_face(2)[OF tab, of fo] by fastforce
  moreover have "\<forall>g t. (iName i, iNonce i, g, t) \<notin> pending (ndPit nd)" using un(2) ex(3) by blast
  moreover have "routed L i nd - {f} = {fo}" using rt face(1) by (simp add: routes_to_def)
  ultimately obtain pit where disp: "Face_Dispatch L R (wNow w) f (encodeInterest L i) (wHeap w, nd, []) =
      Node_ForwardToFace R (length (wHeap w)) fo (wHeap w @ [Packet_new (encodeInterest L i)], nd\<lparr>ndPit := pit\<rparr>, [])"
    and pit: "node_ok (nd\<lparr>ndPit := pit\<rparr>)"
      "pending pit = insert (iName i, iNonce i, f, wNow w + iLifetime i) (pending (ndPit nd))"
    using Dispatch_interest_to[OF nd(1) _ ex(1,2) un(1), of f fo R "wHeap w"] lib by (auto simp: library_def)
  have om: "om_ok (ndFaceTable nd)" using tab by (simp add: tables_ok_def)
  have laws: "block_laws L" "0 < maxPacketSize L" using lib by (simp_all add: library_def)
  obtain w1 w' where w: "perform L R act w = Inr w'" "sends_on R n fo (length (wHeap w)) w1 w'" "calm w1"
    "node_of w1 = (node_of w)(n \<mapsto> nd\<lparr>ndPit := pit\<rparr>)" "wHeap w1 = wHeap w @ [Packet_new (encodeInterest L i)]"
    "link_of w1 = link_of w" "wNow w1 = wNow w" "wSent w1 = wSent w" "set (wReceives w1) = set (wReceives w)"
    using arrival_sends[OF arr laws face(1) om pit(1) _ _ disp] by auto
  have "asked L now d (nd\<lparr>ndPit := pit\<rparr>) = {f}" if "now < wNow w + iLifetime i" for now
    using that un(2) ex(3) by (auto simp: asked_def pit(2))
  then have "waits L d w1 n f (wNow w + iLifetime i)" by (simp add: waits_def w(4))
  moreover have "evolves {n} w w1" by (rule evolves_at_node[OF face(1) _ w(4,6,7,9)]) simp
  moreover have "face_room k w1" if "face_room k w" for k by (rule face_room_put[OF that face(1) _ w(4)]) simp
  moreover have "world_ok w'" using schedule_world[OF ok each_one[OF w(1)]] .
  moreover have "Packet_GetBlock (wHeap w1) (length (wHeap w)) = encodeInterest L i"
    by (simp add: w(5) Packet_GetBlock_def Packet_new_def)
  ultimately show ?thesis using w by blast
qed

lemma data_arrival:
  assumes lib: "library L R" and ok: "world_ok w" and arr: "arrives L n f (encodeData L d) act w"
    and ex: "exchange L i d" and wait: "waits L d w n fo t" and now: "wNow w < t"
  shows "\<exists>w1 w' p. perform L R act w = Inr w' \<and> world_ok w' \<and> sends_on R n fo p w1 w' \<and> calm w1 \<and>
    Packet_GetBlock (wHeap w1) p = encodeData L d \<and> evolves {n} w w1 \<and> wNow w1 = wNow w \<and> wSent w1 = wSent w \<and>
    (\<forall>k. face_room k w \<longrightarrow> face_room k w1)"
proof -
  obtain nd where nw: "node_of w n = Some nd" and asked: "asked L (wNow w) d nd = {fo}"
    using wait now by (auto simp: waits_def)
  note nd = world_node[OF ok nw]
  have ex: "blkType L (encodeData L d) = tlvData L" "tlvData L \<noteq> tlvInterest L" "decodeData L (encodeData L d) = Some d"
    using ex by (simp_all add: exchange_def)
  obtain pit c where disp: "Face_Dispatch L R (wNow w) f (encodeData L d) (wHeap w, nd, []) =
      Node_ForwardToFace R (length (wHeap w)) fo (wHeap w @ [Packet_new (encodeData L d)],
        nd\<lparr>ndPit := pit, ndCacheManager := c\<rparr>, [])" and nd1: "node_ok (nd\<lparr>ndPit := pit, ndCacheManager := c\<rparr>)"
    using Dispatch_data_to[OF nd(1) ex asked] by blast
  have om: "om_ok (ndFaceTable nd)" using node_okD(1)[OF nd(1)] by (simp add: tables_ok_def)
  have laws: "block_laws L" "0 < maxPacketSize L" using lib by (simp_all add: library_def)
  obtain w1 w' where w: "perform L R act w = Inr w'" "sends_on R n fo (length (wHeap w)) w1 w'" "calm w1"
    "node_of w1 = (node_of w)(n \<mapsto> nd\<lparr>ndPit := pit, ndCacheManager := c\<rparr>)" "wHeap w1 = wHeap w @ [Packet_new (encodeData L d)]"
    "link_of w1 = link_of w" "wNow w1 = wNow w" "wSent w1 = wSent w" "set (wReceives w1) = set (wReceives w)"
    using arrival_sends[OF arr laws nw om nd1 _ _ disp] by auto
  have "evolves {n} w w1" by (rule evolves_at_node[OF nw _ w(4,6,7,9)]) simp
  moreover have "face_room k w1" if "face_room k w" for k by (rule face_room_put[OF that nw _ w(4)]) simp
  moreover have "world_ok w'" using schedule_world[OF ok each_one[OF w(1)]] .
  moreover have "Packet_GetBlock (wHeap w1) (length (wHeap w)) = encodeData L d"
    by (simp add: w(5) Packet_GetBlock_def Packet_new_def)
  ultimately show ?thesis using w by blast
qed

text \<open>An application face: the packet is written to the socket.\<close>

lemma sends_on_app:
  assumes "sends_on R n g p w w'" and "app_at w n g" and "calm w"
  shows "calm w'" and "evolves {} w w'" and "wNow w' = wNow w"
    and "wSent w' = wSent w @ [(n, g, Packet_GetBlock (wHeap w) p)]" and "wReceives w' = wReceives w"
    and "face_room k w' = face_room k w"
proof -
  obtain nd where nd: "node_of w n = Some nd" "map_of (ndFaceTable nd) g = Some (AppFc (AppFace_new g))"
    using assms(2) by (auto simp: app_at_def)
  then have w': "w' = node_request n (AppSend g (Packet_GetBlock (wHeap w) p)) (set_node n nd (wHeap w) w)"
    using assms(1) by (auto simp: sends_on_def Node_ForwardToFace_def AppFace_new_def)
  have views: "node_of w' = node_of w" "link_of w' = link_of w" "timer_of w' = timer_of w" "wReady w' = wReady w"
    using nd(1) by (auto simp: w' fun_eq_iff)
  show "calm w'" using assms(3) by (simp add: calm_iff devices_idle_def views)
  show "evolves {} w w'" by (simp add: evolves_def views option.rel_refl) (simp add: w')
  show "face_room k w' = face_room k w" by (rule face_room_same[OF views(1)])
  show "wNow w' = wNow w" "wReceives w' = wReceives w"
    "wSent w' = wSent w @ [(n, g, Packet_GetBlock (wHeap w) p)]" by (simp_all add: w')
qed

section \<open>The path\<close>

text \<open>What the applications do in a schedule.\<close>

definition by_apps :: "action list \<Rightarrow> action list" where
  "by_apps as = filter (\<lambda>act. \<not> internal act) as"

lemma by_apps_simps [simp]:
  "by_apps (xs @ ys) = by_apps xs @ by_apps ys" "by_apps [Run] = []" "by_apps [Tick t] = []"
  "by_apps [Receive n f bs] = [Receive n f bs]"
  by (simp_all add: by_apps_def)

lemma by_apps_internal: "\<forall>act \<in> set as. internal act \<Longrightarrow> by_apps as = []"
  by (simp add: by_apps_def filter_empty_conv)

lemma calm_tick: "calm w \<Longrightarrow> calm (w\<lparr>wNow := t\<rparr>)"
  by (simp add: calm_iff devices_idle_def)

lemma evolves_tick: "wNow w \<le> t \<Longrightarrow> evolves {} w (w\<lparr>wNow := t\<rparr>)"
  by (simp add: evolves_def option.rel_refl)

lemma evolves_refl: "evolves S w w"
  by (simp add: evolves_def option.rel_refl)

text \<open>
  The face of a node that an Interest is sent on gets the Data for it: the node ends up sending
  the Data on the face \<open>f\<close> it owes it to.
\<close>

lemma fetch_app:
  assumes lib: "library L R" and ex: "exchange L i d" and ok: "world_ok w'" and sent: "sends_on R n g p w w'"
    and calm: "calm w" and wire: "Packet_GetBlock (wHeap w) p = encodeInterest L i" and app: "app_at w n g"
    and wait: "waits L d w n f t" and r: "0 \<le> r" "wNow w + r < t" and room: "face_room k w"
  shows "\<exists>as w1 w2 q. each (perform L R) as w' = Inr w2 \<and> world_ok w2 \<and> sends_on R n f q w1 w2 \<and> calm w1 \<and>
    Packet_GetBlock (wHeap w1) q = encodeData L d \<and> by_apps as = [Receive n g (encodeData L d)] \<and>
    evolves {n} w w1 \<and> wNow w1 \<le> wNow w + r \<and> wSent w1 = wSent w @ [(n, g, encodeInterest L i)] \<and> face_room k w1"
proof -
  note s = sends_on_app[OF sent app calm]
  define w3 where "w3 = w'\<lparr>wNow := wNow w + r\<rparr>"
  have tick: "perform L R (Tick (wNow w + r)) w' = Inr w3" using r s(3) by (simp add: w3_def)
  have ok3: "world_ok w3" using schedule_world[OF ok each_one[OF tick]] .
  have ev: "evolves {} w w3"
    unfolding w3_def by (rule evolves_trans[OF s(2) evolves_tick]) (use s(3) r in simp_all)
  have calm3: "calm w3" unfolding w3_def by (rule calm_tick[OF s(1)])
  have "blkFromBuffer L (encodeData L d) = Some (encodeData L d)" using ex by (simp add: exchange_def)
  then have arr: "arrives L n g (encodeData L d) (Receive n g (encodeData L d)) w3"
    using calm3 app_evolves[OF ev app] by (simp add: arrives_def calm_iff devices_idle_def)
  have now: "wNow w3 < t" using r(2) by (simp add: w3_def)
  obtain w1 w2 q where d: "perform L R (Receive n g (encodeData L d)) w3 = Inr w2" "world_ok w2" "sends_on R n f q w1 w2"
    "calm w1" "Packet_GetBlock (wHeap w1) q = encodeData L d" "evolves {n} w3 w1" "wNow w1 = wNow w3" "wSent w1 = wSent w3"
    "face_room k w3 \<longrightarrow> face_room k w1"
    using data_arrival[OF lib ok3 arr ex waits_evolves[OF ev _ wait] now] by auto
  have "each (perform L R) ([Tick (wNow w + r)] @ [Receive n g (encodeData L d)]) w' = Inr w2"
    by (rule each_chain[OF each_one[OF tick] each_one[OF d(1)]])
  moreover have "by_apps ([Tick (wNow w + r)] @ [Receive n g (encodeData L d)]) = [Receive n g (encodeData L d)]"
    by (simp only: by_apps_simps append_Nil)
  moreover have "evolves {n} w w1" by (rule evolves_trans[OF ev d(6)]) simp
  moreover have "wSent w1 = wSent w @ [(n, g, encodeInterest L i)]" using d(8) s(4) wire by (simp add: w3_def)
  moreover have "wNow w1 \<le> wNow w + r" using d(7) by (simp add: w3_def)
  moreover have "face_room k w1" using d(9) room s(6) by (simp add: w3_def face_room_def)
  ultimately show ?thesis using d(2-5) by blast
qed

lemma fetch:
  assumes lib: "library L R" and ex: "exchange L i d" and r: "0 \<le> r"
  shows "world_ok w' \<Longrightarrow> sends_on R n fo p w w' \<Longrightarrow> calm w \<Longrightarrow> Packet_GetBlock (wHeap w) p = encodeInterest L i \<Longrightarrow>
    way L i d H w n fo bs g \<Longrightarrow> distinct (n # bs) \<Longrightarrow> waits L d w n f t \<Longrightarrow>
    wNow w + 2 * int (length bs) * H + r < t \<Longrightarrow> 2 * int (length bs) * H + r < iLifetime i \<Longrightarrow>
    face_room (2 * length bs + k0) w \<Longrightarrow>
    \<exists>as w1 w2 q. each (perform L R) as w' = Inr w2 \<and> world_ok w2 \<and> sends_on R n f q w1 w2 \<and> calm w1 \<and>
      Packet_GetBlock (wHeap w1) q = encodeData L d \<and> by_apps as = [Receive (last (n # bs)) g (encodeData L d)] \<and>
      evolves (set (n # bs)) w w1 \<and> wNow w1 \<le> wNow w + 2 * int (length bs) * H + r \<and>
      wSent w1 = wSent w @ [(last (n # bs), g, encodeInterest L i)] \<and> face_room k0 w1"
proof (induction bs arbitrary: n fo p w w' f t k0)
  case Nil
  then show ?case using fetch_app[OF lib ex Nil.prems(1)] r by simp
next
  case (Cons b bs)
  note ok = Cons.prems(1) and sent = Cons.prems(2) and calm = Cons.prems(3) and wire = Cons.prems(4)
  have R: "rng_laws R" using lib by (simp add: library_def)
  have dist: "n \<noteq> b" "n \<notin> set bs" "b \<notin> set bs" "distinct (b # bs)" using Cons.prems(6) by auto
  from Cons.prems(5) obtain e k M dv fo' where dv: "device_of n e (wEm w) = Some dv" and out: "link_face_at w n fo e M"
    and there: "reaches w n e b k M" "carries w n e (length (encodeInterest L i)) H"
    and back': "reaches w b k n e (dvMac dv)" "carries w b k (length (encodeData L d)) H"
    and b: "unasked L i d w b" "routes_to L i w b = {fo'}" "\<not> link_face_at w b fo' k (dvMac dv)"
    and way: "way L i d H w b fo' bs g" by auto
  \<comment> \<open>the Interest goes to the next node\<close>
  obtain as2 w2 fb where h1: "each (perform L R) as2 w' = Inr w2" "\<forall>act \<in> set as2. internal act" "world_ok w2"
    "arrives L b fb (encodeInterest L i) Run w2" "link_face_at w2 b fb k (dvMac dv)" "evolves {} w w2"
    "wNow w2 \<le> wNow w + H" "wSent w2 = wSent w" "face_room (2 * length bs + Suc k0) w2"
    using link_hop[OF ok sent calm R out dv _ there(1), of H "2 * length bs + Suc k0" L] there(2) wire Cons.prems(10)
    by (auto simp: Packet_GetLength_def)
  note ev2 = h1(6)
  obtain nb face where nb: "node_of w b = Some nb" "map_of (ndFaceTable nb) fo' = Some face" using way_face[OF way] by blast
  obtain nb2 where nb2: "node_of w2 b = Some nb2" "same_ports nb nb2" by (rule evolves_portsE[OF ev2 nb(1)])
  have "\<not> link_face_at w2 b fo' k (dvMac dv)" using b(3) nb nb2 by (auto simp: link_face_at_def same_ports_def)
  then have "fo' \<noteq> fb" using h1(5) by blast
  then have rt: "routes_to L i w2 b - {fb} = {fo'}" using b(2) routes_evolves[OF ev2 nb(1), of L i] by auto
  have face2: "map_of (ndFaceTable nb2) fo' \<noteq> None" using nb nb2 by (auto simp: same_ports_def)
  have un2: "unasked L i d w2 b" by (rule unasked_evolves[OF ev2 _ b(1)]) simp
  obtain w3 w3' p3 where h2: "perform L R Run w2 = Inr w3'" "world_ok w3'" "sends_on R b fo' p3 w3 w3'" "calm w3"
    "Packet_GetBlock (wHeap w3) p3 = encodeInterest L i" "evolves {b} w2 w3" "wNow w3 = wNow w2" "wSent w3 = wSent w2"
    "waits L d w3 b fb (wNow w2 + iLifetime i)" "face_room (2 * length bs + Suc k0) w3"
    using interest_arrival[OF lib h1(3,4) ex un2 rt nb2(1) face2] h1(9) by blast
  have ev3: "evolves {b} w w3" by (rule evolves_trans[OF ev2 h2(6)]) simp
  \<comment> \<open>the next node fetches the Data\<close>
  have way3: "way L i d H w3 b fo' bs g" by (rule way_evolves[OF ev3 _ way]) (use dist in simp)
  have len: "2 * int (length (b # bs)) * H = 2 * int (length bs) * H + 2 * H" by (simp add: algebra_simps)
  have H: "0 \<le> H" using h1(7) ev2 by (simp add: evolves_def)
  have "wNow w3 + 2 * int (length bs) * H + r < wNow w2 + iLifetime i" "2 * int (length bs) * H + r < iLifetime i"
    using Cons.prems(9) h2(7) H unfolding len by simp_all
  from Cons.IH[OF h2(2-5) way3 dist(4) h2(9) this h2(10)]
  obtain as4 w4 w4' q4 where h3: "each (perform L R) as4 w3' = Inr w4'" "world_ok w4'" "sends_on R b fb q4 w4 w4'" "calm w4"
    "Packet_GetBlock (wHeap w4) q4 = encodeData L d" "by_apps as4 = [Receive (last (b # bs)) g (encodeData L d)]"
    "evolves (set (b # bs)) w3 w4" "wNow w4 \<le> wNow w3 + 2 * int (length bs) * H + r"
    "wSent w4 = wSent w3 @ [(last (b # bs), g, encodeInterest L i)]" "face_room (Suc k0) w4"
    by (elim exE conjE) (rule that)
  have ev34: "evolves (set (b # bs)) w2 w4" by (rule evolves_trans[OF h2(6) h3(7)]) simp
  have ev4: "evolves (set (b # bs)) w w4" by (rule evolves_trans[OF ev2 ev34]) simp
  \<comment> \<open>the Data comes back\<close>
  obtain db where db: "device_of b k (wEm w4) = Some db"
    using reaches_evolves[OF ev4 back'(1)] by (auto simp: reaches_def)
  obtain as6 w6 fn where h4: "each (perform L R) as6 w4' = Inr w6" "\<forall>act \<in> set as6. internal act" "world_ok w6"
    "arrives L n fn (encodeData L d) Run w6" "evolves {} w4 w6" "wNow w6 \<le> wNow w4 + H" "wSent w6 = wSent w4" "face_room k0 w6"
    using link_hop[OF h3(2-4) R link_face_evolves[OF ev34 h1(5)] db _ reaches_evolves[OF ev4 back'(1)] h3(10), of H L]
      carries_evolves[OF ev4 back'(2)] h3(5) by (auto simp: Packet_GetLength_def)
  have ev6: "evolves (set (b # bs)) w w6" by (rule evolves_trans[OF ev4 h4(5)]) simp
  have wait6: "waits L d w6 n f t" by (rule waits_evolves[OF ev6 _ Cons.prems(7)]) (use dist in simp)
  have now6: "wNow w6 \<le> wNow w + 2 * int (length (b # bs)) * H + r"
    using h4(6) h3(8) h2(7) h1(7) unfolding len by simp
  then have "wNow w6 < t" using Cons.prems(8) by simp
  from data_arrival[OF lib h4(3,4) ex wait6 this]
  obtain w7 w8 q where h5: "perform L R Run w6 = Inr w8" "world_ok w8" "sends_on R n f q w7 w8" "calm w7"
    "Packet_GetBlock (wHeap w7) q = encodeData L d" "evolves {n} w6 w7" "wNow w7 = wNow w6" "wSent w7 = wSent w6"
    "\<forall>k. face_room k w6 \<longrightarrow> face_room k w7" by (elim exE conjE) (rule that)
  have "each (perform L R) (as2 @ [Run] @ as4 @ as6 @ [Run]) w' = Inr w8"
    by (intro each_chain[OF h1(1)] each_chain[OF each_one[OF h2(1)]] each_chain[OF h3(1)] each_chain[OF h4(1)] each_one[OF h5(1)])
  moreover have "by_apps (as2 @ [Run] @ as4 @ as6 @ [Run]) = [Receive (last (n # b # bs)) g (encodeData L d)]"
    using h3(6) by (simp only: by_apps_simps by_apps_internal[OF h1(2)] by_apps_internal[OF h4(2)]) simp
  moreover have "evolves (set (n # b # bs)) w w7" by (rule evolves_trans[OF ev6 h5(6)]) auto
  moreover have "wSent w7 = wSent w @ [(last (n # b # bs), g, encodeInterest L i)]"
    using h5(8) h4(7) h3(9) h2(8) h1(8) by simp
  moreover have "wNow w7 \<le> wNow w + 2 * int (length (b # bs)) * H + r" using now6 h5(7) by simp
  moreover have "face_room k0 w7" using h5(9) h4(8) by blast
  ultimately show ?case using h5(2-5) by blast
qed

text \<open>There and back.\<close>

lemma round_trip:
  assumes "rates_ok C config" and "Emulator_ReadNetworkConfig L C R seed config Emulator_new = Inr em"
    and "reachable L R em w" and "library L R" and "exchange L i d" and "calm w"
    and "app_at w a f" and "unasked L i d w a" and "routes_to L i w a - {f} = {fo}"
    and "way L i d H w a fo bs g" and "distinct (a # bs)"
    and "0 \<le> r" and "2 * int (length bs) * H + r < iLifetime i" and "face_room (2 * length bs) w"
  shows "\<exists>as w'. each (perform L R) as w = Inr w' \<and> reachable L R em w' \<and> calm w' \<and>
    by_apps as = [Receive a f (encodeInterest L i), Receive (last (a # bs)) g (encodeData L d)] \<and>
    wSent w' = wSent w @ [(last (a # bs), g, encodeInterest L i), (a, f, encodeData L d)] \<and>
    wNow w' \<le> wNow w + 2 * int (length bs) * H + r"
proof -
  note ok = run_world[OF assms(1-3)]
  obtain nd face where nd: "node_of w a = Some nd" "map_of (ndFaceTable nd) fo = Some face" using way_face[OF assms(10)] by blast
  have "blkFromBuffer L (encodeInterest L i) = Some (encodeInterest L i)" using assms(5) by (simp add: exchange_def)
  then have arr: "arrives L a f (encodeInterest L i) (Receive a f (encodeInterest L i)) w"
    using assms(6,7) by (simp add: arrives_def calm_iff devices_idle_def)
  obtain w1 w1' p where h1: "perform L R (Receive a f (encodeInterest L i)) w = Inr w1'" "world_ok w1'"
    "sends_on R a fo p w1 w1'" "calm w1" "Packet_GetBlock (wHeap w1) p = encodeInterest L i" "evolves {a} w w1"
    "wNow w1 = wNow w" "wSent w1 = wSent w" "waits L d w1 a f (wNow w + iLifetime i)" "face_room (2 * length bs + 0) w1"
    using assms(14) interest_arrival[OF assms(4) ok arr assms(5,8,9) nd(1)] nd(2) by auto
  have way: "way L i d H w1 a fo bs g" by (rule way_evolves[OF h1(6) _ assms(10)]) (use assms(11) in simp)
  have "wNow w1 + 2 * int (length bs) * H + r < wNow w + iLifetime i" using h1(7) assms(13) by simp
  from fetch[OF assms(4,5,12) h1(2-5) way assms(11) h1(9) this assms(13) h1(10)]
  obtain as2 w2 w3 q where h2: "each (perform L R) as2 w1' = Inr w3" "world_ok w3" "sends_on R a f q w2 w3" "calm w2"
    "Packet_GetBlock (wHeap w2) q = encodeData L d" "by_apps as2 = [Receive (last (a # bs)) g (encodeData L d)]"
    "evolves (set (a # bs)) w1 w2" "wNow w2 \<le> wNow w1 + 2 * int (length bs) * H + r"
    "wSent w2 = wSent w1 @ [(last (a # bs), g, encodeInterest L i)]" by (elim exE conjE) (rule that)
  note fin = sends_on_app[OF h2(3) app_evolves[OF h2(7) app_evolves[OF h1(6) assms(7)]] h2(4)]
  have run: "each (perform L R) ([Receive a f (encodeInterest L i)] @ as2) w = Inr w3"
    by (rule each_chain[OF each_one[OF h1(1)] h2(1)])
  have "reachable L R em w3"
    by (rule each_invariant[OF run, where I = "reachable L R em"]) (auto intro: assms(3) reachable.next_step perform_step)
  moreover have "by_apps ([Receive a f (encodeInterest L i)] @ as2) =
      [Receive a f (encodeInterest L i), Receive (last (a # bs)) g (encodeData L d)]"
    by (simp only: by_apps_simps h2(6)) simp
  moreover have "wSent w3 = wSent w @ [(last (a # bs), g, encodeInterest L i), (a, f, encodeData L d)]"
    using fin(4) h2(5,9) h1(8) by simp
  moreover have "wNow w3 \<le> wNow w + 2 * int (length bs) * H + r" using fin(3) h2(8) h1(7) by simp
  ultimately show ?thesis using run fin(1) by blast
qed

section \<open>Properties\<close>

text \<open>
  C1: Interests and Data travel end to end through the network. In every state that the emulator
  reaches from a configuration and in which nothing is on its way, an application of \<open>a\<close> can fetch
  Data over any path of nodes that route its Interest one to the next over links without loss,
  if the Interest lives long enough for the way there and back, and the nodes can still number a
  face for each frame that crosses a link (their numbers are ints): there is a run in which the
  applications do nothing but send the Interest and answer it, and in which the emulator sends
  the applications nothing but the Interest, once, to the one at the end of the path, and the
  Data, once, to the one that asked; afterwards nothing is on its way.
\<close>

theorem network_round_trip:
  assumes "rates_ok C config" and "Emulator_ReadNetworkConfig L C R seed config Emulator_new = Inr em"
    and "reachable L R em w" and "library L R" and "exchange L i d" and "calm w"
    and "app_at w a f" and "unasked L i d w a" and "routes_to L i w a - {f} = {fo}"
    and "way L i d H w a fo bs g" and "distinct (a # bs)"
    and "0 \<le> r" and "2 * int (length bs) * H + r < iLifetime i" and "face_room (2 * length bs) w"
  shows "\<exists>as w'. each (perform L R) as w = Inr w' \<and> reachable L R em w' \<and> calm w' \<and>
    by_apps as = [Receive a f (encodeInterest L i), Receive (last (a # bs)) g (encodeData L d)] \<and>
    wSent w' = wSent w @ [(last (a # bs), g, encodeInterest L i), (a, f, encodeData L d)] \<and>
    wNow w' \<le> wNow w + 2 * int (length bs) * H + r"
  by (rule round_trip[OF assms])

text \<open>
  C14: A frame can reach each of its addressees. When the CSMA timer of an idle device with one frame
  in its queue completes, then, if every neighbour whose connection does not drop the frame
  (\<open>listeners\<close>: all of them, each by the draw of its own connection) is quiet and can number a
  face, there is a run of the emulator's own actions, for as long as the frame is on the air,
  after which the queue of the sender is empty and the handlers that are queued are one dispatch
  for each of these neighbours that the frame is addressed to, in the order of the link, on a
  face that leads back to the source; the other neighbours drop the frame.
\<close>

theorem frame_reaches_addressees:
  assumes "rates_ok C config" and "Emulator_ReadNetworkConfig L C R seed config Emulator_new = Inr em"
    and "reachable L R em w" and "ready_to_send w a d p nd dv"
    and "link_of w (lnkId (dvLink dv)) = Some lk"
    and "\<forall>(m, k) \<in> set (listeners R a lk). quiet w m k \<and> has_number w m" and "0 < lnkTxRate lk"
    and "tx_delay (lnkTxRate lk) (Packet_GetLength (wHeap w) p) = Inr t"
  shows "\<exists>as w' face. each (perform L R) as w = Inr w' \<and> by_apps as = [] \<and> wNow w' = wNow w + t * 1000 \<and>
    device_of a d (wEm w') = Some (dv\<lparr>dvTxQueue := []\<rparr>) \<and>
    wReady w' = map (\<lambda>(m, k). RunDispatch m (face m k) (Packet_GetBlock (wHeap w) p))
      (filter (addressed w p) (listeners R a lk)) \<and>
    (\<forall>(m, k) \<in> set (filter (addressed w p) (listeners R a lk)).
      link_face_at w' m (face m k) k (Packet_GetSrc (wHeap w) p))"
proof -
  let ?rx = "listeners R a lk"
  note ok = run_world[OF assms(1-3)]
  have "link_ok lk"
    using emulator_okD(2)[OF world_okD(4)[OF ok]] assms(5) by (auto simp: link_of_def)
  then obtain lk' where tr: "Link_Transmit R a lk = Inr (?rx, lk')"
    using Transmit_ok Transmit_listeners by metis
  obtain w' where w': "each (perform L R) (frame_schedule a d (wNow w + t * 1000) ?rx) w = Inr w'"
    "wNow w' = wNow w + t * 1000" "wHeap w' = wHeap w" "wReady w' = map (dispatch_of w' p) (filter (addressed w p) ?rx)"
    and fr: "frame_received p ?rx (set_node a (put_device d (dv\<lparr>dvTxQueue := []\<rparr>) nd) (wHeap w) w) w'"
    using frame_crosses_link[OF ok assms(4,5) tr assms(6,8,7), of L] by auto
  let ?w = "set_node a (put_device d (dv\<lparr>dvTxQueue := []\<rparr>) nd) (wHeap w) w"
  let ?src = "Packet_GetSrc (wHeap w) p"
  note a = receivers(3)[OF ok assms(5) tr]
  define face where "face = (\<lambda>m k. case node_of w' m of None \<Rightarrow> 0 | Some nd \<Rightarrow> source_face ?src k nd)"
  have "node_of w' a = Some (put_device d (dv\<lparr>dvTxQueue := []\<rparr>) nd)" using fr a by (simp add: frame_received_def)
  then have "device_of a d (wEm w') = Some (dv\<lparr>dvTxQueue := []\<rparr>)" by (simp add: device_of_node)
  moreover have "wReady w' = map (\<lambda>(m, k). RunDispatch m (face m k) (Packet_GetBlock (wHeap w) p)) (filter (addressed w p) ?rx)"
    by (simp add: w'(3,4) dispatch_of_def face_def split_beta cong: option.case_cong)
  moreover have "link_face_at w' m (face m k) k ?src" if mk: "(m, k) \<in> set ?rx" and mine: "addressed w p (m, k)" for m k
  proof -
    have "m \<noteq> a" using mk a by force
    then have "addressed ?w p (m, k)" using mine by (simp add: addressed_def device_of_node)
    with fr mk obtain nm nm' where "node_of w' m = Some nm'" "received ?src True k nm nm'"
      by (fastforce simp: frame_received_def)
    then show ?thesis by (auto simp: received_def link_face_at_def face_def source_face_def)
  qed
  ultimately show ?thesis
    using w'(1,2) by_apps_internal[OF internal_frame_schedule]
    by (intro exI[of _ "frame_schedule a d (wNow w + t * 1000) ?rx"] exI[of _ w'] exI[of _ face]) auto
qed

section \<open>Witnesses\<close>

lemma trio_library: "library trio_lib counting_rng"
  by (simp add: library_def trio_lib_def list_ndn_name_laws list_ndn_block_laws counting_rng_laws)

lemmas trio_packets = trio_interest_def trio_data_def trio_register_def trio_reply_def ask_def

lemma trio_codec:
  "encodeInterest trio_lib trio_interest = [5, 1, 7]" "decodeInterest trio_lib [5, 1, 7] = Some trio_interest"
  "encodeData trio_lib trio_data = [6, 1, 7]" "decodeData trio_lib [6, 1, 7] = Some trio_data"
  "blkType trio_lib [5, 1, 7] = 5" "blkType trio_lib [6, 1, 7] = 6"
  by (simp_all add: trio_lib_def list_ndn_def trio_packets)

lemma trio_exchange: "exchange trio_lib trio_interest trio_data"
  unfolding exchange_def trio_codec
  by (simp add: trio_lib_def trio_codec[unfolded trio_lib_def]) (simp add: trio_packets)

lemma trio_nodes:
  "node_of trio_world = [''A'' \<mapsto> trio_a, ''B'' \<mapsto> trio_b, ''C'' \<mapsto> trio_c]"
  "link_of trio_world = map_of trio_links" "wReady trio_world = []" "wNow trio_world = 0"
  "wReceives trio_world = [(''A'', 3), (''C'', 2)]"
  by (auto simp: node_of_def link_of_def trio_world_def fun_eq_iff)

lemmas trio_node_defs = trio_a_def trio_b_def trio_c_def trio_started_def trio_node_def trio_faces_def trio_face_def
  trio_devices_def trio_device_def AppFace_new_def

lemma trio_calm: "calm trio_world"
  unfolding calm_iff devices_idle_def trio_nodes
  by (auto simp: trio_node_defs timer_of_def trio_world_def split: if_splits)

lemma trio_pending: "pending (Pit_new t) = {}"
  by (auto simp: pending_def Pit_new_def)

lemma trio_unasked:
  assumes "n = ''A'' \<or> n = ''B'' \<or> n = ''C''"
  shows "unasked trio_lib trio_interest trio_data trio_world n"
proof -
  have "CacheManager_FindMatchingData trio_lib now trio_interest (CacheManager_new 102400) = None"
    "CacheManager_FindMatchingData trio_lib now trio_interest
       ((CacheManager_new 102400)\<lparr>cmQueue := [\<lparr>ceData = trio_reply, ceSize = 3, ceExpire = 0\<rparr>], cmCount := 3\<rparr>) = None" for now
    by (simp_all add: CacheManager_FindMatchingData_def CacheManager_new_def entry_matches_def trio_packets trio_lib_def)
  moreover have "pending (ndPit trio_a) = {}" "pending (ndPit trio_b) = {}" "pending (ndPit trio_c) = {}"
    by (simp_all add: trio_a_def trio_b_def trio_c_def trio_started_def trio_node_def trio_pending)
  moreover have "ndCacheManager trio_a = CacheManager_new 102400" "ndCacheManager trio_b = CacheManager_new 102400"
    "ndCacheManager trio_c = (CacheManager_new 102400)\<lparr>cmQueue := [\<lparr>ceData = trio_reply, ceSize = 3, ceExpire = 0\<rparr>], cmCount := 3\<rparr>"
    by (simp_all add: trio_a_def trio_b_def trio_c_def trio_started_def trio_node_def)
  ultimately show ?thesis using assms by (auto simp: unasked_def trio_nodes)
qed

lemma trio_routes:
  "routes_to trio_lib trio_interest trio_world ''A'' = {2}"
  "routes_to trio_lib trio_interest trio_world ''B'' = {3}"
  "routes_to trio_lib trio_interest trio_world ''C'' = {2}"
proof -
  have fibs: "ndFib trio_a = [([''wsn''], [2]), trio_rib]" "ndFib trio_b = [([''wsn''], [3]), trio_rib]"
    "ndFib trio_c = [trio_rib, ([''wsn'', ''thermometer''], [2])]" by (simp_all add: trio_node_defs)
  have name: "iName trio_interest = [''wsn'', ''thermometer'', ''read'']" by (simp add: trio_interest_def)
  show "routes_to trio_lib trio_interest trio_world ''A'' = {2}" "routes_to trio_lib trio_interest trio_world ''B'' = {3}"
    by (auto simp: routes_to_def trio_nodes routed_def mem_routes fibs name trio_rib_def trio_lib_def intro!: exI[of _ "[''wsn'']"])
  show "routes_to trio_lib trio_interest trio_world ''C'' = {2}"
    by (auto simp: routes_to_def trio_nodes routed_def mem_routes fibs name trio_rib_def trio_lib_def
        intro!: exI[of _ "[''wsn'', ''thermometer'']"])
qed

lemma trio_delay: "tx_delay 40 3 = Inr 585"
  by (simp add: tx_delay_def trunc_real_def)

lemma trio_carries:
  "device_of n d (wEm trio_world) = Some (trio_device n d l mac g f) \<Longrightarrow> carries trio_world n d 3 2825000"
  by (auto simp: carries_def trio_device_def trio_delay BACKOFF_PERIOD_def SYMBOL_TIME_def)

lemma trio_device_at:
  "device_of ''A'' ''d'' (wEm trio_world) = Some (trio_device ''A'' ''d'' ''l0'' 1 1 1)"
  "device_of ''B'' ''d'' (wEm trio_world) = Some (trio_device ''B'' ''d'' ''l0'' 2 2 1)"
  "device_of ''B'' ''e'' (wEm trio_world) = Some (trio_device ''B'' ''e'' ''l1'' 3 3 2)"
  "device_of ''C'' ''d'' (wEm trio_world) = Some (trio_device ''C'' ''d'' ''l1'' 4 4 1)"
  by (simp_all add: device_of_node trio_nodes trio_a_def trio_b_def trio_c_def trio_started_def trio_node_def trio_devices_def)

lemma trio_reaches:
  "reaches trio_world ''A'' ''d'' ''B'' ''d'' 2" "reaches trio_world ''B'' ''d'' ''A'' ''d'' 1"
  "reaches trio_world ''B'' ''e'' ''C'' ''d'' 4" "reaches trio_world ''C'' ''d'' ''B'' ''e'' 3"
  unfolding reaches_def trio_device_at
  by (simp_all add: trio_device_def trio_nodes trio_links_def trio_link_def row_def trio_device_at BROADCAST_MAC_def)

lemma trio_way: "way trio_lib trio_interest trio_data 2825000 trio_world ''A'' 2 [''B'', ''C''] 2"
proof -
  have len: "length (encodeInterest trio_lib trio_interest) = 3" "length (encodeData trio_lib trio_data) = 3"
    by (simp_all add: trio_codec)
  have faces: "link_face_at trio_world ''A'' 2 ''d'' 2" "link_face_at trio_world ''B'' 3 ''e'' 4"
    "\<not> link_face_at trio_world ''B'' 3 ''d'' 1" "\<not> link_face_at trio_world ''C'' 2 ''d'' 3"
    by (simp_all add: link_face_at_def trio_nodes trio_node_defs)
  have app: "app_at trio_world ''C'' 2" by (simp add: app_at_def trio_nodes trio_node_defs)
  have macs: "dvMac (trio_device n d l mac g f) = mac" for n d l mac g f by (simp add: trio_device_def)
  have last: "way trio_lib trio_interest trio_data 2825000 trio_world ''B'' 3 [''C''] 2"
    unfolding way.simps len
    by (rule exI[of _ "''e''"], rule exI[of _ "''d''"], rule exI[of _ 4], rule exI[of _ "trio_device ''B'' ''e'' ''l1'' 3 3 2"])
      (use faces app trio_reaches trio_unasked[of "''C''"] trio_routes trio_device_at trio_carries[OF trio_device_at(3)]
        trio_carries[OF trio_device_at(4)] in \<open>simp add: macs\<close>)
  show ?thesis
    unfolding way.simps(2)[of _ _ _ _ _ "''A''"] len
    by (rule exI[of _ "''d''"], rule exI[of _ "''d''"], rule exI[of _ 2], rule exI[of _ "trio_device ''A'' ''d'' ''l0'' 1 1 1"])
      (use faces last trio_reaches trio_unasked[of "''B''"] trio_routes trio_device_at trio_carries[OF trio_device_at(1)]
        trio_carries[OF trio_device_at(2)] in \<open>simp add: macs del: way.simps\<close>)
qed

lemma trio_room: "face_room 4 trio_world"
  by (auto simp: face_room_def trio_nodes trio_node_defs split: if_splits)

theorem network_round_trip_witness:
  "\<exists>as w'. each (perform trio_lib counting_rng) as trio_world = Inr w' \<and>
    by_apps as = [Receive ''A'' 3 [5, 1, 7], Receive ''C'' 2 [6, 1, 7]] \<and>
    wSent w' = [(''C'', 2, [6, 1, 9]), (''C'', 2, [5, 1, 7]), (''A'', 3, [6, 1, 7])] \<and> wNow w' \<le> 11301000"
proof -
  have app: "app_at trio_world ''A'' 3" by (simp add: app_at_def trio_nodes trio_node_defs)
  have routes: "routes_to trio_lib trio_interest trio_world ''A'' - {3} = {2}" by (simp add: trio_routes)
  have sent: "wSent trio_world = [(''C'', 2, [6, 1, 9])]" by (simp add: trio_world_def)
  have life: "iLifetime trio_interest = 2000000000" by (simp add: trio_interest_def)
  from network_round_trip[OF trio_rates trio_read trio_reachable trio_library trio_exchange trio_calm app _ routes trio_way,
      of 1000] trio_unasked[of "''A''"] trio_room
  show ?thesis by (auto simp: trio_codec sent trio_nodes(4) life)
qed

lemma trio_frame_views:
  "node_of trio_frame = [''A'' \<mapsto> trio_asking, ''B'' \<mapsto> trio_b, ''C'' \<mapsto> trio_c]" "link_of trio_frame = map_of trio_links"
  "timer_of trio_frame (CsmaTimer ''A'' ''d'') = Some (320000, RunDoCsma ''A'' ''d'' 0 3 False)"
  "timer_of trio_frame (RxTimer n d) = None" "timer_of trio_frame (CsmaTimer ''B'' d) = None"
  "wReady trio_frame = []" "wNow trio_frame = 320000"
  by (auto simp: node_of_def link_of_def timer_of_def trio_frame_def fun_eq_iff)

theorem frame_reaches_addressees_witness:
  "\<exists>as w' f. each (perform trio_lib counting_rng) as trio_frame = Inr w' \<and> by_apps as = [] \<and> wNow w' = 905000 \<and>
    wReady w' = [RunDispatch ''B'' f [5, 1, 7]] \<and> link_face_at w' ''B'' f ''d'' 1"
proof -
  let ?lk = "trio_link ''l0'' (''A'', ''d'') (''B'', ''d'')"
  have ready: "ready_to_send trio_frame ''A'' ''d'' 1 trio_asking trio_sender"
    by (simp add: ready_to_send_def trio_frame_views) (simp add: trio_asking_def trio_sender_def trio_device_def)
  have lk: "link_of trio_frame (lnkId (dvLink trio_sender)) = Some ?lk"
    by (simp add: trio_frame_views trio_links_def trio_sender_def trio_device_def)
  have rx: "listeners counting_rng ''A'' ?lk = [(''B'', ''d'')]"
    by (simp add: listeners_def hears_def trio_link_def row_def counting_rng_def)
  have quiet: "\<forall>(m, k) \<in> set (listeners counting_rng ''A'' ?lk). quiet trio_frame m k \<and> has_number trio_frame m"
    unfolding rx by (simp add: quiet_def has_number_def device_of_node trio_frame_views trio_node_defs)
  have len: "Packet_GetLength (wHeap trio_frame) 1 = 3" "Packet_GetBlock (wHeap trio_frame) 1 = [5, 1, 7]"
    "Packet_GetSrc (wHeap trio_frame) 1 = 1"
    by (simp_all add: Packet_GetLength_def Packet_GetBlock_def Packet_GetSrc_def trio_frame_def)
  have mine: "addressed trio_frame 1 (''B'', ''d'')"
    by (simp add: addressed_def device_of_node trio_frame_views trio_node_defs) (simp add: trio_frame_def Packet_GetDst_def)
  have delay: "tx_delay (lnkTxRate ?lk) (Packet_GetLength (wHeap trio_frame) 1) = Inr 585"
    unfolding len using trio_delay by (simp add: trio_link_def)
  have rate: "0 < lnkTxRate ?lk" by (simp add: trio_link_def)
  have for_b: "filter (addressed trio_frame 1) [(''B'', ''d'')] = [(''B'', ''d'')]" using mine by (simp only: filter.simps if_True)
  from frame_reaches_addressees[OF trio_rates trio_read trio_frame_reachable ready lk quiet rate delay, unfolded rx for_b len]
  show ?thesis unfolding trio_frame_views by (elim ex_forward) auto
qed

end
