(* ===== verification/Sensor.thy ===== *)
theory Sensor
  imports Client
begin

text \<open>
  The dummy sensor (\<^verbatim>\<open>apps/dummy-sensor.h\<close>, \<^verbatim>\<open>apps/dummy-sensor.cc\<close>,
  \<^verbatim>\<open>apps/sensor-info.h\<close>): it answers Interests for its reading, and in its push and notify
  modes sends Interests to a repository at regular times.
\<close>

section \<open>State\<close>

record sensor_info =
  siValue :: "32 word"
  siTimestamp :: "32 word"

text \<open>The bytes of the structure in memory, on a little-endian machine.\<close>

definition word_bytes :: "32 word \<Rightarrow> bytes" where
  "word_bytes w = [ucast w, ucast (drop_bit 8 w), ucast (drop_bit 16 w), ucast (drop_bit 24 w)]"

definition info_bytes :: "sensor_info \<Rightarrow> bytes" where
  "info_bytes info = word_bytes (siValue info) @ word_bytes (siTimestamp info)"

record sensor =
  seMode :: opt_mode
  sePath :: string
  seSequence :: int
  seReading :: "32 word"

definition Sensor_new :: "opt_mode \<Rightarrow> string \<Rightarrow> sensor" where
  "Sensor_new mode path = \<lparr>seMode = mode, sePath = path, seSequence = 0, seReading = 75\<rparr>"

datatype sensor_handler =
    SensorHandleInterest
  | SensorHandleRegisterFailed
  | SensorHandlePushAck
  | SensorHandlePushTimeout
  | SensorHandleNotifyAck
  | SensorHandleNotifyTimeout
  | SensorSchedulePush
  | SensorScheduleNotify
  | SensorScheduleNewReading

type_synonym 'n sensor_result = "('n, sensor_handler, sensor) client_result"

section \<open>Operations\<close>

text \<open>\<open>seconds\<close> is the result of \<open>time (NULL)\<close>, stored as 32 bits.\<close>

definition current_info :: "int \<Rightarrow> sensor \<Rightarrow> sensor_info" where
  "current_info seconds s = \<lparr>siValue = seReading s, siTimestamp = word_of_int seconds\<rparr>"

text \<open>
  The name of the answer: the sequence number is appended to a name of three components; a
  fourth component has to be the current sequence number (\<open>None\<close>: the Interest is discarded).
\<close>

definition answer_name :: "('n, 'c) client_lib \<Rightarrow> 'n \<Rightarrow> sensor \<Rightarrow> 'n option result" where
  "answer_name C n s =
     (if nmSize C n = 3 then Inr (Some (append_int C n (seSequence s)))
      else if nmSize C n = 4
      then and_then (and_then (component_at C n 3) (component_int C)) (\<lambda>seqNum.
             Inr (if seqNum \<noteq> seSequence s then None else Some n))
      else Inr (Some n))"

definition Sensor_HandleInterest ::
  "('n, 'c) client_lib \<Rightarrow> int \<Rightarrow> 'n \<Rightarrow> sensor \<Rightarrow> 'n sensor_result" where
  "Sensor_HandleInterest C seconds n s =
     and_then (answer_name C n s) (\<lambda>dataName.
       case dataName of
         None \<Rightarrow> Inr (s, [])
       | Some m \<Rightarrow>
           Inr (s, [PutData (make_data C m (milliseconds 5000) (info_bytes (current_info seconds s)))]))"

definition Sensor_HandleRegisterFailed :: "sensor \<Rightarrow> 'n sensor_result" where
  "Sensor_HandleRegisterFailed s = Inr (s, [ShutdownFace, StopIoService])"

definition push_name :: "('n, 'c) client_lib \<Rightarrow> int \<Rightarrow> sensor \<Rightarrow> 'n" where
  "push_name C seconds s =
     nmAppend C (append_int C (nmOfUri C ''/wsn/repo/push'') (seSequence s))
       (cmpOfBytes C (info_bytes (current_info seconds s)))"

definition Sensor_SchedulePush :: "('n, 'c) client_lib \<Rightarrow> int \<Rightarrow> sensor \<Rightarrow> 'n sensor_result" where
  "Sensor_SchedulePush C seconds s =
     Inr (s, [ExpressInterest (push_name C seconds s) (milliseconds 2000) True
                SensorHandlePushAck SensorHandlePushTimeout,
              ScheduleEvent (milliseconds 5000) SensorSchedulePush])"

definition notify_name :: "('n, 'c) client_lib \<Rightarrow> sensor \<Rightarrow> 'n" where
  "notify_name C s = append_int C (nmOfUri C ''/wsn/repo/notify'') (seSequence s)"

definition Sensor_ScheduleNotify :: "('n, 'c) client_lib \<Rightarrow> sensor \<Rightarrow> 'n sensor_result" where
  "Sensor_ScheduleNotify C s =
     Inr (s, [ExpressInterest (notify_name C s) (milliseconds 2000) True
                SensorHandleNotifyAck SensorHandleNotifyTimeout,
              ScheduleEvent (milliseconds 5000) SensorScheduleNotify])"

definition Sensor_ScheduleNewReading :: "sensor \<Rightarrow> 'n sensor_result" where
  "Sensor_ScheduleNewReading s =
     and_then (int_succ (seSequence s)) (\<lambda>k.
       Inr (s\<lparr>seSequence := k\<rparr>, [ScheduleEvent (milliseconds 5000) SensorScheduleNewReading]))"

text \<open>\<open>Start\<close>, until it enters \<open>io_service::run\<close>.\<close>

definition Sensor_Start :: "('n, 'c) client_lib \<Rightarrow> int \<Rightarrow> sensor \<Rightarrow> 'n sensor_result" where
  "Sensor_Start C seconds s =
     and_then (Sensor_ScheduleNewReading s) (\<lambda>(s1, r1).
       let r2 = r1 @ [SetInterestFilter (nmOfUri C ''/wsn/thermometer'') SensorHandleInterest
                        SensorHandleRegisterFailed] in
       if seMode s1 = PUSH
       then and_then (Sensor_SchedulePush C seconds s1) (\<lambda>(s2, r). Inr (s2, r2 @ r))
       else if seMode s1 = NOTIFY
       then and_then (Sensor_ScheduleNotify C s1) (\<lambda>(s2, r). Inr (s2, r2 @ r))
       else Inr (s1, r2))"

text \<open>\<open>main\<close>: an exit status, or the sensor started; an exception is reported and the status is 0.\<close>

definition Sensor_main ::
  "('n, 'c) client_lib \<Rightarrow> int \<Rightarrow> string list \<Rightarrow> int + 'n sensor_result" where
  "Sensor_main C seconds args =
     (case mode_arguments args of Inl n \<Rightarrow> Inl n
      | Inr (mode, path) \<Rightarrow> Inr (Sensor_Start C seconds (Sensor_new mode path)))"

text \<open>The handlers the scheduler and the face call, by name.\<close>

fun run_sensor :: "('n, 'c) client_lib \<Rightarrow> int \<Rightarrow> sensor_handler \<Rightarrow> sensor \<Rightarrow> 'n sensor_result" where
  "run_sensor C seconds SensorSchedulePush s = Sensor_SchedulePush C seconds s"
| "run_sensor C seconds SensorScheduleNotify s = Sensor_ScheduleNotify C s"
| "run_sensor C seconds SensorScheduleNewReading s = Sensor_ScheduleNewReading s"
| "run_sensor C seconds SensorHandleRegisterFailed s = Sensor_HandleRegisterFailed s"
| "run_sensor C seconds h s = Inr (s, [])"

section \<open>Answers\<close>

lemma answer_new:
  "nmSize C n = 3 \<Longrightarrow> Sensor_HandleInterest C seconds n s =
     Inr (s, [PutData (make_data C (append_int C n (seSequence s)) (milliseconds 5000)
       (info_bytes (current_info seconds s)))])"
  by (simp add: Sensor_HandleInterest_def answer_name_def)

lemma answer_current:
  assumes "nmSize C n = 4" and "and_then (component_at C n 3) (component_int C) = Inr k"
  shows "Sensor_HandleInterest C seconds n s =
    (if k = seSequence s
     then Inr (s, [PutData (make_data C n (milliseconds 5000) (info_bytes (current_info seconds s)))])
     else Inr (s, []))"
  using assms by (simp add: Sensor_HandleInterest_def answer_name_def)

lemma length_info_bytes [simp]: "length (info_bytes info) = 8"
  by (simp add: info_bytes_def word_bytes_def)

end
