(* ===== verification/Repo.thy ===== *)
theory Repo
  imports Sensor
begin

text \<open>
  The in-memory repository (\<^verbatim>\<open>apps/in-memory-repo.h\<close>, \<^verbatim>\<open>apps/in-memory-repo.cc\<close>): it
  collects sensor data by polling, by accepting push Interests or by following notifications,
  and answers the Interests of users from its store.
\<close>

section \<open>State\<close>

record 'n repo =
  rpMode :: opt_mode
  rpPath :: string
  rpStore :: "(int \<times> 'n data) list"
  rpSequence :: int

definition Repo_new :: "opt_mode \<Rightarrow> string \<Rightarrow> 'n repo" where
  "Repo_new mode path = \<lparr>rpMode = mode, rpPath = path, rpStore = [], rpSequence = - 1\<rparr>"

datatype repo_handler =
    RepoHandleData
  | RepoHandleTimeout
  | RepoHandlePushInterest
  | RepoHandleNotifyInterest
  | RepoHandleUserInterest
  | RepoHandleRegisterFailed
  | RepoPollData

type_synonym 'n repo_result = "('n, repo_handler, 'n repo) client_result"

section \<open>Operations\<close>

definition repo_data_name :: "('n, 'c) client_lib \<Rightarrow> 'c \<Rightarrow> 'n" where
  "repo_data_name C c = nmAppend C (nmOfUri C ''/wsn/data/temperature'') c"

text \<open>What both \<open>HandleData\<close> and \<open>HandlePushInterest\<close> do with new data.\<close>

definition store_data ::
  "('n, 'c) client_lib \<Rightarrow> 'c \<Rightarrow> int \<Rightarrow> bytes \<Rightarrow> 'n repo \<Rightarrow> 'n repo result" where
  "store_data C c seqNum content r =
     (let r1 = r\<lparr>rpStore := om_put seqNum (make_data C (repo_data_name C c) (milliseconds 5000) content) (rpStore r)\<rparr>
      in and_then (int_succ seqNum) (\<lambda>k. Inr (r1\<lparr>rpSequence := k\<rparr>)))"

definition Repo_HandleData :: "('n, 'c) client_lib \<Rightarrow> 'n data \<Rightarrow> 'n repo \<Rightarrow> 'n repo_result" where
  "Repo_HandleData C d r =
     (if nmSize C (dName d) \<noteq> 4 then Inl AssertionFailed
      else and_then (component_at C (dName d) 3) (\<lambda>c.
           and_then (component_int C c) (\<lambda>seqNum.
             if map_of (rpStore r) seqNum \<noteq> None then Inr (r, [])
             else and_then (store_data C c seqNum (dContent d) r) (\<lambda>r'. Inr (r', [])))))"

definition Repo_HandleTimeout :: "'n repo \<Rightarrow> 'n repo_result" where
  "Repo_HandleTimeout r = Inr (r\<lparr>rpSequence := - 1\<rparr>, [])"

definition Repo_HandlePushInterest :: "('n, 'c) client_lib \<Rightarrow> 'n \<Rightarrow> 'n repo \<Rightarrow> 'n repo_result" where
  "Repo_HandlePushInterest C n r =
     (if nmSize C n \<noteq> 5 then Inl AssertionFailed
      else and_then (component_at C n 3) (\<lambda>c.
           and_then (component_int C c) (\<lambda>seqNum.
             if map_of (rpStore r) seqNum \<noteq> None then Inr (r, [])
             else and_then (component_at C n 4) (\<lambda>info.
                  and_then (store_data C c seqNum (cmpWireEncode C info) r) (\<lambda>r'.
                    Inr (r', [PutData (make_data C (append_string C n ''ack'') (milliseconds 100)
                                (cmpWireEncode C info))]))))))"

definition read_interest :: "'n \<Rightarrow> ('n, repo_handler) client_req" where
  "read_interest n = ExpressInterest n (milliseconds 2000) True RepoHandleData RepoHandleTimeout"

definition Repo_HandleNotifyInterest :: "('n, 'c) client_lib \<Rightarrow> 'n \<Rightarrow> 'n repo \<Rightarrow> 'n repo_result" where
  "Repo_HandleNotifyInterest C n r =
     (if nmSize C n \<noteq> 4 then Inl AssertionFailed
      else and_then (component_at C n 3) (\<lambda>c.
             Inr (r, [read_interest (nmAppend C (nmOfUri C ''/wsn/thermometer/read'') c)])))"

text \<open>
  \<open>HandleUserInterest\<close> sends the data it finds without a check: through a null pointer when
  the data is not in the store, and from before the beginning when the store is empty.
\<close>

definition null_data :: error where
  "null_data = UndefinedBehaviour ''null data''"

definition empty_store :: error where
  "empty_store = UndefinedBehaviour ''last element of an empty store''"

definition Repo_HandleUserInterest :: "('n, 'c) client_lib \<Rightarrow> 'n \<Rightarrow> 'n repo \<Rightarrow> 'n repo_result" where
  "Repo_HandleUserInterest C n r =
     (if nmSize C n = 4
      then and_then (component_at C n 3) (\<lambda>c.
           and_then (component_int C c) (\<lambda>seqNum.
             case map_of (rpStore r) seqNum of
               None \<Rightarrow> Inl null_data
             | Some d \<Rightarrow> Inr (r, [PutData d])))
      else if rpStore r = [] then Inl empty_store
      else Inr (r, [PutData (snd (last (rpStore r)))]))"

definition Repo_HandleRegisterFailed :: "'n repo \<Rightarrow> 'n repo_result" where
  "Repo_HandleRegisterFailed r = Inr (r, [ShutdownFace, StopIoService])"

definition poll_name :: "('n, 'c) client_lib \<Rightarrow> 'n repo \<Rightarrow> 'n" where
  "poll_name C r =
     (let data_prefix = nmOfUri C ''/wsn/thermometer/read'' in
      if rpSequence r \<noteq> - 1 then append_int C data_prefix (rpSequence r) else data_prefix)"

definition Repo_PollData :: "('n, 'c) client_lib \<Rightarrow> 'n repo \<Rightarrow> 'n repo_result" where
  "Repo_PollData C r =
     Inr (r, [read_interest (poll_name C r), ScheduleEvent (milliseconds 5000) RepoPollData])"

definition Repo_Start :: "('n, 'c) client_lib \<Rightarrow> 'n repo \<Rightarrow> 'n repo_result" where
  "Repo_Start C r =
     (let filter_data = SetInterestFilter (nmOfUri C ''/wsn/data/temperature'') RepoHandleUserInterest
            RepoHandleRegisterFailed in
      case rpMode r of
        POLL \<Rightarrow> and_then (Repo_PollData C r) (\<lambda>(r', reqs). Inr (r', filter_data # reqs))
      | PUSH \<Rightarrow> Inr (r, [filter_data, SetInterestFilter (nmOfUri C ''/wsn/repo/push'')
                          RepoHandlePushInterest RepoHandleRegisterFailed])
      | NOTIFY \<Rightarrow> Inr (r, [filter_data, SetInterestFilter (nmOfUri C ''/wsn/repo/notify'')
                          RepoHandleNotifyInterest RepoHandleRegisterFailed]))"

definition Repo_main :: "('n, 'c) client_lib \<Rightarrow> string list \<Rightarrow> int + 'n repo_result" where
  "Repo_main C args =
     (case mode_arguments args of Inl n \<Rightarrow> Inl n
      | Inr (mode, path) \<Rightarrow> Inr (Repo_Start C (Repo_new mode path)))"

text \<open>The events of a repository, and the handler of each.\<close>

datatype 'n repo_event =
    DataArrives "'n data"
  | TimeoutExpires
  | PushArrives 'n
  | NotifyArrives 'n
  | UserAsks 'n
  | RegisterFails "string"
  | PollTimer

fun run_repo :: "('n, 'c) client_lib \<Rightarrow> 'n repo_event \<Rightarrow> 'n repo \<Rightarrow> 'n repo_result" where
  "run_repo C (DataArrives d) r = Repo_HandleData C d r"
| "run_repo C TimeoutExpires r = Repo_HandleTimeout r"
| "run_repo C (PushArrives n) r = Repo_HandlePushInterest C n r"
| "run_repo C (NotifyArrives n) r = Repo_HandleNotifyInterest C n r"
| "run_repo C (UserAsks n) r = Repo_HandleUserInterest C n r"
| "run_repo C (RegisterFails reason) r = Repo_HandleRegisterFailed r"
| "run_repo C PollTimer r = Repo_PollData C r"

text \<open>A sequence of events: the requests of all of them, or the first failure.\<close>

fun run_events :: "('n, 'c) client_lib \<Rightarrow> 'n repo_event list \<Rightarrow> 'n repo \<Rightarrow> 'n repo_result" where
  "run_events C [] r = Inr (r, [])"
| "run_events C (x # xs) r =
     and_then (run_repo C x r) (\<lambda>(r1, reqs).
       and_then (run_events C xs r1) (\<lambda>(r2, more_reqs). Inr (r2, reqs @ more_reqs)))"

section \<open>The store\<close>

text \<open>
  Every stored packet is filed under the number in its name, the last component after
  \<open>/wsn/data/temperature\<close>; numbers and the sequence number are 32-bit.
\<close>

definition stored_ok :: "('n, 'c) client_lib \<Rightarrow> int \<times> 'n data \<Rightarrow> bool" where
  "stored_ok C e \<longleftrightarrow> (\<exists>c. component_int C c = Inr (fst e) \<and> dName (snd e) = repo_data_name C c)"

definition repo_ok :: "('n, 'c) client_lib \<Rightarrow> 'n repo \<Rightarrow> bool" where
  "repo_ok C r \<longleftrightarrow> om_ok (rpStore r) \<and> (\<forall>e \<in> set (rpStore r). stored_ok C e) \<and>
     - (2 ^ 31) < rpSequence r \<and> rpSequence r < 2 ^ 31"

definition extends :: "'n repo \<Rightarrow> 'n repo \<Rightarrow> bool" where
  "extends r r' \<longleftrightarrow> (\<forall>k d. map_of (rpStore r) k = Some d \<longrightarrow> map_of (rpStore r') k = Some d)"

lemma extends_refl [simp]: "extends r r"
  by (simp add: extends_def)

lemma extends_trans: "extends a b \<Longrightarrow> extends b c \<Longrightarrow> extends a c"
  by (simp add: extends_def)

lemma repo_ok_new: "repo_ok C (Repo_new mode path)"
  by (simp add: repo_ok_def Repo_new_def)

lemma component_int_range:
  "client_laws C \<Longrightarrow> component_int C c = Inr k \<Longrightarrow> - (2 ^ 31) \<le> k \<and> k < 2 ^ 31"
  using client_lawsD(6)[of C] by (auto simp: component_int_def split: option.splits)

text \<open>New data is stored unless its number is the largest of all.\<close>

lemma store_data_cases:
  assumes "client_laws C" and "repo_ok C r" and "component_int C c = Inr k" and "map_of (rpStore r) k = None"
    and "store_data C c k bs r = Inr r'"
  shows "repo_ok C r' \<and> extends r r' \<and> rpSequence r' = k + 1 \<and> rpMode r' = rpMode r \<and>
    map_of (rpStore r') k = Some (make_data C (repo_data_name C c) (milliseconds 5000) bs)"
proof -
  let ?d = "make_data C (repo_data_name C c) (milliseconds 5000) bs"
  have k: "k < 2 ^ 31 - 1" and r': "r' = r\<lparr>rpStore := om_put k ?d (rpStore r), rpSequence := k + 1\<rparr>"
    using assms(5) by (auto simp: store_data_def int_succ_def split: if_splits)
  have "stored_ok C (k, ?d)"
    using assms(1,3) by (auto simp: stored_ok_def make_data_fields)
  then show ?thesis
    using assms(2,4) component_int_range[OF assms(1,3)] k
    by (auto simp: r' repo_ok_def extends_def kv_simps om.ok_put om.entries_put)
qed

lemma store_data_total:
  assumes "k < 2 ^ 31 - 1"
  shows "\<exists>r'. store_data C c k bs r = Inr r'"
  using assms by (simp add: store_data_def int_succ_def)

lemma run_repo_ok:
  assumes "client_laws C" and "repo_ok C r" and "run_repo C x r = Inr (r', reqs)"
  shows "repo_ok C r' \<and> extends r r'"
proof (cases x)
  case (DataArrives d)
  with assms(3) obtain c k where "component_int C c = Inr k"
    and "r' = r \<or> map_of (rpStore r) k = None \<and> store_data C c k (dContent d) r = Inr r'"
    by (auto simp: Repo_HandleData_def and_then_Inr_iff split: if_splits)
  with store_data_cases[OF assms(1,2)] assms(2) show ?thesis by auto
next
  case (PushArrives n)
  with assms(3) obtain c k bs where "component_int C c = Inr k"
    and "r' = r \<or> map_of (rpStore r) k = None \<and> store_data C c k bs r = Inr r'"
    by (auto simp: Repo_HandlePushInterest_def and_then_Inr_iff split: if_splits)
  with store_data_cases[OF assms(1,2)] assms(2) show ?thesis by auto
next
  case TimeoutExpires
  with assms show ?thesis by (auto simp: Repo_HandleTimeout_def repo_ok_def extends_def)
next
  case (UserAsks n)
  with assms show ?thesis
    by (auto simp: Repo_HandleUserInterest_def and_then_Inr_iff split: if_splits option.splits)
next
  case (NotifyArrives n)
  with assms show ?thesis by (auto simp: Repo_HandleNotifyInterest_def and_then_Inr_iff split: if_splits)
qed (use assms in \<open>auto simp: Repo_PollData_def Repo_HandleRegisterFailed_def\<close>)

text \<open>What becomes of a poll: the sensor's answer, and the repository that handles it.\<close>

lemma poll_reading:
  assumes "client_laws C" and "nmSize C (nmOfUri C ''/wsn/thermometer/read'') = 3" and "repo_ok C r"
    and "0 \<le> seSequence s" and "seSequence s < 2 ^ 31 - 1"
    and "map_of (rpStore r) (seSequence s) = None"
  shows "if rpSequence r = - 1 \<or> rpSequence r = seSequence s
    then \<exists>d r' stored. Sensor_HandleInterest C seconds (poll_name C r) s = Inr (s, [PutData d]) \<and>
      Repo_HandleData C d r = Inr (r', []) \<and> rpSequence r' = seSequence s + 1 \<and>
      map_of (rpStore r') (seSequence s) = Some stored \<and> dContent stored = info_bytes (current_info seconds s)
    else Sensor_HandleInterest C seconds (poll_name C r) s = Inr (s, [])"
proof -
  let ?pfx = "nmOfUri C ''/wsn/thermometer/read''" and ?k = "seSequence s"
  let ?bs = "info_bytes (current_info seconds s)"
  let ?n = "append_int C ?pfx ?k"
  note size = append_int_laws(1)[OF assms(1), of ?pfx]
  have k: "- (2 ^ 31) \<le> ?k" "?k < 2 ^ 31" using assms(4,5) by simp_all
  note read = append_int_laws(2)[OF assms(1) _ _ assms(2)]
  define c where "c = cmpOfString C (showInt C ?k)"
  have c: "component_at C ?n 3 = Inr c" "component_int C c = Inr ?k"
    using client_lawsD(2)[OF assms(1), of ?pfx c] client_lawsD(5)[OF assms(1) k] assms(2)
    by (simp_all add: component_at_def append_int_def append_string_def c_def component_int_def)
  let ?d = "make_data C ?n (milliseconds 5000) ?bs"
  have answer: "Sensor_HandleInterest C seconds (poll_name C r) s = Inr (s, [PutData ?d])"
    if "rpSequence r = - 1 \<or> rpSequence r = ?k"
  proof (cases "rpSequence r = - 1")
    case True
    then show ?thesis using assms(2) by (simp add: poll_name_def answer_new)
  next
    case False
    with that have "poll_name C r = ?n" by (simp add: poll_name_def)
    then show ?thesis using answer_current[of C ?n ?k seconds s] read[OF k] size assms(2) by simp
  qed
  have "\<exists>r'. store_data C c ?k ?bs r = Inr r'" by (rule store_data_total[OF assms(5)])
  then obtain r' where r': "store_data C c ?k ?bs r = Inr r'" ..
  note stored = store_data_cases[OF assms(1,3) c(2) assms(6) r']
  have "Repo_HandleData C ?d r = Inr (r', [])"
    using c assms(2,6) r' size by (simp add: Repo_HandleData_def make_data_fields[OF assms(1)])
  moreover have "dContent (make_data C (repo_data_name C c) (milliseconds 5000) ?bs) = ?bs"
    by (simp add: make_data_fields[OF assms(1)])
  moreover have "Sensor_HandleInterest C seconds (poll_name C r) s = Inr (s, [])"
    if "rpSequence r \<noteq> - 1" "rpSequence r \<noteq> ?k"
  proof -
    have "- (2 ^ 31) \<le> rpSequence r" "rpSequence r < 2 ^ 31" using assms(3) by (simp_all add: repo_ok_def)
    from read[OF this] that size assms(2) show ?thesis
      by (simp add: poll_name_def answer_current[of C _ "rpSequence r"])
  qed
  ultimately show ?thesis using answer stored by auto
qed

section \<open>Properties\<close>

text \<open>
  C31: The store of the repository only grows: whatever events a new repository sees, a reading
  that has been stored is never replaced or lost, and every stored packet is named
  \<open>/wsn/data/temperature\<close> followed by the number it is filed under.
\<close>

theorem store_only_grows:
  assumes "client_laws C" and "run_events C xs (Repo_new mode path) = Inr (r1, reqs1)"
    and "run_events C ys r1 = Inr (r2, reqs2)"
  shows "repo_ok C r2 \<and> extends r1 r2"
proof -
  have step: "repo_ok C r' \<and> extends r r'" if "repo_ok C r" "run_events C zs r = Inr (r', reqs)" for zs r r' reqs
    using that
  proof (induction zs arbitrary: r reqs)
    case (Cons z zs)
    then obtain r1 rq1 rq2 where "run_repo C z r = Inr (r1, rq1)" and "run_events C zs r1 = Inr (r', rq2)"
      by (auto simp: and_then_Inr_iff)
    with run_repo_ok[OF assms(1) Cons.prems(1)] Cons.IH extends_trans show ?case by blast
  qed simp
  show ?thesis using step[OF _ assms(3)] step[OF repo_ok_new assms(2)] by blast
qed

text \<open>
  C34: A user's Interest is answered from the store: with the packet of its fourth component's
  number, or, for a name of another length, with the packet of the largest number. The
  repository goes down with a null or a dangling pointer exactly when there is no such packet.
\<close>

theorem user_interest_outcomes:
  assumes "client_laws C" and "repo_ok C r"
  shows "Repo_HandleUserInterest C n r =
    (if nmSize C n = 4
     then (case and_then (component_at C n 3) (component_int C) of
             Inl e \<Rightarrow> Inl bad_lexical_cast
           | Inr k \<Rightarrow> (case map_of (rpStore r) k of None \<Rightarrow> Inl null_data | Some d \<Rightarrow> Inr (r, [PutData d])))
     else if rpStore r = [] then Inl empty_store
     else Inr (r, [PutData (the (map_of (rpStore r) (Max (fst ` set (rpStore r)))))]))"
proof (cases "nmSize C n = 4")
  case True
  then obtain c where "nmAt C n 3 = Some c" using client_lawsD(4)[OF assms(1), of n 3] by fastforce
  then have c: "component_at C n 3 = Inr c" by (simp add: component_at_def)
  show ?thesis
    using True c by (auto simp: Repo_HandleUserInterest_def component_int_def split: option.splits)
next
  case False
  show ?thesis
  proof (cases "rpStore r = []")
    case True
    with False show ?thesis by (simp add: Repo_HandleUserInterest_def)
  next
    case ne: False
    obtain k d where kd: "last (rpStore r) = (k, d)" by fastforce
    have om: "om_ok (rpStore r)" using assms(2) by (simp add: repo_ok_def)
    have mem: "(k, d) \<in> set (rpStore r)" using last_in_set[OF ne] kd by simp
    obtain ys where ys: "rpStore r = ys @ [(k, d)]" using ne kd by (metis append_butlast_last_id)
    have "x \<le> k" if "x \<in> fst ` set (rpStore r)" for x
      using that om unfolding ys by (auto simp: sorted_wrt_append)
    then have "Max (fst ` set (rpStore r)) = k"
      using mem by (intro Max_eqI) (auto intro: rev_image_eqI)
    moreover have "map_of (rpStore r) k = Some d" using om.lookup_iff[OF om] mem by blast
    ultimately show ?thesis using ne False kd by (simp add: Repo_HandleUserInterest_def)
  qed
qed

text \<open>
  C32: Polling follows the sensor: if the repository asks for the latest reading, or for the
  number the sensor is at, the sensor answers and the answer is stored under that number, with
  the current reading as its content, and the repository asks for the next number from then on.
  If it asks for any other number the sensor stays silent.
\<close>

theorem poll_stores_reading:
  assumes "client_laws C" and "nmSize C (nmOfUri C ''/wsn/thermometer/read'') = 3" and "repo_ok C r"
    and "0 \<le> seSequence s" and "seSequence s < 2 ^ 31 - 1"
    and "map_of (rpStore r) (seSequence s) = None"
  shows "if rpSequence r = - 1 \<or> rpSequence r = seSequence s
    then \<exists>d r' stored. Sensor_HandleInterest C seconds (poll_name C r) s = Inr (s, [PutData d]) \<and>
      Repo_HandleData C d r = Inr (r', []) \<and> rpSequence r' = seSequence s + 1 \<and>
      map_of (rpStore r') (seSequence s) = Some stored \<and> dContent stored = info_bytes (current_info seconds s)
    else Sensor_HandleInterest C seconds (poll_name C r) s = Inr (s, [])"
  by (rule poll_reading[OF assms])

text \<open>
  C33: A push Interest of the sensor is stored under its number and acknowledged with Data under
  its own name; the same push again, or any other push of that number, is neither stored nor
  acknowledged, so the sensor times out.
\<close>

theorem push_stored_once:
  assumes "client_laws C" and "nmSize C (nmOfUri C ''/wsn/repo/push'') = 3" and "repo_ok C r"
    and "0 \<le> seSequence s" and "seSequence s < 2 ^ 31 - 1"
    and "map_of (rpStore r) (seSequence s) = None"
  shows "\<exists>r' ack. Repo_HandlePushInterest C (push_name C seconds s) r = Inr (r', [PutData ack]) \<and>
    dName ack = append_string C (push_name C seconds s) ''ack'' \<and> map_of (rpStore r') (seSequence s) \<noteq> None \<and>
    Repo_HandlePushInterest C (push_name C later s) r' = Inr (r', [])"
proof -
  let ?pfx = "nmOfUri C ''/wsn/repo/push''" and ?k = "seSequence s"
  let ?m = "append_int C ?pfx ?k"
  have k: "- (2 ^ 31) \<le> ?k" "?k < 2 ^ 31" using assms(4,5) by simp_all
  have size: "nmSize C ?m = 4" using append_int_laws(1)[OF assms(1)] assms(2) by simp
  define c where "c = cmpOfString C (showInt C ?k)"
  have "nmAt C ?m 3 = Some c"
    using client_lawsD(2)[OF assms(1), of ?pfx c] assms(2) by (simp add: append_int_def append_string_def c_def)
  then have at3: "component_at C (push_name C t s) 3 = Inr c" for t
    using client_lawsD(3)[OF assms(1), of 3 ?m] size by (simp add: push_name_def component_at_def)
  have at4: "component_at C (push_name C t s) 4 = Inr (cmpOfBytes C (info_bytes (current_info t s)))" for t
    using client_lawsD(2)[OF assms(1), of ?m] size by (simp add: push_name_def component_at_def)
  have num: "component_int C c = Inr ?k"
    using client_lawsD(5)[OF assms(1) k] by (simp add: c_def component_int_def)
  have size5: "nmSize C (push_name C t s) = 5" for t
    using client_lawsD(1)[OF assms(1)] size by (simp add: push_name_def)
  let ?bs = "cmpWireEncode C (cmpOfBytes C (info_bytes (current_info seconds s)))"
  have "\<exists>r'. store_data C c ?k ?bs r = Inr r'" by (rule store_data_total[OF assms(5)])
  then obtain r' where r': "store_data C c ?k ?bs r = Inr r'" ..
  note stored = store_data_cases[OF assms(1,3) num assms(6) r']
  have "Repo_HandlePushInterest C (push_name C seconds s) r =
      Inr (r', [PutData (make_data C (append_string C (push_name C seconds s) ''ack'') (milliseconds 100) ?bs)])"
    using at3 at4 num size5 assms(6) r' by (simp add: Repo_HandlePushInterest_def)
  moreover have "Repo_HandlePushInterest C (push_name C later s) r' = Inr (r', [])"
    using at3 num size5 stored by (simp add: Repo_HandlePushInterest_def)
  ultimately show ?thesis using stored by (auto simp: make_data_fields[OF assms(1)])
qed

section \<open>Witnesses\<close>

definition sample_sensor :: sensor where
  "sample_sensor = (Sensor_new POLL ''/tmp/A'')\<lparr>seSequence := 7\<rparr>"

lemma list_client_sizes:
  "nmSize list_client (nmOfUri list_client ''/wsn/thermometer/read'') = 3"
  "nmSize list_client (nmOfUri list_client ''/wsn/repo/push'') = 3"
  by (simp_all add: list_client_def ndn.extend_def list_ndn_def)

lemma sample_repo: "repo_ok list_client (Repo_new POLL ''/tmp/B'' :: string list repo)"
  by (rule repo_ok_new)

theorem poll_stores_reading_witness:
  "\<exists>d r' stored. Sensor_HandleInterest list_client 1000 (poll_name list_client (Repo_new POLL ''/tmp/B'')) sample_sensor =
      Inr (sample_sensor, [PutData d]) \<and>
    Repo_HandleData list_client d (Repo_new POLL ''/tmp/B'') = Inr (r', []) \<and> rpSequence r' = 8 \<and>
    map_of (rpStore r') 7 = Some stored \<and> dContent stored = [75, 0, 0, 0, 232, 3, 0, 0]"
proof -
  have "info_bytes (current_info 1000 sample_sensor) = [75, 0, 0, 0, 232, 3, 0, 0]"
    by (simp add: info_bytes_def word_bytes_def current_info_def sample_sensor_def Sensor_new_def)
  moreover have "seSequence sample_sensor = 7" by (simp add: sample_sensor_def)
  moreover have "rpStore (Repo_new POLL ''/tmp/B'' :: string list repo) = []"
    and "rpSequence (Repo_new POLL ''/tmp/B'' :: string list repo) = - 1" by (simp_all add: Repo_new_def)
  ultimately show ?thesis
    using poll_stores_reading[OF list_client_laws list_client_sizes(1) sample_repo, of sample_sensor 1000] by simp
qed

theorem push_stored_once_witness:
  "\<exists>r' ack. Repo_HandlePushInterest list_client (push_name list_client 1000 sample_sensor) (Repo_new PUSH ''/tmp/B'') =
      Inr (r', [PutData ack]) \<and>
    Repo_HandlePushInterest list_client (push_name list_client 2000 sample_sensor) r' = Inr (r', [])"
  using push_stored_once[OF list_client_laws list_client_sizes(2) repo_ok_new[of list_client PUSH "''/tmp/B''"],
      of sample_sensor 1000 2000]
  by (auto simp: sample_sensor_def Sensor_new_def Repo_new_def)

theorem user_interest_outcomes_witness:
  "Repo_HandleUserInterest list_client [''wsn'', ''data'', ''temperature''] (Repo_new POLL ''/tmp/B'') = Inl empty_store"
  using user_interest_outcomes[OF list_client_laws sample_repo, of "[''wsn'', ''data'', ''temperature'']"]
  by (simp add: Repo_new_def list_client_def ndn.extend_def list_ndn_def)

theorem store_only_grows_witness:
  "\<exists>r1 reqs1 r2 reqs2. run_events list_client [PushArrives (push_name list_client 1000 sample_sensor)]
      (Repo_new PUSH ''/tmp/B'') = Inr (r1, reqs1) \<and>
    run_events list_client [TimeoutExpires, PollTimer] r1 = Inr (r2, reqs2) \<and> rpStore r1 \<noteq> [] \<and> extends r1 r2"
proof -
  have "case run_events list_client [PushArrives (push_name list_client 1000 sample_sensor)]
      (Repo_new PUSH ''/tmp/B'') of Inl e \<Rightarrow> False | Inr (r1, reqs1) \<Rightarrow> rpStore r1 \<noteq> []"
    by code_simp
  then obtain r1 reqs1 where one: "run_events list_client [PushArrives (push_name list_client 1000 sample_sensor)]
      (Repo_new PUSH ''/tmp/B'') = Inr (r1, reqs1)" "rpStore r1 \<noteq> []"
    by (auto split: sum.splits prod.splits)
  obtain r2 reqs2 where two: "run_events list_client [TimeoutExpires, PollTimer] r1 = Inr (r2, reqs2)"
    by (simp add: Repo_HandleTimeout_def Repo_PollData_def)
  from store_only_grows[OF list_client_laws one(1) two] one two show ?thesis by blast
qed

end
