(* ===== verification/Collect.thy ===== *)
theory Collect
  imports Journey Repo
begin

text \<open>
  The sensor application and the repository application on the emulated network: a poll of the
  repository travels to the node of the sensor, and the reading comes back and is stored.
\<close>

section \<open>Properties\<close>

text \<open>
  C15: A reading of the sensor reaches the repository over the network. When the repository asks
  for the latest reading or for the one the sensor is at, on a network in which nothing is on
  its way, the nodes can number the faces for the frames on the path, and every node of the path
  from the repository to the sensor routes the Interest to the next, there is a run in which the repository's application sends the Interest of
  \<open>PollData\<close> and the sensor's application the Data of \<open>HandleInterest\<close>, after which the emulator
  has sent this Data to the repository, whose \<open>HandleData\<close> stores the reading under its number.
\<close>

theorem poll_crosses_network:
  fixes C :: "('n, 'c) client_lib"
  assumes "client_laws C" and "nmSize C (nmOfUri C ''/wsn/thermometer/read'') = 3" and "repo_ok C rp"
    and "0 \<le> seSequence s" and "seSequence s < 2 ^ 31 - 1" and "map_of (rpStore rp) (seSequence s) = None"
    and "rpSequence rp = - 1 \<or> rpSequence rp = seSequence s"
    and "Sensor_HandleInterest C seconds (poll_name C rp) s = Inr (s, [PutData d])"
    and L: "L = ndn.truncate C"
    and i: "i = \<lparr>iName = poll_name C rp, iNonce = x, iLifetime = milliseconds 2000, iMustBeFresh = True, iWire = wire\<rparr>"
    and "rates_ok K config" and "Emulator_ReadNetworkConfig L K R seed config Emulator_new = Inr em"
    and "reachable L R em w" and "library L R" and "exchange L i d" and "calm w"
    and "app_at w a f" and "unasked L i d w a" and "routes_to L i w a - {f} = {fo}"
    and "way L i d H w a fo bs g" and "distinct (a # bs)"
    and "0 \<le> r" and "2 * int (length bs) * H + r < milliseconds 2000" and "face_room (2 * length bs) w"
  shows "\<exists>as w' rp' stored.
    ExpressInterest (iName i) (iLifetime i) (iMustBeFresh i) RepoHandleData RepoHandleTimeout \<in> set (snd (projr (Repo_PollData C rp))) \<and>
    each (perform L R) as w = Inr w' \<and>
    by_apps as = [Receive a f (encodeInterest L i), Receive (last (a # bs)) g (encodeData L d)] \<and>
    (a, f, encodeData L d) \<in> set (wSent w') \<and> decodeData L (encodeData L d) = Some d \<and>
    Repo_HandleData C d rp = Inr (rp', []) \<and> map_of (rpStore rp') (seSequence s) = Some stored \<and>
    dContent stored = info_bytes (current_info seconds s)"
proof -
  from poll_reading[OF assms(1-6), of seconds] assms(7,8)
  obtain rp' stored where store: "Repo_HandleData C d rp = Inr (rp', [])"
    "map_of (rpStore rp') (seSequence s) = Some stored" "dContent stored = info_bytes (current_info seconds s)"
    by (auto split: if_splits)
  have life: "2 * int (length bs) * H + r < iLifetime i" using assms(23) by (simp add: i)
  from round_trip[OF assms(11-22) life assms(24)]
  obtain as w' where "each (perform L R) as w = Inr w'"
    "by_apps as = [Receive a f (encodeInterest L i), Receive (last (a # bs)) g (encodeData L d)]"
    "wSent w' = wSent w @ [(last (a # bs), g, encodeInterest L i), (a, f, encodeData L d)]"
    by (elim exE conjE) (rule that)
  moreover have "decodeData L (encodeData L d) = Some d" using assms(15) by (simp add: exchange_def)
  moreover have "ExpressInterest (iName i) (iLifetime i) (iMustBeFresh i) RepoHandleData RepoHandleTimeout
      \<in> set (snd (projr (Repo_PollData C rp)))" by (simp add: Repo_PollData_def read_interest_def i)
  ultimately show ?thesis using store by (intro exI[of _ as] exI[of _ w'] exI[of _ rp'] exI[of _ stored]) simp
qed

section \<open>Witnesses\<close>

text \<open>The repository is at A and the sensor at C of the chain of three nodes.\<close>

definition trio_client :: "(string list, string) client_lib" where
  "trio_client = ndn.extend trio_lib
     \<lparr>showInt = show_decimal, readInt = read_decimal, cmpOfBytes = map (\<lambda>b. char_of (unat b)), cmpWireEncode = map of_char,
      appendVersion = (\<lambda>t n. n @ [''v'']), signData = (\<lambda>d. d)\<rparr>"

lemma trio_client_lib: "ndn.truncate trio_client = trio_lib"
  by (simp add: trio_client_def ndn.extend_def ndn.truncate_def)

lemma trio_client_laws: "client_laws trio_client"
  using list_client_laws by (simp add: client_laws_def trio_client_def list_client_def trio_lib_def ndn.extend_def list_ndn_def)

theorem poll_crosses_network_witness:
  "\<exists>as w' rp' stored. each (perform trio_lib counting_rng) as trio_world = Inr w' \<and>
    by_apps as = [Receive ''A'' 3 [5, 1, 7], Receive ''C'' 2 [6, 1, 7]] \<and> (''A'', 3, [6, 1, 7]) \<in> set (wSent w') \<and>
    Repo_HandleData trio_client trio_data (Repo_new POLL ''/tmp/A'') = Inr (rp', []) \<and>
    map_of (rpStore rp') 7 = Some stored \<and> dContent stored = [75, 0, 0, 0, 232, 3, 0, 0]"
proof -
  let ?rp = "Repo_new POLL ''/tmp/A'' :: string list repo"
  have size: "nmSize trio_client (nmOfUri trio_client ''/wsn/thermometer/read'') = 3"
    by (simp add: trio_client_def ndn.extend_def trio_lib_def list_ndn_def)
  have sensor: "0 \<le> seSequence sample_sensor" "seSequence sample_sensor < 2 ^ 31 - 1" "seSequence sample_sensor = 7"
    by (simp_all add: sample_sensor_def)
  have repo: "map_of (rpStore ?rp) (seSequence sample_sensor) = None" "rpSequence ?rp = - 1 \<or> rpSequence ?rp = seSequence sample_sensor"
    by (simp_all add: Repo_new_def)
  have answer: "Sensor_HandleInterest trio_client 1000 (poll_name trio_client ?rp) sample_sensor =
      Inr (sample_sensor, [PutData trio_data])" by code_simp
  have bytes: "info_bytes (current_info 1000 sample_sensor) = [75, 0, 0, 0, 232, 3, 0, 0]"
    by (simp add: info_bytes_def word_bytes_def current_info_def sample_sensor_def Sensor_new_def)
  have interest: "trio_interest = \<lparr>iName = poll_name trio_client ?rp, iNonce = 7, iLifetime = milliseconds 2000, iMustBeFresh = True, iWire = []\<rparr>"
    by code_simp
  have app: "app_at trio_world ''A'' 3" by (simp add: app_at_def trio_nodes trio_node_defs)
  have routes: "routes_to trio_lib trio_interest trio_world ''A'' - {3} = {2}" by (simp add: trio_routes)
  have unasked: "unasked trio_lib trio_interest trio_data trio_world ''A''" by (rule trio_unasked) simp
  have life: "2 * int (length [''B'', ''C'']) * 2825000 + 1000 < milliseconds 2000" by (simp add: milliseconds_def)
  from poll_crosses_network[OF trio_client_laws size repo_ok_new sensor(1,2) repo answer trio_client_lib[symmetric] interest
      trio_rates trio_read trio_reachable trio_library trio_exchange trio_calm app unasked routes trio_way _ _ life] trio_room
  show ?thesis unfolding trio_codec sensor(3) bytes by auto
qed

end
