(* ===== verification/Summary.thy ===== *)
theory Summary
  imports Emulator Logging Client
begin

text \<open>
  What the program prints about the network, and what its objects leave behind when they are
  destroyed: \<open>Pit::Print\<close>, \<open>Fib::Print\<close>, \<open>Link::PrintLinkMatrix\<close> and \<open>PrintInfo\<close>,
  \<open>Node::PrintInfo\<close>, \<open>Emulator::PrintNodes\<close> and \<open>PrintLinks\<close>, the destructors of nodes and of
  application faces, and \<open>AppFace::HandleSend\<close>. A text is a list of lines, each ended by
  \<open>std::endl\<close>. How ndn-cxx writes a name, and the formats of \<open>double\<close> and of time points, are
  parameters.
\<close>

record 'n formats =
  showName :: "'n \<Rightarrow> string"
  showDouble :: "real \<Rightarrow> string"
  showTime :: "time \<Rightarrow> string"

section \<open>Numbers\<close>

definition hex_digit :: "nat \<Rightarrow> char" where
  "hex_digit n = (if n < 10 then char_of (48 + n) else char_of (87 + n))"

function hex_digits :: "nat \<Rightarrow> string" where
  "hex_digits n = (if n < 16 then [hex_digit n] else hex_digits (n div 16) @ [hex_digit (n mod 16)])"
  by pat_completeness auto
termination
  by (relation "measure id") auto

declare hex_digits.simps [simp del]

text \<open>\<open>setfill ('0')\<close> and \<open>setw (4)\<close>.\<close>

definition fill4 :: "string \<Rightarrow> string" where
  "fill4 s = replicate (4 - length s) CHR ''0'' @ s"

definition show_mac :: "64 word \<Rightarrow> string" where
  "show_mac mac = ''0x'' @ fill4 (hex_digits (unat mac))"

section \<open>Tables\<close>

definition Pit_Print :: "'n formats \<Rightarrow> 'n pit \<Rightarrow> string list" where
  "Pit_Print S p =
     (if pTable p = [] then [''[Pit::Print] empty table'']
      else ''[Pit::Print]'' #
        concat (map (\<lambda>(name, e). (''  Name = '' @ showName S name) #
          map (\<lambda>(nonce, r). ''    Nonce = '' @ show_decimal (uint nonce) @ '', FaceId = '' @ show_decimal (frFaceId r) @
            '', Expire = '' @ showTime S (frExpire r)) (peNonceTable e)) (pTable p)))"

definition Fib_Print :: "'n formats \<Rightarrow> string \<Rightarrow> 'n fib \<Rightarrow> string list" where
  "Fib_Print S pad t =
     map (\<lambda>(name, faces). pad @ showName S name @ '' -> faces:'' @ concat (map (\<lambda>f. '' '' @ show_decimal f) faces)) t"

section \<open>Links\<close>

definition LinkAttribute_print :: "'n formats \<Rightarrow> link_attribute \<Rightarrow> string" where
  "LinkAttribute_print S a = ''LinkAttribute: LossRate = '' @ showDouble S (LinkAttribute_GetLossRate a)"

definition Link_PrintLinkMatrix :: "'n formats \<Rightarrow> string \<Rightarrow> link \<Rightarrow> string list" where
  "Link_PrintLinkMatrix S pad lk =
     concat (map (\<lambda>(frm, neighbors). map (\<lambda>(to, a). pad @ ''from '' @ frm @ '' to '' @ to @ '', LossRate = '' @
       showDouble S (LinkAttribute_GetLossRate a)) neighbors) (lnkMatrix lk))"

definition Link_PrintInfo :: "'n formats \<Rightarrow> link \<Rightarrow> string list" where
  "Link_PrintInfo S lk = [''Link id: '' @ lnkId lk, ''  LinkMatrix: ''] @ Link_PrintLinkMatrix S ''    '' lk"

section \<open>Nodes and the emulator\<close>

definition Node_PrintInfo :: "'n formats \<Rightarrow> 'n node \<Rightarrow> string list" where
  "Node_PrintInfo S nd =
     [''Node id: '' @ ndId nd, ''  Unix socket path: '' @ ndPath nd,
      ''  Cache limit: '' @ show_decimal (drop_bit 10 (CacheManager_GetLimit (ndCacheManager nd))) @ '' KB'',
      ''  Device table:''] @
     map (\<lambda>(d, dv). ''    id: '' @ d @ '', mac: '' @ show_mac (LinkDevice_GetMacAddr dv)) (ndDeviceTable nd) @
     [''  FIB:''] @ Fib_Print S ''    '' (ndFib nd)"

definition Emulator_PrintNodes :: "'n formats \<Rightarrow> 'n emulator \<Rightarrow> string list" where
  "Emulator_PrintNodes S em =
     ''[Emulator::PrintNodes] nodes summary:'' # concat (map (\<lambda>(n, nd). Node_PrintInfo S nd) (emNodeTable em))"

definition Emulator_PrintLinks :: "'n formats \<Rightarrow> 'n emulator \<Rightarrow> string list" where
  "Emulator_PrintLinks S em =
     ''[Emulator::PrintLinks] links summary:'' # concat (map (\<lambda>(l, lk). Link_PrintInfo S lk) (emLinkTable em))"

text \<open>
  What \<open>ReadNetworkConfig\<close> prints: the nodes when they and their routes have been read, before
  the matrices are looked at, and the links at the end, each only when it gets there.
\<close>

definition read_before_matrices ::
  "('n, 'c) ndn \<Rightarrow> conv \<Rightarrow> rng \<Rightarrow> (int \<Rightarrow> nat) \<Rightarrow> ptree \<Rightarrow> 'n emulator \<Rightarrow> 'n emulator result" where
  "read_before_matrices L C R seed config em =
     and_then (get_child ''Config'' config) (\<lambda>cfg.
     and_then (get_child ''Links'' cfg) (\<lambda>links.
     and_then (each (read_link C) (ptChildren links) em) (\<lambda>em1.
     and_then (get_child ''Nodes'' cfg) (\<lambda>nodes.
     and_then (read_nodes C R seed (ptChildren nodes) em1) (\<lambda>(em2, mac).
       each (read_routes L) (ptChildren nodes) em2)))))"

definition ReadNetworkConfig_text ::
  "'n formats \<Rightarrow> ('n, 'c) ndn \<Rightarrow> conv \<Rightarrow> rng \<Rightarrow> (int \<Rightarrow> nat) \<Rightarrow> ptree \<Rightarrow> 'n emulator \<Rightarrow> string list" where
  "ReadNetworkConfig_text S L C R seed config em =
     (case read_before_matrices L C R seed config em of
        Inl e \<Rightarrow> []
      | Inr em3 \<Rightarrow> Emulator_PrintNodes S em3 @
          (case Emulator_ReadNetworkConfig L C R seed config em of
             Inl e \<Rightarrow> []
           | Inr em' \<Rightarrow> Emulator_PrintLinks S em'))"

section \<open>The end of nodes and faces\<close>

text \<open>
  What the destructors ask of the operating system; errors are ignored. A node removes its socket
  file only when it has been started.
\<close>

datatype os_request =
    CloseAcceptor string
  | RemoveFile string
  | CloseSocket int

definition Node_destroy :: "'n node \<Rightarrow> os_request list" where
  "Node_destroy nd = (if ndIsListening nd then [CloseAcceptor (ndId nd), RemoveFile (ndPath nd)] else [])"

definition AppFace_destroy :: "app_face \<Rightarrow> os_request list" where
  "AppFace_destroy af = [CloseSocket (afId af)]"

text \<open>\<open>HandleSend\<close>: an error, here with its message, is logged and nothing else.\<close>

definition AppFace_HandleSend ::
  "log_level \<Rightarrow> string \<Rightarrow> string \<Rightarrow> app_face \<Rightarrow> string option \<Rightarrow> (out_stream \<times> string) option" where
  "AppFace_HandleSend level clock nodeId af err =
     (case err of
        None \<Rightarrow> None
      | Some msg \<Rightarrow> log_message level ERROR clock
          (''[AppFace::HandleSend] ('' @ nodeId @ '':'' @ show_decimal (afId af) @ '') error = '' @ msg))"

section \<open>The summary and the network\<close>

lemma and_then_assoc: "and_then (and_then m f) g = and_then m (\<lambda>x. and_then (f x) g)"
  by (cases m) simp_all

lemma ReadNetworkConfig_split:
  "Emulator_ReadNetworkConfig L C R seed config em =
     and_then (read_before_matrices L C R seed config em) (\<lambda>em3.
     and_then (get_child ''Config'' config) (\<lambda>cfg.
     and_then (get_child ''Matrices'' cfg) (\<lambda>matrices. each (read_matrix C R) (ptChildren matrices) em3)))"
  by (cases "get_child ''Config'' config")
    (simp_all add: Emulator_ReadNetworkConfig_def read_before_matrices_def case_prod_unfold and_then_assoc)

text \<open>Connections change links only.\<close>

lemma read_matrix_nodes:
  assumes "read_matrix C R v em = Inr em'"
  shows "emNodeTable em' = emNodeTable em"
proof -
  have one: "emNodeTable em2 = emNodeTable em1" if "read_connection C R l x em1 = Inr em2" for l x em1 em2
    using that by (auto simp: read_connection_def and_then_Inr_iff split: option.splits)
  from assms obtain linkId connections where "each (read_connection C R linkId) (ptChildren connections) em = Inr em'"
    by (auto simp: read_matrix_def and_then_Inr_iff split: option.splits)
  then show ?thesis
    by (rule each_invariant[where I = "\<lambda>e. emNodeTable e = emNodeTable em"]) (auto dest: one)
qed

text \<open>
  The lines of a summary that is complete: the nodes are printed before the matrices are read, but
  they are those of the emulator that is started.
\<close>

lemma summary_shows_network:
  assumes "Emulator_ReadNetworkConfig L C R seed config em0 = Inr em"
  shows "ReadNetworkConfig_text S L C R seed config em0 = Emulator_PrintNodes S em @ Emulator_PrintLinks S em"
proof -
  from assms obtain em3 matrices where em3: "read_before_matrices L C R seed config em0 = Inr em3"
    and run: "each (read_matrix C R) (ptChildren matrices) em3 = Inr em"
    by (auto simp: ReadNetworkConfig_split and_then_Inr_iff)
  have "emNodeTable em = emNodeTable em3"
    using run by (rule each_invariant[where I = "\<lambda>e. emNodeTable e = emNodeTable em3"]) (auto dest: read_matrix_nodes)
  then show ?thesis by (simp add: ReadNetworkConfig_text_def em3 assms Emulator_PrintNodes_def)
qed

lemma summary_connection:
  assumes "emulator_ok em" and "map_of (emLinkTable em) l = Some lk" and "map_of (row a lk) b = Some attr"
  shows "''    from '' @ a @ '' to '' @ b @ '', LossRate = '' @ showDouble S (laRate attr) \<in> set (Emulator_PrintLinks S em)"
proof -
  obtain r where r: "map_of (lnkMatrix lk) a = Some r" "map_of r b = Some attr"
    using assms(3) by (auto simp: row_def split: option.splits)
  have "''    from '' @ a @ '' to '' @ b @ '', LossRate = '' @ showDouble S (laRate attr) \<in> set (Link_PrintInfo S lk)"
    using map_of_SomeD[OF r(1)] map_of_SomeD[OF r(2)]
    by (force simp: Link_PrintInfo_def Link_PrintLinkMatrix_def LinkAttribute_GetLossRate_def)
  with map_of_SomeD[OF assms(2)] show ?thesis by (force simp: Emulator_PrintLinks_def)
qed

lemma started_node_removes_socket:
  "Node_Start L nd = Inr (nd', out) \<Longrightarrow> Node_destroy nd' = [CloseAcceptor (ndId nd), RemoveFile (ndPath nd)]"
  "Node_destroy (Node_new nid path limit) = []"
  by (auto simp: Node_destroy_def dest!: Start_fields(1)) (simp add: Node_destroy_def Node_new_def)

end
