(* ===== verification/Origin.thy ===== *)
theory Origin
  imports Chain
begin

text \<open>
  Where packets come from. The emulator copies packets from queue to queue and from node to
  node, answers Interests from its content stores, and its managers write packets of their own.
  For a run given as a schedule, \<open>writes\<close> are the blocks applications have written to their
  sockets, and \<open>genuine\<close> are the bytes the emulator may hand to an application: a block that some
  application wrote and that is an Interest or a Data packet, or the answer of a manager to an
  Interest that some application wrote. The invariant \<open>origins\<close> says that every place a
  packet can be in holds genuine ones: the packet store, the content stores, the queued
  \<open>Dispatch\<close> calls and the sockets; and that the receive buffer of an application face is what
  the blocks cut from its stream leave over.
\<close>

section \<open>What applications have written\<close>

fun stream :: "string \<Rightarrow> int \<Rightarrow> action list \<Rightarrow> bytes" where
  "stream n f [] = []"
| "stream n f (Receive m g bs # as) = (if m = n \<and> g = f then bs @ stream n f as else stream n f as)"
| "stream n f (a # as) = stream n f as"

fun sockets :: "action list \<Rightarrow> (string \<times> int) list" where
  "sockets [] = []"
| "sockets (Receive n f bs # as) = (n, f) # sockets as"
| "sockets (a # as) = sockets as"

definition writes :: "('n, 'c) ndn \<Rightarrow> action list \<Rightarrow> bytes list" where
  "writes L as = concat (map (\<lambda>x. fst (frames L (stream (fst x) (snd x) as))) (sockets as))"

lemma stream_append: "stream n f (as @ bs) = stream n f as @ stream n f bs"
  by (induction n f as rule: stream.induct) auto

lemma stream_sockets: "(n, f) \<notin> set (sockets as) \<Longrightarrow> stream n f as = []"
  by (induction n f as rule: stream.induct) auto

lemma writes_iff: "b \<in> set (writes L as) \<longleftrightarrow> (\<exists>n f. b \<in> set (fst (frames L (stream n f as))))"
proof
  assume "b \<in> set (writes L as)"
  then obtain x where "b \<in> set (fst (frames L (stream (fst x) (snd x) as)))" unfolding writes_def by auto
  then show "\<exists>n f. b \<in> set (fst (frames L (stream n f as)))" by (intro exI)
next
  assume "\<exists>n f. b \<in> set (fst (frames L (stream n f as)))"
  then obtain n f where b: "b \<in> set (fst (frames L (stream n f as)))" by (elim exE)
  have "(n, f) \<in> set (sockets as)"
  proof (rule ccontr)
    assume "(n, f) \<notin> set (sockets as)"
    from b stream_sockets[OF this] show False by simp
  qed
  with b show "b \<in> set (writes L as)" unfolding writes_def set_concat set_map
    by (intro UN_I[where a = "fst (frames L (stream n f as))"] image_eqI[where x = "(n, f)"]) simp_all
qed

lemma writes_mono:
  assumes "block_laws L"
  shows "set (writes L as) \<subseteq> set (writes L (as @ bs))"
proof
  fix b assume "b \<in> set (writes L as)"
  then obtain n f where "b \<in> set (fst (frames L (stream n f as)))" unfolding writes_iff by (elim exE)
  then have "b \<in> set (fst (frames L (stream n f (as @ bs))))"
    unfolding stream_append frames_append[OF assms, of "stream n f as"] by simp
  then show "b \<in> set (writes L (as @ bs))" unfolding writes_iff by (intro exI)
qed

section \<open>Genuine packets\<close>

text \<open>The packet \<open>Face::Dispatch\<close> finds in a block.\<close>

definition interest_in :: "('n, 'c) ndn \<Rightarrow> bytes \<Rightarrow> 'n interest option" where
  "interest_in L b = (if blkType L b = tlvInterest L then decodeInterest L b else None)"

definition data_in :: "('n, 'c) ndn \<Rightarrow> bytes \<Rightarrow> 'n data option" where
  "data_in L b = (if blkType L b \<noteq> tlvInterest L \<and> blkType L b = tlvData L then decodeData L b else None)"

text \<open>
  A decoded packet keeps the block it was decoded from, and its \<open>wireEncode\<close> returns that block;
  the answer of a manager is not an Interest.
\<close>

definition codec_laws :: "('n, 'c) ndn \<Rightarrow> bool" where
  "codec_laws L \<longleftrightarrow>
     (\<forall>b i. interest_in L b = Some i \<longrightarrow> encodeInterest L i = b) \<and> (\<forall>b d. data_in L b = Some d \<longrightarrow> encodeData L d = b) \<and>
     (\<forall>n r. interest_in L (encodeData L (makeResponse L n r)) = None)"

lemma interest_no_data: "interest_in L b = Some i \<Longrightarrow> data_in L b = None"
  by (simp add: interest_in_def data_in_def split: if_splits)

definition genuine :: "('n, 'c) ndn \<Rightarrow> bytes set \<Rightarrow> bytes \<Rightarrow> bool" where
  "genuine L W bs \<longleftrightarrow> bs \<in> W \<and> (interest_in L bs \<noteq> None \<or> data_in L bs \<noteq> None) \<or>
     (\<exists>b \<in> W. \<exists>i r. interest_in L b = Some i \<and> bs = encodeData L (makeResponse L (iName i) r))"

lemma genuine_mono: "genuine L W bs \<Longrightarrow> W \<subseteq> W' \<Longrightarrow> genuine L W' bs"
  unfolding genuine_def by blast

text \<open>
  \<open>handled L G b\<close>: whatever a node makes of the block \<open>b\<close> is in \<open>G\<close>. For the blocks that were
  written and for genuine ones that is so.
\<close>

definition handled :: "('n, 'c) ndn \<Rightarrow> (bytes \<Rightarrow> bool) \<Rightarrow> bytes \<Rightarrow> bool" where
  "handled L G b \<longleftrightarrow>
     (\<forall>i. interest_in L b = Some i \<longrightarrow>
        G (encodeInterest L i) \<and> (\<forall>r. G (encodeData L (makeResponse L (iName i) r)))) \<and>
     (\<forall>d. data_in L b = Some d \<longrightarrow> G (encodeData L d))"

lemma handled_written:
  assumes "codec_laws L" and "b \<in> W"
  shows "handled L (genuine L W) b"
  using assms unfolding handled_def genuine_def codec_laws_def by blast

lemma handled_genuine:
  assumes "codec_laws L" and "genuine L W b"
  shows "handled L (genuine L W) b"
proof (cases "b \<in> W")
  case True
  then show ?thesis by (rule handled_written[OF assms(1)])
next
  case False
  then have "interest_in L b = None" using assms unfolding codec_laws_def genuine_def by auto
  moreover have "genuine L W (encodeData L d)" if "data_in L b = Some d" for d
    using assms that unfolding codec_laws_def by metis
  ultimately show ?thesis by (simp add: handled_def)
qed

section \<open>A node\<close>

text \<open>
  What a packet handler passes on: the packets in the store, those in the content store and
  those handed to sockets are in \<open>G\<close>.
\<close>

definition all_packets :: "(bytes \<Rightarrow> bool) \<Rightarrow> heap \<Rightarrow> bool" where
  "all_packets G h \<longleftrightarrow> (\<forall>x < length h. G (Packet_GetBlock h x))"

definition all_stored :: "('n, 'c) ndn \<Rightarrow> (bytes \<Rightarrow> bool) \<Rightarrow> 'n node \<Rightarrow> bool" where
  "all_stored L G nd \<longleftrightarrow> (\<forall>e \<in> set (cmQueue (ndCacheManager nd)). G (encodeData L (ceData e)))"

definition all_sent :: "(bytes \<Rightarrow> bool) \<Rightarrow> node_out list \<Rightarrow> bool" where
  "all_sent G out \<longleftrightarrow> (\<forall>f bs. AppSend f bs \<in> set out \<longrightarrow> G bs)"

fun carries_only :: "('n, 'c) ndn \<Rightarrow> (bytes \<Rightarrow> bool) \<Rightarrow> 'n node_state \<Rightarrow> bool" where
  "carries_only L G (h, nd, out) \<longleftrightarrow> node_ok nd \<and> all_packets G h \<and> all_stored L G nd \<and> all_sent G out"

lemma all_sent_append [simp]: "all_sent G (xs @ ys) \<longleftrightarrow> all_sent G xs \<and> all_sent G ys"
  by (auto simp: all_sent_def)

lemma all_sent_sends:
  assumes "filter is_app_send io = app_sends nd fs bs" and "G bs"
  shows "all_sent G io"
proof -
  have "AppSend f b \<in> set io \<Longrightarrow> AppSend f b \<in> set (filter is_app_send io)" for f b by simp
  with assms(2) show ?thesis unfolding all_sent_def assms(1) app_sends_def by auto
qed

lemma all_stored_tables [simp]:
  "all_stored L G (nd\<lparr>ndPit := p\<rparr>) = all_stored L G nd" "all_stored L G (nd\<lparr>ndFib := fb\<rparr>) = all_stored L G nd"
  by (simp_all add: all_stored_def)

lemma forwarded_only:
  assumes "forwarded nd h nd' h'" and "all_packets G h" and "all_stored L G nd"
  shows "all_packets G h' \<and> all_stored L G nd'"
  using assms forwarded_face_table(4)[OF assms(1)] by (simp add: all_packets_def all_stored_def forwarded_def)

lemma new_packet_only:
  "DataPacket_new L d h = (pkt, h') \<Longrightarrow> all_packets G h \<Longrightarrow> G (encodeData L d) \<Longrightarrow> all_packets G h'"
  "InterestPacket_new L i h = (pkt, h') \<Longrightarrow> all_packets G h \<Longrightarrow> G (encodeInterest L i) \<Longrightarrow> all_packets G h'"
  by (auto simp: all_packets_def packet_defs nth_append less_Suc_eq)

lemma ForwardToFaces_only:
  assumes "carries_only L G (h, nd, out)" and "G (Packet_GetBlock h pkt)"
    and "Node_ForwardToFaces R pkt fs (h, nd, out) = Inr s"
  shows "carries_only L G s"
proof -
  obtain h' nd' io where "Node_ForwardToFaces R pkt fs (h, nd, out) = Inr (h', nd', out @ io)"
    "forwarded nd h nd' h'" "filter is_app_send io = app_sends nd fs (Packet_GetBlock h pkt)"
    using ForwardToFaces_spec[of nd] assms(1) by (metis carries_only.simps)
  with assms show ?thesis
    using forwarded_only[of nd h nd' h' G L] forwarded_face_table(8) all_sent_sends by fastforce
qed

lemma ForwardToFace_only:
  assumes "carries_only L G (h, nd, out)" and "G (Packet_GetBlock h pkt)"
    and "Node_ForwardToFace R pkt f (h, nd, out) = Inr s"
  shows "carries_only L G s"
  using ForwardToFaces_only[OF assms(1,2), of R "[f]"] assms(3) by (simp add: Node_ForwardToFaces_def)

lemma evict_loop_subset:
  "evict_loop limit sz q cnt = Inr (q', cnt') \<Longrightarrow> set q' \<subseteq> set q"
  by (induction limit sz q cnt rule: evict_loop.induct) (auto simp: Let_def split: if_splits)

lemma Insert_subset:
  assumes "CacheManager_Insert L now d c = Inr c'" and "e \<in> set (cmQueue c')"
  shows "e \<in> set (cmQueue c) \<or> ceData e = d"
  using assms
  by (auto simp: CacheManager_Insert_def and_then_Inr_iff Let_def CacheEntry_new_def split: if_splits
      dest!: evict_loop_subset)

lemma HandleData_only:
  assumes "carries_only L G s" and "G (encodeData L d)" and "Node_HandleData L R now f d s = Inr s'"
  shows "carries_only L G s'"
proof -
  obtain h nd out where s: "s = (h, nd, out)" by (cases s)
  obtain fs pit where c: "Pit_ConsumeInterestWithDataName L now (dName d) [] (ndPit nd) = (fs, pit)" by fastforce
  have ok1: "node_ok (nd\<lparr>ndPit := pit\<rparr>)"
    using pit_ok_Consume[of "ndPit nd" L now "dName d" "[]"] c assms(1) s by (auto intro!: node_ok_pit dest: node_okD(3))
  show ?thesis
  proof (cases "fs = []")
    case True
    with assms s c ok1 show ?thesis by (auto simp: Node_HandleData_def)
  next
    case False
    obtain pkt h1 where p: "DataPacket_new L d h = (pkt, h1)" by (cases "DataPacket_new L d h")
    with False assms(3) s c obtain cache where ins: "CacheManager_Insert L now d (ndCacheManager nd) = Inr cache"
      and fwd: "Node_ForwardToFaces R pkt fs (h1, nd\<lparr>ndPit := pit, ndCacheManager := cache\<rparr>, out) = Inr s'"
      by (auto simp: Node_HandleData_def and_then_Inr_iff)
    have "cache_ok cache" using cache_ok_Insert[of "ndCacheManager nd" L now d] ins assms(1) s
      by (auto dest: node_okD(5))
    then have "node_ok (nd\<lparr>ndPit := pit, ndCacheManager := cache\<rparr>)" by (rule node_ok_cache[OF ok1])
    moreover have "all_stored L G (nd\<lparr>ndPit := pit, ndCacheManager := cache\<rparr>)"
      using Insert_subset[OF ins] assms(1,2) s by (fastforce simp: all_stored_def)
    ultimately show ?thesis
      using assms(1,2) s new_packet_only(1)[OF p] new_packet(1)[OF p] by (intro ForwardToFaces_only[OF _ _ fwd]) auto
  qed
qed

lemma ProcessCommand_reply:
  "FibManager_ProcessCommand L fm f c fib = Inr (fib', Some d) \<Longrightarrow> \<exists>r. d = makeResponse L c r"
  by (auto simp: FibManager_ProcessCommand_def FibManager_SendResponse_def and_then_Inr_iff Let_def
      split: option.splits if_splits)

lemma ProcessCommand_only:
  assumes "carries_only L G s" and "\<forall>r. G (encodeData L (makeResponse L c r))"
    and "Node_ProcessCommand L R now f c s = Inr s'"
  shows "carries_only L G s'"
proof -
  obtain h nd out where s: "s = (h, nd, out)" by (cases s)
  from assms(3) obtain fm fib reply where fm: "ndFibManager nd = Some fm"
    and cmd: "FibManager_ProcessCommand L fm f c (ndFib nd) = Inr (fib, reply)"
    and res: "(case reply of None \<Rightarrow> Inr (h, nd\<lparr>ndFib := fib\<rparr>, out)
      | Some d \<Rightarrow> Node_HandleData L R now (fmId fm) d (h, nd\<lparr>ndFib := fib\<rparr>, out)) = Inr s'"
    by (auto simp: s Node_ProcessCommand_def and_then_Inr_iff Let_def split: option.splits)
  have ok: "node_ok nd" using assms(1) s by simp
  have "node_ok (nd\<lparr>ndFib := fib\<rparr>)"
    using fib_ok_ProcessCommand[OF node_okD(4)[OF ok] cmd] fm by (intro node_ok_fib[OF ok]) auto
  with assms(1) s have only: "carries_only L G (h, nd\<lparr>ndFib := fib\<rparr>, out)" by simp
  show ?thesis
  proof (cases reply)
    case None
    with res only show ?thesis by auto
  next
    case (Some d)
    then have "G (encodeData L d)" using ProcessCommand_reply[of L fm f c "ndFib nd" fib d] cmd assms(2) by auto
    then show ?thesis using Some res HandleData_only[OF only, of d R now "fmId fm" s'] by simp
  qed
qed

lemma HandleInterest_only:
  assumes "carries_only L G s" and "G (encodeInterest L i)"
    and "\<forall>r. G (encodeData L (makeResponse L (iName i) r))" and "Node_HandleInterest L R now f i s = Inr s'"
  shows "carries_only L G s'"
proof -
  obtain h nd out where s: "s = (h, nd, out)" by (cases s)
  let ?nd = "nd\<lparr>ndPit := snd (Pit_AddInterest now f i (ndPit nd))\<rparr>"
  have "node_ok nd" using assms(1) s by simp
  then have "node_ok ?nd" by (intro node_ok_pit pit_ok_AddInterest[OF node_okD(3)])
  with assms(1) s have only: "carries_only L G (h, ?nd, out)" by simp
  show ?thesis
  proof (cases rule: HandleInterest_cases[where L = L and R = R and now = now and f = f and i = i
        and h = h and nd = nd and out = out])
    case (hit d pkt h1)
    have "G (encodeData L d)"
      using find_loop_hit hit(1) assms(1) s by (fastforce simp: CacheManager_FindMatchingData_def all_stored_def)
    then show ?thesis
      using assms(1,4) s new_packet_only(1)[OF hit(2)] new_packet(1)[OF hit(2)] hit(3)
      by (intro ForwardToFace_only[of L G h1 nd out pkt R f s']) auto
  next
    case (silent pit)
    with assms(4) s only show ?thesis by auto
  next
    case (command pit)
    then show ?thesis
      using ProcessCommand_only[OF only, of "iName i" R now f s'] assms(3,4) s by simp
  next
    case (forward pit pkt h1)
    then show ?thesis
      using assms(2,4) s only new_packet_only(2)[OF forward(6)] new_packet(2)[OF forward(6)]
      by (intro ForwardToFaces_only[of L G h1 ?nd out pkt R "interest_faces L f i nd" s']) auto
  qed
qed

text \<open>A node hands on what it has been given, and nothing else.\<close>

lemma Dispatch_only:
  assumes "carries_only L G s" and "handled L G b" and "Face_Dispatch L R now f b s = Inr s'"
  shows "carries_only L G s'"
  using assms HandleInterest_only[OF assms(1), of _ R now f s'] HandleData_only[OF assms(1), of _ R now f s']
  by (auto simp: Face_Dispatch_def handled_def interest_in_def data_in_def split: if_splits option.splits)

text \<open>A read on the socket of an application face, with the blocks it completes.\<close>

lemma HandleReceive_only:
  assumes laws: "block_laws L" "0 < maxPacketSize L" and only: "carries_only L G (h, nd, [])"
    and af: "map_of (ndFaceTable nd) f = Some (AppFc af)"
    and blocks: "\<forall>b \<in> set (fst (frames L (afInput af @ rcv))). handled L G b"
    and run: "Node_HandleReceive L R now f False rcv (h, nd, []) = Some (Inr (h', nd', out))"
  shows "all_packets G h' \<and> all_stored L G nd' \<and> all_sent G out \<and> (\<forall>r \<in> set out. r = AppReceive f \<or> packet_request r) \<and>
    ndFaceTable nd' = om_put f (AppFc (af\<lparr>afInput := snd (frames L (afInput af @ rcv))\<rparr>)) (ndFaceTable nd)"
proof -
  let ?buf = "afInput af @ rcv"
  from run af obtain h1 nd1 io where
    each: "each (Face_Dispatch L R now f) (fst (frames L ?buf)) (h, nd, []) = Inr (h1, nd1, io)"
    and res: "h' = h1" "out = io @ [AppReceive f]"
      "nd' = nd1\<lparr>ndFaceTable := om_put f (AppFc (af\<lparr>afInput := snd (frames L ?buf)\<rparr>)) (ndFaceTable nd1)\<rparr>"
    by (auto simp: Node_HandleReceive_def HandleReceive_absorb[OF laws] absorb_def and_then_Inr_iff split_beta
        split: if_splits)
  have "carries_only L G (h1, nd1, io) \<and> ndFaceTable (fst (snd (h1, nd1, io))) = ndFaceTable nd"
  proof (rule each_invariant[OF each, where I = "\<lambda>s. carries_only L G s \<and> ndFaceTable (fst (snd s)) = ndFaceTable nd"])
    fix b and s s' :: "'a node_state"
    assume b: "b \<in> set (fst (frames L ?buf))" and I: "carries_only L G s \<and> ndFaceTable (fst (snd s)) = ndFaceTable nd"
      and step: "Face_Dispatch L R now f b s = Inr s'"
    obtain hs ns os ht nt ot where s: "s = (hs, ns, os)" "s' = (ht, nt, ot)" by (cases s, cases s')
    have "node_ok ns" using I s by simp
    from Dispatch_node_ok[OF this step[unfolded s]] I s have "ndFaceTable nt = ndFaceTable nd"
      by (simp add: same_node_def)
    with Dispatch_only[OF conjunct1[OF I] _ step] blocks b s
    show "carries_only L G s' \<and> ndFaceTable (fst (snd s')) = ndFaceTable nd" by simp
  qed (use only in simp)
  moreover have "r = AppReceive f \<or> packet_request r" if "r \<in> set out" for r
  proof -
    obtain jo tl where "out = jo @ tl" "tl = [] \<or> tl = [AppReceive f]" "dev_step nd h nd' h' jo"
      using HandleReceive_dev[OF run] by auto
    with that show ?thesis unfolding dev_step_def by auto
  qed
  ultimately show ?thesis using res by (auto simp: all_stored_def all_sent_def)
qed

section \<open>The whole emulator\<close>

fun task_only :: "(bytes \<Rightarrow> bool) \<Rightarrow> task \<Rightarrow> bool" where
  "task_only G (RunDispatch n f wire) \<longleftrightarrow> G wire"
| "task_only G t \<longleftrightarrow> True"

fun request_only :: "(bytes \<Rightarrow> bool) \<Rightarrow> node_out \<Rightarrow> bool" where
  "request_only G (AppSend f bs) \<longleftrightarrow> G bs"
| "request_only G (DevIO d (PostDispatch f wire)) \<longleftrightarrow> G wire"
| "request_only G r \<longleftrightarrow> True"

definition queues_only :: "(bytes \<Rightarrow> bool) \<Rightarrow> 'n world \<Rightarrow> bool" where
  "queues_only G w \<longleftrightarrow> (\<forall>t \<in> set (wReady w). task_only G t) \<and> (\<forall>x \<in> set (wTimers w). task_only G (snd (snd x))) \<and>
     (\<forall>x \<in> set (wSent w). G (snd (snd x)))"

text \<open>
  \<open>reads L st nd\<close>, for the streams \<open>st\<close> of the node's faces: the buffer of a face is what its
  stream leaves over, and nothing has come in on a face number that is not given out yet. Nor has
  it on one that waits for a connection.
\<close>

definition reads :: "('n, 'c) ndn \<Rightarrow> (int \<Rightarrow> bytes) \<Rightarrow> 'n node \<Rightarrow> bool" where
  "reads L st nd \<longleftrightarrow>
     (\<forall>f af. map_of (ndFaceTable nd) f = Some (AppFc af) \<longrightarrow> afInput af = snd (frames L (st f))) \<and>
     (\<forall>f. ndFaceCounter nd \<le> f \<longrightarrow> st f = [])"

definition origins :: "('n, 'c) ndn \<Rightarrow> (bytes \<Rightarrow> bool) \<Rightarrow> (string \<Rightarrow> int \<Rightarrow> bytes) \<Rightarrow> 'n world \<Rightarrow> bool" where
  "origins L G st w \<longleftrightarrow> all_packets G (wHeap w) \<and> queues_only G w \<and> (\<forall>x \<in> set (wAccepts w). st (fst x) (snd x) = []) \<and>
     (\<forall>n nd. map_of (emNodeTable (wEm w)) n = Some nd \<longrightarrow> all_stored L G nd \<and> reads L (st n) nd)"

lemma task_only_cancelled [simp]: "task_only G (cancelled t) = task_only G t"
  by (cases t) auto

lemma set_um_put: "set (um_put k v t) \<subseteq> insert (k, v) (set t)"
  by (induction t) (auto split: if_splits)

lemma queues_only_arm:
  assumes "queues_only G w" and "task_only G t"
  shows "queues_only G (arm tm dl t w)"
proof -
  have "task_only G old" if "map_of (wTimers w) tm = Some (e, old)" for e old
  proof -
    have "task_only G (snd (snd (tm, e, old)))"
      using assms(1) map_of_SomeD[OF that] unfolding queues_only_def by blast
    then show ?thesis by simp
  qed
  moreover have "task_only G (snd (snd x))" if "x \<in> set (um_put tm (wNow w + dl, t) (wTimers w))" for x
    using subsetD[OF set_um_put that] assms by (auto simp: queues_only_def)
  ultimately show ?thesis
    using assms(1) by (cases "map_of (wTimers w) tm") (auto simp: queues_only_def arm_def)
qed

lemma queues_only_post: "queues_only G w \<Longrightarrow> task_only G t \<Longrightarrow> queues_only G (post t w)"
  by (auto simp: queues_only_def post_def)

lemma queues_only_request:
  assumes "queues_only G w" and "request_only G r"
  shows "queues_only G (node_request n r w)"
proof (cases r)
  case (DevIO d x)
  with assms show ?thesis by (cases x) (simp_all add: queues_only_arm queues_only_post)
next
  case (ArmPitCleanUp t)
  with assms show ?thesis by (simp add: queues_only_arm)
qed (use assms in \<open>auto simp: queues_only_def\<close>)

lemma queues_only_requests:
  "queues_only G w \<Longrightarrow> \<forall>r \<in> set out. request_only G r \<Longrightarrow> queues_only G (fold (node_request n) out w)"
  by (induction out arbitrary: w) (simp_all add: queues_only_request)

text \<open>
  A handler of the node \<open>n\<close>. The streams of the other nodes stay, and what was in \<open>G\<close> is in
  \<open>G'\<close>.
\<close>

lemma origins_mono:
  assumes "origins L G st w" and "\<And>bs. G bs \<Longrightarrow> G' bs"
  shows "origins L G' st w"
proof -
  have "task_only G' t" if "task_only G t" for t using that assms(2) by (cases t) auto
  with assms show ?thesis
    by (auto simp: origins_def all_packets_def queues_only_def all_stored_def)
qed

lemma on_node_origins:
  assumes old: "origins L G st w" and nd: "map_of (emNodeTable (wEm w)) n = Some nd"
    and run: "on_node n handler w = Inr w'" and res: "handler (wHeap w) nd = Inr (h', nd', out)"
    and st: "\<And>m. m \<noteq> n \<Longrightarrow> st' m = st m" and "all_packets G h'" and "all_stored L G nd'"
    and "reads L (st' n) nd'" and "\<forall>r \<in> set out. request_only G r"
    and waits: "\<And>f. (n, f) \<in> set (wAccepts w) \<Longrightarrow> st' n f = []" "\<And>r f. r \<in> set out \<Longrightarrow> f \<in> set (accept_of r) \<Longrightarrow> st' n f = []"
  shows "origins L G st' w'"
proof -
  let ?w = "w\<lparr>wEm := (wEm w)\<lparr>emNodeTable := om_put n nd' (emNodeTable (wEm w))\<rparr>, wHeap := h'\<rparr>"
  have w': "w' = fold (node_request n) out ?w" using run nd res by (simp add: on_node_def)
  have "queues_only G ?w" using old by (simp add: origins_def queues_only_def)
  then have "queues_only G w'" unfolding w' using assms(9) by (rule queues_only_requests)
  moreover have "all_stored L G ndm \<and> reads L (st' m) ndm" if "map_of (emNodeTable (wEm w')) m = Some ndm" for m ndm
    using that assms(7,8) st old by (cases "m = n") (auto simp: w' requests_fields kv_simps origins_def)
  moreover have "st' m f = []" if "(m, f) \<in> set (wAccepts w')" for m f
    using that waits st old by (cases "m = n") (fastforce simp: w' requests_fields origins_def)+
  ultimately show ?thesis using assms(6) by (simp add: origins_def w' requests_fields)
qed

lemma origins_updates [simp]:
  "origins L G st (w\<lparr>wEm := (wEm w)\<lparr>emLinkTable := ls\<rparr>\<rparr>) = origins L G st w"
  "origins L G st (w\<lparr>wReceives := x\<rparr>) = origins L G st w" "origins L G st (w\<lparr>wNow := now\<rparr>) = origins L G st w"
  by (simp_all add: origins_def queues_only_def)

lemma origins_accepted: "origins L G st w \<Longrightarrow> origins L G st (w\<lparr>wAccepts := remove1 x (wAccepts w)\<rparr>)"
  using set_remove1_subset[of x "wAccepts w"] by (auto simp: origins_def queues_only_def)

lemma origins_pop: "origins L G st w \<Longrightarrow> wReady w = t # ts \<Longrightarrow> origins L G st (w\<lparr>wReady := ts\<rparr>) \<and> task_only G t"
  by (simp add: origins_def queues_only_def)

lemma reads_keep:
  "reads L st nd \<Longrightarrow> ndFaceTable nd' = ndFaceTable nd \<Longrightarrow> ndFaceCounter nd \<le> ndFaceCounter nd' \<Longrightarrow> reads L st nd'"
  by (simp add: reads_def)

lemma all_stored_same: "ndCacheManager nd' = ndCacheManager nd \<Longrightarrow> all_stored L G nd' = all_stored L G nd"
  by (simp add: all_stored_def)

text \<open>
  The device handlers that receive and send frames leave the tables and the faces of the node
  alone, and ask for timers and transmissions only.
\<close>

fun silent_request :: "node_out \<Rightarrow> bool" where
  "silent_request (AppSend f bs) = False"
| "silent_request (DevIO d (PostDispatch f wire)) = False"
| "silent_request r = True"

definition silently :: "'n node \<Rightarrow> 'n node \<Rightarrow> node_out list \<Rightarrow> bool" where
  "silently nd nd' out \<longleftrightarrow> ndCacheManager nd' = ndCacheManager nd \<and> ndPit nd' = ndPit nd \<and>
     ndFaceTable nd' = ndFaceTable nd \<and> ndFaceCounter nd' = ndFaceCounter nd \<and>
     (\<forall>r \<in> set out. silent_request r \<and> accept_of r = [])"

lemma silent_request_only: "silent_request r \<Longrightarrow> request_only G r"
  by (cases r rule: silent_request.cases) auto

lemma StartRx_silent: "Node_StartRx h p d nd = Inr (nd', out) \<Longrightarrow> silently nd nd' out"
  unfolding Node_StartRx_def
  by (rule on_device_cases)
    (auto simp: silently_def LinkDevice_StartRx_def and_then_Inr_iff split: phy_state.splits)

lemma DoCsma_silent:
  assumes "Node_DoCsma R h NB BE err d nd = Inr (nd', out)"
  shows "silently nd nd' out"
proof -
  have "\<forall>r \<in> set io. \<not> (\<exists>f wire. r = PostDispatch f wire)"
    if "LinkDevice_DoCsma R NB BE err h dv = Inr (dv', io)" for dv dv' io
    using that
    by (auto simp: LinkDevice_DoCsma_def csma_backoff_def next_in_queue_def LinkDevice_StartCsma_def Let_def
        and_then_Inr_iff split: if_splits list.splits phy_state.splits prod.splits)
  moreover have "silent_request (DevIO d r)" if "\<not> (\<exists>f wire. r = PostDispatch f wire)" for r
    using that by (cases r) auto
  ultimately show ?thesis
    using assms unfolding Node_DoCsma_def by (elim on_device_cases) (auto simp: silently_def and_then_Inr_iff)
qed

text \<open>Handlers that leave the packets, the content store and the faces alone.\<close>

lemma quiet_origins:
  assumes old: "origins L G st w" and run: "on_node n (\<lambda>h. keep_heap (f h) h) w = Inr w'"
    and quiet: "\<And>nd nd' out. map_of (emNodeTable (wEm w)) n = Some nd \<Longrightarrow> f (wHeap w) nd = Inr (nd', out) \<Longrightarrow>
      ndCacheManager nd' = ndCacheManager nd \<and> ndFaceTable nd' = ndFaceTable nd \<and> ndFaceCounter nd \<le> ndFaceCounter nd' \<and>
      (\<forall>r \<in> set out. request_only G r \<and> (\<forall>f \<in> set (accept_of r). ndFaceCounter nd \<le> f))"
  shows "origins L G st w'"
proof -
  from run obtain nd h' nd' out where nd: "map_of (emNodeTable (wEm w)) n = Some nd"
    and res: "keep_heap (f (wHeap w)) (wHeap w) nd = Inr (h', nd', out)" by (rule on_node_cases)
  have f: "h' = wHeap w \<and> f (wHeap w) nd = Inr (nd', out)" by (rule keep_heap_cases[OF res])
  note q = quiet[OF nd conjunct2[OF f]]
  have here: "all_packets G (wHeap w)" "all_stored L G nd" "reads L (st n) nd" "\<forall>x \<in> set (wAccepts w). st (fst x) (snd x) = []"
    using old nd by (auto simp: origins_def)
  show ?thesis
  proof (rule on_node_origins[OF old nd run res])
    show "st n g = []" if "r \<in> set out" "g \<in> set (accept_of r)" for r g
      using that q here(3) by (auto simp: reads_def)
    show "reads L (st n) nd'" by (rule reads_keep[OF here(3)]) (use q in simp_all)
  qed (use q f here in \<open>auto simp: all_stored_same[of nd' nd]\<close>)
qed

lemma StartRx_origins:
  assumes "origins L G st w" and "on_node n (\<lambda>h. keep_heap (Node_StartRx h p d) h) w = Inr w'"
  shows "origins L G st w'"
  by (rule quiet_origins[OF assms]) (auto simp: silently_def silent_request_only dest: StartRx_silent)

lemma Transmit_origins:
  assumes "origins L G st w" and "World_Transmit R l n p w = Inr w'"
  shows "origins L G st w'"
  by (rule Transmit_invariant[OF assms(2), where I = "origins L G st"])
    (use assms(1) in \<open>auto intro: StartRx_origins\<close>)

lemma DoCsma_origins:
  assumes "origins L G st w" and "on_node n (\<lambda>h. keep_heap (Node_DoCsma R h NB BE err d) h) w = Inr w'"
  shows "origins L G st w'"
  by (rule quiet_origins[OF assms]) (auto simp: silently_def silent_request_only dest: DoCsma_silent)

lemma PitCleanUp_origins:
  assumes "origins L G st w" and "on_node n (\<lambda>h. keep_heap (\<lambda>nd. Inr (Node_PitCleanUp err now nd)) h) w = Inr w'"
  shows "origins L G st w'"
  by (rule quiet_origins[OF assms])
    (auto simp: Node_PitCleanUp_def Let_def split: prod.splits option.splits)

text \<open>\<open>PostRx\<close> hands on the packet that was received, and may add a link face.\<close>

lemma reads_put_face:
  assumes "reads L st nd" and "ndFaceTable nd' = om_put g face (ndFaceTable nd)"
    and "ndFaceCounter nd \<le> ndFaceCounter nd'" and "\<And>af. face = AppFc af \<Longrightarrow> afInput af = [] \<and> st g = []"
  shows "reads L st nd'"
proof -
  have "afInput af = snd (frames L (st f))" if "map_of (ndFaceTable nd') f = Some (AppFc af)" for f af
    using that assms by (cases "f = g") (auto simp: reads_def kv_simps)
  then show ?thesis using assms(1,3) by (auto simp: reads_def)
qed

lemma PostRx_packet:
  assumes "LinkDevice_PostRx Node_AddLinkFace err h dv nd = Inr (dv', nd', io)" and "PostDispatch f wire \<in> set io"
  shows "\<exists>p. dvPendingRx dv = Some p \<and> wire = Packet_GetBlock h p"
  using assms
  by (auto simp: LinkDevice_PostRx_def receive_frame_def Let_def and_then_Inr_iff
      split: if_splits phy_state.splits option.splits prod.splits)

lemma PostRx_origins:
  assumes old: "origins L G st w" and ok: "world_ok w"
    and run: "on_node n (\<lambda>h. keep_heap (Node_PostRx h err d) h) w = Inr w'"
  shows "origins L G st w'"
proof -
  from run obtain nd h' nd' out where nd: "map_of (emNodeTable (wEm w)) n = Some nd"
    and res: "keep_heap (Node_PostRx (wHeap w) err d) (wHeap w) nd = Inr (h', nd', out)" by (rule on_node_cases)
  have rx: "h' = wHeap w \<and> Node_PostRx (wHeap w) err d nd = Inr (nd', out)" by (rule keep_heap_cases[OF res])
  have ndok: "node_ok nd" using world_okD(3)[OF ok nd] by simp
  have here: "all_packets G (wHeap w)" "all_stored L G nd" "reads L (st n) nd" "\<forall>x \<in> set (wAccepts w). st (fst x) (snd x) = []"
    using old nd by (auto simp: origins_def)
  from conjunct2[OF rx, unfolded Node_PostRx_def] show ?thesis
  proof (cases rule: on_device_cases)
    case (1 dv dv' nd1 io)
    have live: "device_live dv (length (wHeap w)) (ready_count (CsmaTimer n d) w) (waiting (CsmaTimer n d) w)"
      by (rule world_device_live[OF ok]) (use nd 1(1) in \<open>simp add: device_of_def\<close>)
    have nd1: "reads L (st n) nd1 \<and> all_stored L G nd1"
      using node.PostRx_node[OF 1(2)]
    proof (elim disjE exE)
      fix m f assume "Node_AddLinkFace m (dvId dv) nd = Inr (f, nd1)"
      from AddLinkFace_fields(2)[OF this] show ?thesis
        using reads_put_face[OF here(3), of nd1 "ndFaceCounter nd"] here(2)
        by (auto simp: all_stored_def)
    qed (simp add: here)
    have "request_only G (DevIO d r)" if "r \<in> set io" for r
    proof (cases r)
      case (PostDispatch f wire)
      with PostRx_packet[OF 1(2)] that obtain p where "dvPendingRx dv = Some p" "wire = Packet_GetBlock (wHeap w) p"
        by blast
      with live here(1) PostDispatch show ?thesis by (simp add: device_live_def all_packets_def)
    qed simp_all
    then show ?thesis
      using 1(3,4) rx here nd1 reads_keep[of L "st n" nd1 nd'] all_stored_same[of nd' nd1 L G]
      by (intro on_node_origins[OF old nd run res]) auto
  qed
qed

text \<open>The handlers of packets.\<close>

lemma packet_request_only: "packet_request r \<Longrightarrow> all_sent G out \<Longrightarrow> r \<in> set out \<Longrightarrow> request_only G r"
  by (cases r rule: packet_request.cases) (auto simp: all_sent_def)

lemma packet_accepts: "packet_request r \<Longrightarrow> accept_of r = []"
  by (cases r rule: packet_request.cases) auto

lemma Dispatch_origins:
  assumes old: "origins L G st w" and ok: "world_ok w" and "handled L G b"
    and run: "on_node n (\<lambda>h nd. Face_Dispatch L R now f b (h, nd, [])) w = Inr w'"
  shows "origins L G st w'"
proof -
  from run obtain nd h' nd' out where nd: "map_of (emNodeTable (wEm w)) n = Some nd"
    and res: "Face_Dispatch L R now f b (wHeap w, nd, []) = Inr (h', nd', out)" by (rule on_node_cases)
  have ndok: "node_ok nd" using world_okD(3)[OF ok nd] by simp
  have here: "all_packets G (wHeap w)" "all_stored L G nd" "reads L (st n) nd" "\<forall>x \<in> set (wAccepts w). st (fst x) (snd x) = []"
    using old nd by (auto simp: origins_def)
  have "carries_only L G (h', nd', out)"
    by (rule Dispatch_only[OF _ assms(3) res]) (use here ndok in \<open>simp add: all_sent_def\<close>)
  moreover have "reads L (st n) nd'"
    by (rule reads_keep[OF here(3)]) (use Dispatch_node_ok[OF ndok res] in \<open>simp_all add: same_node_def\<close>)
  moreover have "packet_request r" if "r \<in> set out" for r
    using Dispatch_dev[OF res] that by (auto simp: dev_step_def)
  ultimately show ?thesis
    using here packet_request_only packet_accepts
    by (intro on_node_origins[OF old nd run res]) auto
qed

lemma accept_origins:
  assumes old: "origins L G st w" and ok: "world_ok w" and mem: "(n, f) \<in> set (wAccepts w)"
    and run: "run_accept n f err (w\<lparr>wAccepts := remove1 (n, f) (wAccepts w)\<rparr>) = Inr w'"
  shows "origins L G st w'"
proof -
  let ?w = "w\<lparr>wAccepts := remove1 (n, f) (wAccepts w)\<rparr>"
  have old': "origins L G st ?w" by (rule origins_accepted[OF old])
  from run[unfolded run_accept_def] obtain nd h' nd' out where nd: "map_of (emNodeTable (wEm ?w)) n = Some nd"
    and res: "keep_heap (Node_HandleAccept f err) (wHeap ?w) nd = Inr (h', nd', out)"
    by (rule on_node_cases)
  have h: "h' = wHeap ?w" and accepted: "Node_HandleAccept f err nd = Inr (nd', out)"
    using keep_heap_cases[OF res] by simp_all
  have here: "all_packets G (wHeap ?w)" "all_stored L G nd" "reads L (st n) nd" "\<forall>x \<in> set (wAccepts w). st (fst x) (snd x) = []"
    using old nd by (auto simp: origins_def)
  have nd': "ndFaceTable nd' = om_put f (AppFc (AppFace_new f)) (ndFaceTable nd)"
    "ndFaceCounter nd' = ndFaceCounter nd + 1" "ndCacheManager nd' = ndCacheManager nd"
    and out: "out = [AsyncAccept (ndFaceCounter nd), AppReceive f]"
    using HandleAccept_fields[OF accepted] by simp_all
  have "reads L (st n) nd'"
    by (rule reads_put_face[OF here(3) nd'(1)]) (use here(4) mem nd'(2) in \<open>auto simp: AppFace_new_def\<close>)
  moreover have "st n (ndFaceCounter nd) = []" using here(3) by (simp add: reads_def)
  moreover have "st n g = []" if "(n, g) \<in> set (wAccepts ?w)" for g
    using old' that unfolding origins_def by fastforce
  ultimately show ?thesis
    using h here(1,2) out nd'(3)
    by (intro on_node_origins[OF old' nd run[unfolded run_accept_def] res]) (auto simp: all_stored_same[of nd' nd])
qed

lemma fire_origins:
  assumes "origins L G st w" and "map_of (wTimers w) tm = Some (e, t)"
  shows "origins L G st (w\<lparr>wTimers := kv_erase tm (wTimers w), wReady := wReady w @ [t]\<rparr>)"
proof -
  have "task_only G (snd (snd (tm, e, t)))"
    using assms(1) map_of_SomeD[OF assms(2)] unfolding origins_def queues_only_def by blast
  with assms(1) show ?thesis by (auto simp: origins_def queues_only_def kv_erase_def)
qed

text \<open>
  A read: the stream of the face grows by what was received, and the blocks it completes are
  written.
\<close>

lemma receive_origins:
  assumes laws: "block_laws L" "0 < maxPacketSize L" and old: "origins L G st w" and ok: "world_ok w"
    and mem: "(n, f) \<in> set (wReceives w)"
    and blocks: "\<forall>b \<in> set (fst (frames L (st n f @ rcv))). handled L G b"
    and st': "st' n f = st n f @ rcv" "\<And>m g. (m, g) \<noteq> (n, f) \<Longrightarrow> st' m g = st m g"
    and run: "run_receive L R n f False rcv (w\<lparr>wReceives := remove1 (n, f) (wReceives w)\<rparr>) = Inr w'"
  shows "origins L G st' w'"
proof -
  let ?w = "w\<lparr>wReceives := remove1 (n, f) (wReceives w)\<rparr>"
  have old': "origins L G st ?w" using old by simp
  from run[unfolded run_receive_def] obtain nd h' nd' out where nd: "map_of (emNodeTable (wEm ?w)) n = Some nd"
    and res: "(case Node_HandleReceive L R (wNow ?w) f False rcv (wHeap ?w, nd, []) of
      None \<Rightarrow> Inl (UndefinedBehaviour ''endless loop'') | Some r \<Rightarrow> r) = Inr (h', nd', out)"
    by (rule on_node_cases)
  then have hr: "Node_HandleReceive L R (wNow ?w) f False rcv (wHeap ?w, nd, []) = Some (Inr (h', nd', out))"
    by (auto split: option.splits)
  have ndok: "node_ok nd" using world_okD(3)[OF ok] nd by simp
  have here: "all_packets G (wHeap ?w)" "all_stored L G nd" "reads L (st n) nd" "\<forall>x \<in> set (wAccepts w). st (fst x) (snd x) = []"
    using old nd by (auto simp: origins_def)
  note faces = HandleReceive_faces[OF ndok hr]
  then obtain af where af: "map_of (ndFaceTable nd) f = Some (AppFc af)"
    by (auto simp: is_app_face_def split: option.splits face.splits)
  have rest: "afInput af = snd (frames L (st n f))" using here(3) af by (simp add: reads_def)
  have whole: "frames L (st n f @ rcv) =
      (fst (frames L (st n f)) @ fst (frames L (afInput af @ rcv)), snd (frames L (afInput af @ rcv)))"
    unfolding rest by (rule frames_append[OF laws(1)])
  have only: "carries_only L G (wHeap ?w, nd, [])" using here ndok by (simp add: all_sent_def)
  have "\<forall>b \<in> set (fst (frames L (afInput af @ rcv))). handled L G b" using blocks whole by simp
  note new = HandleReceive_only[OF laws only af this hr]
  have given: "f < ndFaceCounter nd" by (rule tables_ok_face(3)[OF node_okD(1)[OF ndok] af])
  have other: "st' n g = st n g" if "g \<noteq> f" for g using st'(2) that by simp
  have "reads L (st' n) nd'"
    unfolding reads_def
  proof (intro conjI allI impI)
    fix g ag assume "map_of (ndFaceTable nd') g = Some (AppFc ag)"
    then show "afInput ag = snd (frames L (st' n g))"
      using here(3) new st'(1) whole other by (cases "g = f") (auto simp: reads_def kv_simps)
  next
    fix g assume "ndFaceCounter nd' \<le> g"
    then have "ndFaceCounter nd \<le> g" using faces by (simp add: same_others_def)
    then show "st' n g = []" using here(3) given other[of g] by (simp add: reads_def)
  qed
  moreover have "request_only G r \<and> accept_of r = []" if "r \<in> set out" for r
    using new that by (auto intro: packet_request_only[where out = out] packet_accepts)
  moreover have "st' n g = []" if "(n, g) \<in> set (wAccepts w)" for g
  proof -
    have "g \<in> set (of_node n (wAccepts w))" using that by (simp add: set_of_node)
    then have "map_of (ndFaceTable nd) g = None"
      using world_okD(2)[OF ok, of n nd] nd by (simp add: live_at_def node_live_def)
    then show ?thesis using here(4) that af other[of g] by fastforce
  qed
  ultimately show ?thesis
    using new st'(2) by (intro on_node_origins[OF old' nd run[unfolded run_receive_def] res]) auto
qed

text \<open>An application closes its socket: the face is removed, with whatever its buffer holds.\<close>

lemma HandleReceive_error:
  assumes "Node_HandleReceive L R now f True rcv (h, nd, []) = Some (Inr (h', nd', out))"
  shows "h' = h \<and> out = [] \<and>
    nd' = nd\<lparr>ndFaceTable := kv_erase f (ndFaceTable nd), ndFib := FibManager_CleanUpFib f (ndFib nd)\<rparr>"
  using assms
  by (auto simp: Node_HandleReceive_def AppFace_HandleReceive_def remove_face_def Node_RemoveFace_def and_then_Inr_iff
      split: option.splits face.splits)

lemma close_origins:
  assumes old: "origins L G st w" and ok: "world_ok w"
    and run: "run_receive L R n f True [] (w\<lparr>wReceives := remove1 (n, f) (wReceives w)\<rparr>) = Inr w'"
  shows "origins L G st w'"
proof -
  let ?w = "w\<lparr>wReceives := remove1 (n, f) (wReceives w)\<rparr>"
  have old': "origins L G st ?w" using old by simp
  from run[unfolded run_receive_def] obtain nd h' nd' out where nd: "map_of (emNodeTable (wEm ?w)) n = Some nd"
    and res: "(case Node_HandleReceive L R (wNow ?w) f True [] (wHeap ?w, nd, []) of
      None \<Rightarrow> Inl (UndefinedBehaviour ''endless loop'') | Some r \<Rightarrow> r) = Inr (h', nd', out)"
    by (rule on_node_cases)
  then have hr: "Node_HandleReceive L R (wNow ?w) f True [] (wHeap ?w, nd, []) = Some (Inr (h', nd', out))"
    by (auto split: option.splits)
  note closed = HandleReceive_error[OF hr]
  have here: "all_packets G (wHeap ?w)" "all_stored L G nd" "reads L (st n) nd" "\<forall>x \<in> set (wAccepts w). st (fst x) (snd x) = []"
    using old nd by (auto simp: origins_def)
  then have "reads L (st n) nd'" using closed by (auto simp: reads_def om.lookup_erase split: if_splits)
  with closed here show ?thesis
    by (intro on_node_origins[OF old' nd run[unfolded run_receive_def] res]) (auto simp: all_stored_def)
qed

section \<open>Schedules\<close>

lemma run_task_origins:
  assumes laws: "codec_laws L" and ok: "world_ok w" and ready: "wReady w = t # ts"
    and old: "origins L (genuine L W) st (w\<lparr>wReady := ts\<rparr>)" and from_here: "task_only (genuine L W) t"
    and run: "run_task L R t (w\<lparr>wReady := ts\<rparr>) = Inr w'"
  shows "origins L (genuine L W) st w'"
proof -
  have ok1: "world_ok (w\<lparr>wReady := ts\<rparr>)" if "\<And>n d. completed t \<noteq> Some (CsmaTimer n d)"
    using pop_ok[OF ok ready] that by blast
  show ?thesis
  proof (cases t)
    case (RunPostRx n d err)
    with run ok1 show ?thesis by (auto intro: PostRx_origins[OF old])
  next
    case (RunDoCsma n d NB BE err)
    with run show ?thesis by (auto intro: DoCsma_origins[OF old])
  next
    case (RunPitCleanUp n err)
    with run show ?thesis by (auto intro: PitCleanUp_origins[OF old])
  next
    case (RunTransmit l n p)
    with run show ?thesis by (auto intro: Transmit_origins[OF old])
  next
    case (RunDispatch n f wire)
    with run ok1 from_here handled_genuine[OF laws, of W wire] show ?thesis
      by (auto intro: Dispatch_origins[OF old])
  qed
qed

lemma perform_origins:
  assumes laws: "block_laws L" "0 < maxPacketSize L" "codec_laws L" and ok: "world_ok w"
    and old: "origins L (genuine L (set (writes L as))) (\<lambda>n f. stream n f as) w"
    and run: "perform L R a w = Inr w'"
  shows "origins L (genuine L (set (writes L (as @ [a])))) (\<lambda>n f. stream n f (as @ [a])) w'"
proof -
  let ?G = "genuine L (set (writes L as))" and ?G' = "genuine L (set (writes L (as @ [a])))"
  have old': "origins L ?G' (\<lambda>n f. stream n f as) w"
    by (rule origins_mono[OF old genuine_mono]) (use writes_mono[OF laws(1)] in auto)
  show ?thesis
  proof (cases a)
    case (Receive n f bs)
    have "handled L ?G' b" if "b \<in> set (fst (frames L (stream n f as @ bs)))" for b
    proof (rule handled_written[OF laws(3)])
      have "b \<in> set (fst (frames L (stream n f (as @ [a]))))" using that Receive by (simp add: stream_append)
      then show "b \<in> set (writes L (as @ [a]))" unfolding writes_iff by (intro exI)
    qed
    then show ?thesis
      using run Receive
      by (intro receive_origins[OF laws(1,2) old' ok, of n f bs _ R])
        (auto simp: not_enabled_def stream_append split: if_splits)
  next
    case Run
    then obtain t ts where ready: "wReady w = t # ts" and task: "run_task L R t (w\<lparr>wReady := ts\<rparr>) = Inr w'"
      using run by (auto simp: not_enabled_def split: list.splits)
    have pop: "origins L ?G' (\<lambda>n f. stream n f (as @ [a])) (w\<lparr>wReady := ts\<rparr>) \<and> task_only ?G' t"
      using origins_pop[OF old' ready] Run by (simp add: stream_append)
    show ?thesis by (rule run_task_origins[OF laws(3) ok ready _ _ task]) (use pop in simp_all)
  next
    case (Fire tm)
    then show ?thesis using run fire_origins[OF old'] by (auto simp: not_enabled_def stream_append split: option.splits if_splits)
  next
    case (Tick now)
    then show ?thesis using run old' by (auto simp: not_enabled_def stream_append split: if_splits)
  next
    case (Accept n f)
    then show ?thesis using run accept_origins[OF old' ok] by (auto simp: not_enabled_def stream_append split: if_splits)
  next
    case (Close n f)
    then show ?thesis using run close_origins[OF old' ok] by (auto simp: not_enabled_def stream_append split: if_splits)
  qed
qed

text \<open>At the start there are no packets anywhere and no application has connected.\<close>

definition unused :: "'n node \<Rightarrow> bool" where
  "unused nd \<longleftrightarrow> cmQueue (ndCacheManager nd) = [] \<and> pTable (ndPit nd) = [] \<and> (\<forall>f. \<not> is_app_face nd f)"

definition unused_nodes :: "'n emulator \<Rightarrow> bool" where
  "unused_nodes em \<longleftrightarrow> (\<forall>n nd. map_of (emNodeTable em) n = Some nd \<longrightarrow> unused nd)"

lemma unused_reads: "unused nd \<Longrightarrow> reads L (\<lambda>f. []) nd \<and> all_stored L G nd"
proof -
  assume un: "unused nd"
  then have "map_of (ndFaceTable nd) f \<noteq> Some (AppFc af)" for f af
    unfolding unused_def is_app_face_def by (metis face.simps(5) option.simps(5))
  with un show ?thesis by (simp add: unused_def reads_def all_stored_def)
qed

lemma Start_keeps:
  assumes "Node_Start L nd = Inr (nd', out)"
  shows "ndCacheManager nd' = ndCacheManager nd \<and> ndPit nd' = ndPit nd \<and> ndFaceTable nd' = ndFaceTable nd \<and>
    ndFaceCounter nd' = ndFaceCounter nd + 1 \<and>
    out = [ArmPitCleanUp (pCleanupInterval (ndPit nd)), AsyncAccept (ndFaceCounter nd)]"
  by (simp add: Start_fields[OF assms])

lemma Start_origins:
  assumes "unused_nodes em" and "Emulator_Start L em = Inr w"
  shows "origins L G (\<lambda>n f. []) w"
proof (rule each_invariant[OF assms(2)[unfolded Emulator_Start_def], where I = "origins L G (\<lambda>n f. [])"])
  show "origins L G (\<lambda>n f. []) (World_new em)"
    using assms(1) unused_reads[of _ L G]
    by (simp add: origins_def World_new_def all_packets_def queues_only_def unused_nodes_def)
  show "origins L G (\<lambda>n f. []) w'"
    if "origins L G (\<lambda>n f. []) w" "on_node n (\<lambda>h. keep_heap (Node_Start L) h) w = Inr w'" for n w w'
    by (rule quiet_origins[OF that]) (auto dest!: Start_keeps)
qed

lemma AddLinkFace_unused: "Node_AddLinkFace m d nd = Inr (f, nd') \<Longrightarrow> unused nd \<Longrightarrow> unused nd'"
  using AddLinkFace_fields(2)[of m d nd f nd'] by (auto simp: unused_def is_app_face_def kv_simps)

lemma AddDevice_unused:
  assumes "Node_AddDevice R k d m lk nd = Inr nd'" and "unused nd"
  shows "unused nd'"
proof -
  let ?dv = "LinkDevice_new R k d m lk (ndId nd)"
  from assms(1) obtain face nd1 t where add: "Node_AddLinkFace BROADCAST_MAC (dvId ?dv) nd = Inr (face, nd1)"
    and "nd' = nd1\<lparr>ndDeviceTable := t\<rparr>"
    by (auto simp: Node_AddDevice_def LinkDevice_AddBroadcastFace_def Let_def and_then_Inr_iff split: if_splits)
  with AddLinkFace_unused[OF add assms(2)] show ?thesis
    by (simp add: unused_def is_app_face_def)
qed

lemma AddRoute_unused:
  assumes "Node_AddRoute L p d m nd = Inr nd'" and "unused nd"
  shows "unused nd'"
  using assms(1)
proof (cases rule: AddRoute_cases)
  case (existing dv f)
  with assms(2) show ?thesis by (simp add: unused_def is_app_face_def)
next
  case (new dv f nd1)
  with AddLinkFace_unused[OF new(3) assms(2)] show ?thesis by (simp add: unused_def is_app_face_def)
qed

lemma unused_nodes_put:
  "unused_nodes em \<Longrightarrow> unused nd \<Longrightarrow> unused_nodes (em\<lparr>emNodeTable := om_put n nd (emNodeTable em)\<rparr>)"
  by (auto simp: unused_nodes_def kv_simps)

lemma unused_nodes_links [simp]: "unused_nodes (em\<lparr>emLinkTable := t\<rparr>) = unused_nodes em"
  by (simp add: unused_nodes_def)

lemma read_node_unused:
  assumes "read_node C R seed v (em, mac) = Inr (em', mac')" and "unused_nodes em"
  shows "unused_nodes em'"
proof -
  from assms(1) obtain n path limit devices nd em1 where
    each: "each (read_device R seed n) (ptChildren devices) (Node_new n path limit, em, mac) = Inr (nd, em1, mac')" and
    em': "em' = em1\<lparr>emNodeTable := om_put n nd (emNodeTable em1)\<rparr>"
    by (auto simp: read_node_def and_then_Inr_iff split: option.splits)
  have "unused (fst (nd, em1, mac')) \<and> unused_nodes (fst (snd (nd, em1, mac')))"
  proof (rule each_invariant[OF each, where I = "\<lambda>s. unused (fst s) \<and> unused_nodes (fst (snd s))"])
    show "unused (fst (Node_new n path limit, em, mac)) \<and> unused_nodes (fst (snd (Node_new n path limit, em, mac)))"
      using assms(2) by (simp add: unused_def Node_new_def is_app_face_def CacheManager_new_def Pit_new_def)
    fix x and s t :: "'a node \<times> 'a emulator \<times> int"
    assume un: "unused (fst s) \<and> unused_nodes (fst (snd s))" and read: "read_device R seed n x s = Inr t"
    obtain nd0 em0 mac0 where s: "s = (nd0, em0, mac0)" by (cases s)
    from read obtain d l lk nd1 where add: "Node_AddDevice R (seed mac0) d (word_of_int mac0) (Link_const lk) nd0 = Inr nd1"
      and "fst t = nd1" and "fst (snd t) = em0\<lparr>emLinkTable := om_put l (Link_AddNodeDevice n d lk) (emLinkTable em0)\<rparr>"
      by (auto simp: s read_device_def and_then_Inr_iff split: option.splits)
    with AddDevice_unused[OF add] un s show "unused (fst t) \<and> unused_nodes (fst (snd t))" by simp
  qed
  then show ?thesis by (simp add: em' unused_nodes_put)
qed

lemma read_routes_unused:
  assumes "read_routes L v em = Inr em'" and "unused_nodes em"
  shows "unused_nodes em'"
proof -
  have "unused_nodes e'" if run: "read_route L n x e = Inr e'" and un: "unused_nodes e"
    for n x and e e' :: "'a emulator"
  proof -
    from run obtain pfx d mac nd nd' where nd: "map_of (emNodeTable e) n = Some nd"
      and add: "Node_AddRoute L pfx d mac nd = Inr nd'" and "e' = with_node n nd' e"
      by (auto simp: read_route_def and_then_Inr_iff split: option.splits)
    moreover have "unused nd" using un nd by (simp add: unused_nodes_def)
    ultimately show ?thesis using AddRoute_unused[OF add] un by (simp add: unused_nodes_put)
  qed
  with assms show ?thesis
    by (auto simp: read_routes_def and_then_Inr_iff split: option.splits
        elim!: each_invariant[where I = unused_nodes])
qed

lemma read_matrix_unused:
  assumes "read_matrix C R v em = Inr em'" and "unused_nodes em"
  shows "unused_nodes em'"
proof -
  have "unused_nodes e'" if "read_connection C R l x e = Inr e'" "unused_nodes e" for l x and e e' :: "'a emulator"
    using that by (auto simp: read_connection_def and_then_Inr_iff split: option.splits)
  with assms show ?thesis
    by (auto simp: read_matrix_def and_then_Inr_iff split: option.splits
        elim!: each_invariant[where I = unused_nodes])
qed

lemma ReadNetworkConfig_unused:
  assumes "Emulator_ReadNetworkConfig L C R seed config Emulator_new = Inr em"
  shows "unused_nodes em"
proof -
  from assms obtain links nodes matrices em1 em2 em3 mac where
    e1: "each (read_link C) links Emulator_new = Inr em1" and
    e2: "each (read_node C R seed) nodes (em1, 1) = Inr (em2, mac)" and
    e3: "each (read_routes L) nodes em2 = Inr em3" and
    e4: "each (read_matrix C R) matrices em3 = Inr em"
    by (auto simp: Emulator_ReadNetworkConfig_def and_then_Inr_iff read_nodes_def)
  have "unused_nodes em1"
    by (rule each_invariant[OF e1, where I = unused_nodes])
      (auto simp: read_link_def and_then_Inr_iff Let_def split: option.splits,
       simp_all add: unused_nodes_def Emulator_new_def)
  then have "unused_nodes (fst (em2, mac))"
    by (intro each_invariant[OF e2, where I = "\<lambda>s. unused_nodes (fst s)"])
      (auto intro: read_node_unused)
  then have "unused_nodes em3"
    by (intro each_invariant[OF e3, where I = unused_nodes]) (auto intro: read_routes_unused)
  then show ?thesis
    by (intro each_invariant[OF e4, where I = unused_nodes]) (auto intro: read_matrix_unused)
qed

text \<open>The origins of everything in every state a schedule leads to.\<close>

lemma run_origins:
  assumes laws: "block_laws L" "0 < maxPacketSize L" "codec_laws L" and rates: "rates_ok C config"
    and read: "Emulator_ReadNetworkConfig L C R seed config Emulator_new = Inr em"
    and start: "Emulator_Start L em = Inr w0" and run: "each (perform L R) as w0 = Inr w"
  shows "origins L (genuine L (set (writes L as))) (\<lambda>n f. stream n f as) w"
  using run
proof (induction as arbitrary: w rule: rev_induct)
  case Nil
  then show ?case using Start_origins[OF ReadNetworkConfig_unused[OF read] start] by simp
next
  case (snoc a as)
  then obtain w1 where before: "each (perform L R) as w0 = Inr w1" and a: "perform L R a w1 = Inr w"
    by (auto simp: each_append and_then_Inr_iff)
  have "world_ok w1" by (rule run_world[OF rates read perform_reachable[OF start before]])
  from perform_origins[OF laws this snoc.IH[OF before] a] show ?case .
qed

section \<open>Properties\<close>

text \<open>
  C3: No packet is made up, altered or mixed up on its way. In every state of every run, whatever
  the emulator has handed to an application is byte for byte an Interest or a Data packet that
  some application has written to its socket, or the answer a manager gives to an Interest that
  some application has written; so is every Data packet a content store could answer with; and
  the receive buffer of an application face holds exactly what follows the last complete block
  of the face's stream, however the stream was cut into reads. Applications may connect and close
  their sockets at any time. The library's packets must keep the block they were decoded from
  (\<open>codec_laws\<close>).
\<close>

theorem packets_are_genuine:
  assumes "block_laws L" and "0 < maxPacketSize L" and "codec_laws L" and "rates_ok C config"
    and "Emulator_ReadNetworkConfig L C R seed config Emulator_new = Inr em"
    and "Emulator_Start L em = Inr w0" and "each (perform L R) as w0 = Inr w"
  shows "(\<forall>(n, f, bs) \<in> set (wSent w). genuine L (set (writes L as)) bs) \<and>
    (\<forall>n nd. map_of (emNodeTable (wEm w)) n = Some nd \<longrightarrow>
       (\<forall>e \<in> set (cmQueue (ndCacheManager nd)). genuine L (set (writes L as)) (encodeData L (ceData e))) \<and>
       (\<forall>f af. map_of (ndFaceTable nd) f = Some (AppFc af) \<longrightarrow> afInput af = snd (frames L (stream n f as))))"
  using run_origins[OF assms]
  by (auto simp: origins_def queues_only_def all_stored_def reads_def)

lemma trio_blocks: "block_laws trio_lib" "0 < maxPacketSize trio_lib"
  by (simp_all add: trio_lib_def list_ndn_block_laws)

lemma trio_encodings: "codec_laws trio_lib"
  unfolding codec_laws_def interest_in_def data_in_def
  by (auto simp: trio_lib_def list_ndn_def trio_interest_def trio_data_def trio_register_def trio_reply_def ask_def
      split: option.splits if_splits)

text \<open>
  In the run of the fetch the application of C has written its command and the reading, in two
  parts, and the application of A its Interest: what they were sent are the answer to the
  command, the Interest and the reading.
\<close>

lemma trio_streams:
  "sockets trio_schedule = [(''C'', 2), (''A'', 3), (''C'', 2), (''C'', 2)]"
  "stream ''C'' 2 trio_schedule = [5, 1, 9, 6, 1, 7]" "stream ''A'' 3 trio_schedule = [5, 1, 7]"
  by (simp_all add: trio_schedule_def trio_fetch_def)

lemma trio_writes: "set (writes trio_lib trio_schedule) = {[5, 1, 9], [5, 1, 7], [6, 1, 7]}"
  using trio_streams by (auto simp: writes_def trio_lib_def)

theorem packets_are_genuine_witness:
  "\<exists>w0 w. Emulator_Start trio_lib trio_em = Inr w0 \<and>
     each (perform trio_lib counting_rng) trio_schedule w0 = Inr w \<and> (''A'', 3, [6, 1, 7]) \<in> set (wSent w) \<and>
     genuine trio_lib {[5, 1, 9], [5, 1, 7], [6, 1, 7]} [6, 1, 7]"
proof -
  obtain w0 w nd where run: "Emulator_Start trio_lib trio_em = Inr w0"
    "each (perform trio_lib counting_rng) trio_schedule w0 = Inr w"
    and sent: "wSent w = [(''C'', 2, [6, 1, 9]), (''C'', 2, [5, 1, 7]), (''A'', 3, [6, 1, 7])]"
    by (rule trio_schedule_run)
  from packets_are_genuine[OF trio_blocks trio_encodings trio_rates trio_read run] sent run trio_writes
  show ?thesis by auto
qed

end
