(* ===== verification/Balance.thy ===== *)
theory Balance
  imports Origin
begin

text \<open>
  Flow balance: one Interest brings at most one Data packet. A node owes a face an answer for
  every record of the face in its PIT; \<open>owed\<close> counts them. What a packet handler sends to a
  face as Data, it takes off that debt, and only an Interest from the face adds to it (locale
  \<open>metered\<close>). Over a whole run, an application is sent at most as many Data packets as the
  Interests it has written, also after it has closed its socket: an invariant of the schedules of
  the emulator, in which only link faces are exempt.
\<close>

section \<open>Meters\<close>

text \<open>
  A step that moves a meter by at most what its input is worth. Over a list of inputs the
  meter moves by at most what they are worth together.
\<close>

locale metered =
  fixes move :: "'a \<Rightarrow> 's \<Rightarrow> 's result"
    and meter :: "'s \<Rightarrow> nat"
    and worth :: "'a \<Rightarrow> nat"
    and good :: "'s \<Rightarrow> bool"
  assumes move_good: "good s \<Longrightarrow> move x s = Inr s' \<Longrightarrow> good s'"
    and move_meter: "good s \<Longrightarrow> move x s = Inr s' \<Longrightarrow> meter s' \<le> meter s + worth x"
begin

lemma each_meter:
  "good s \<Longrightarrow> each move xs s = Inr s' \<Longrightarrow> meter s' \<le> meter s + sum_list (map worth xs)"
proof (induction xs arbitrary: s)
  case (Cons x xs)
  then obtain u where u: "move x s = Inr u" "each move xs u = Inr s'" by (auto simp: and_then_Inr_iff)
  from Cons.IH[OF move_good[OF Cons.prems(1) u(1)] u(2)] move_meter[OF Cons.prems(1) u(1)] show ?case by simp
qed simp

end

section \<open>What a node owes a face\<close>

definition records_of :: "int \<Rightarrow> 'n pit_entry \<Rightarrow> nat" where
  "records_of f e = length (filter (\<lambda>x. frFaceId (snd x) = f) (peNonceTable e))"

definition owed :: "int \<Rightarrow> 'n pit \<Rightarrow> nat" where
  "owed f p = sum_list (map (\<lambda>x. records_of f (snd x)) (pTable p))"

lemma length_filter_om_put: "length (filter P (om_put k v t)) \<le> length (filter P t) + of_bool (P (k, v))"
  by (induction t) auto

lemma sum_um_put:
  fixes h :: "'k \<times> 'v \<Rightarrow> nat"
  shows "sum_list (map h (um_put k v t)) + (case map_of t k of None \<Rightarrow> 0 | Some u \<Rightarrow> h (k, u)) =
    sum_list (map h t) + h (k, v)"
  by (induction t) auto

lemma records_AddNonce: "records_of g (snd (PitEntry_AddNonce x f t e)) \<le> records_of g e + of_bool (f = g)"
  using length_filter_om_put[of "\<lambda>x. frFaceId (snd x) = g" x "\<lparr>frFaceId = f, frExpire = t\<rparr>" "peNonceTable e"]
  by (auto simp: records_of_def PitEntry_AddNonce_def split: option.splits)

lemma owed_AddInterest: "owed g (snd (Pit_AddInterest now f i p)) \<le> owed g p + of_bool (f = g)"
proof -
  let ?e = "case map_of (pTable p) (iName i) of None \<Rightarrow> PitEntry_new i | Some e \<Rightarrow> e"
  let ?e' = "snd (PitEntry_AddNonce (iNonce i) f (now + iLifetime i) ?e)"
  have tab: "pTable (snd (Pit_AddInterest now f i p)) = um_put (iName i) ?e' (pTable p)"
    by (auto simp: Pit_AddInterest_def Let_def split: option.splits prod.splits)
  have "records_of g ?e' \<le> records_of g ?e + of_bool (f = g)" by (rule records_AddNonce)
  moreover have "records_of g (PitEntry_new i) = 0" by (simp add: records_of_def PitEntry_new_def)
  ultimately show ?thesis
    using sum_um_put[of "\<lambda>x. records_of g (snd x)" "iName i" ?e' "pTable p"]
    unfolding owed_def tab by (auto split: option.splits)
qed

lemma sum_filter_member:
  fixes h :: "'a \<Rightarrow> nat"
  shows "x \<in> set t \<Longrightarrow> \<not> P x \<Longrightarrow> sum_list (map h (filter P t)) + h x \<le> sum_list (map h t)"
    and "sum_list (map h (filter P t)) \<le> sum_list (map h t)"
  by (induction t) auto

text \<open>The faces that get the Data have asked for it, and are owed less afterwards.\<close>

lemma owed_Consume:
  assumes "Pit_ConsumeInterestWithDataName L now name [] p = (fs, p')"
  shows "owed f p' + of_bool (f \<in> set fs) \<le> owed f p"
proof -
  let ?P = "\<lambda>e. \<not> nmIsPrefixOf L (fst e) name"
  have tab: "pTable p' = filter ?P (pTable p)" and fs: "fs = snd (consume_loop L now name (pTable p) [])"
    using assms consume_loop_table[of L now name "pTable p" "[]"]
    by (auto simp: Pit_ConsumeInterestWithDataName_def split: prod.splits)
  show ?thesis
  proof (cases "f \<in> set fs")
    case True
    then obtain k e x r where e: "(k, e) \<in> set (pTable p)" "nmIsPrefixOf L k name" "(x, r) \<in> set (peNonceTable e)"
      "frFaceId r = f"
      unfolding fs consume_loop_faces by auto
    then have "(x, r) \<in> set (filter (\<lambda>x. frFaceId (snd x) = f) (peNonceTable e))" by simp
    then have "1 \<le> records_of f e" unfolding records_of_def by (metis One_nat_def Suc_leI length_pos_if_in_set)
    with sum_filter_member(1)[of "(k, e)" "pTable p" ?P "\<lambda>x. records_of f (snd x)"] e True show ?thesis
      by (simp add: owed_def tab)
  next
    case False
    with sum_filter_member(2)[of "\<lambda>x. records_of f (snd x)" ?P "pTable p"] show ?thesis by (simp add: owed_def tab)
  qed
qed

lemma owed_CleanUp: "owed f (fst (Pit_CleanUp err now p)) \<le> owed f p"
proof -
  have "length (filter P (filter Q xs)) \<le> length (filter P xs)" for P Q and xs :: "(32 word \<times> face_record) list"
    by (induction xs) auto
  then have "records_of f (e\<lparr>peNonceTable := purge_nonces now (peNonceTable e)\<rparr>) \<le> records_of f e" for e :: "'a pit_entry"
    by (simp add: records_of_def purge_nonces_eq)
  then have "sum_list (map (\<lambda>x. records_of f (snd x)) (purge_table now t)) \<le> sum_list (map (\<lambda>x. records_of f (snd x)) t)"
    for t :: "'a pit_table"
    by (induction now t rule: purge_table.induct) (auto simp: Let_def add_mono trans_le_add2)
  then show ?thesis by (simp add: Pit_CleanUp_def owed_def Let_def)
qed

section \<open>The packet handlers\<close>

fun data_send :: "('n, 'c) ndn \<Rightarrow> int \<Rightarrow> node_out \<Rightarrow> bool" where
  "data_send L f (AppSend g bs) \<longleftrightarrow> g = f \<and> data_in L bs \<noteq> None"
| "data_send L f r \<longleftrightarrow> False"

definition data_sends :: "('n, 'c) ndn \<Rightarrow> int \<Rightarrow> node_out list \<Rightarrow> nat" where
  "data_sends L f out = length (filter (data_send L f) out)"

fun debt :: "('n, 'c) ndn \<Rightarrow> int \<Rightarrow> 'n node_state \<Rightarrow> nat" where
  "debt L f (h, nd, out) = data_sends L f out + owed f (ndPit nd)"

lemma data_sends_append [simp]: "data_sends L f (xs @ ys) = data_sends L f xs + data_sends L f ys"
  by (simp add: data_sends_def)

lemma data_sends_apps: "data_sends L f io = data_sends L f (filter is_app_send io)"
proof -
  have "data_send L f r \<Longrightarrow> is_app_send r" for r by (cases r) auto
  then show ?thesis unfolding data_sends_def filter_filter by (metis (mono_tags, lifting))
qed

lemma data_sends_none:
  assumes "filter is_app_send io = app_sends nd fs bs" and "data_in L bs = None"
  shows "data_sends L f io = 0"
  unfolding data_sends_apps[of L f io] assms(1) by (auto simp: data_sends_def app_sends_def assms(2) filter_empty_conv)

lemma data_sends_to_apps:
  assumes "filter is_app_send io = app_sends nd fs bs" and "distinct fs"
  shows "data_sends L f io \<le> of_bool (f \<in> set fs)"
  unfolding data_sends_apps[of L f io] assms(1) using assms(2)
proof (induction fs)
  case (Cons g fs)
  then show ?case by (cases "is_app_face nd g") (auto simp: app_sends_def data_sends_def)
qed (simp add: app_sends_def data_sends_def)

lemma HandleData_debt:
  assumes "node_ok nd" and "Node_HandleData L R now g d (h, nd, out) = Inr s"
  shows "debt L f s \<le> debt L f (h, nd, out)"
proof -
  obtain fs pit where c: "Pit_ConsumeInterestWithDataName L now (dName d) [] (ndPit nd) = (fs, pit)" by fastforce
  then have "distinct fs"
    using faces_Consume_ok[of "[]" L now "dName d" "ndPit nd"] by (simp add: ss_ok_distinct)
  moreover obtain h' nd' io where "s = (h', nd', out @ io)" "ndPit nd' = pit"
    "filter is_app_send io = app_sends nd fs (encodeData L d)"
    using HandleData_spec[OF assms(1) c, of R g h out] assms(2) by auto
  ultimately show ?thesis
    using data_sends_to_apps[of io nd fs "encodeData L d" L f] owed_Consume[OF c, of f]
    by (auto simp: of_bool_def split: if_splits)
qed

lemma ProcessCommand_debt:
  assumes "node_ok nd" and "Node_ProcessCommand L R now g c (h, nd, out) = Inr s"
  shows "debt L f s \<le> debt L f (h, nd, out)"
proof -
  from assms(2) obtain fm fib reply where fm: "ndFibManager nd = Some fm"
    and cmd: "FibManager_ProcessCommand L fm g c (ndFib nd) = Inr (fib, reply)"
    and res: "(case reply of None \<Rightarrow> Inr (h, nd\<lparr>ndFib := fib\<rparr>, out)
      | Some d \<Rightarrow> Node_HandleData L R now (fmId fm) d (h, nd\<lparr>ndFib := fib\<rparr>, out)) = Inr s"
    by (auto simp: Node_ProcessCommand_def and_then_Inr_iff Let_def split: option.splits)
  have ok: "node_ok (nd\<lparr>ndFib := fib\<rparr>)"
    using fib_ok_ProcessCommand[OF node_okD(4)[OF assms(1)] cmd] fm by (intro node_ok_fib[OF assms(1)]) auto
  show ?thesis
  proof (cases reply)
    case None
    with res show ?thesis by auto
  next
    case (Some d)
    with res HandleData_debt[OF ok, of L R now "fmId fm" d h out s f] show ?thesis by simp
  qed
qed

lemma HandleInterest_debt:
  assumes wire: "data_in L (encodeInterest L i) = None" and ok: "node_ok nd"
    and run: "Node_HandleInterest L R now g i (h, nd, out) = Inr s"
  shows "debt L f s \<le> debt L f (h, nd, out) + of_bool (g = f)"
proof -
  let ?nd = "nd\<lparr>ndPit := snd (Pit_AddInterest now g i (ndPit nd))\<rparr>"
  have ok1: "node_ok ?nd" by (rule node_ok_pit[OF ok pit_ok_AddInterest[OF node_okD(3)[OF ok]]])
  have add: "debt L f (h', ?nd, out) \<le> debt L f (h, nd, out) + of_bool (g = f)" for h'
    using owed_AddInterest[of f now g i "ndPit nd"] by simp
  show ?thesis
  proof (cases rule: HandleInterest_cases[where L = L and R = R and now = now and f = g and i = i
        and h = h and nd = nd and out = out])
    case (hit d pkt h1)
    obtain h2 nd2 io where fwd: "Node_ForwardToFace R pkt g (h1, nd, out) = Inr (h2, nd2, out @ io)"
      "forwarded nd h1 nd2 h2" "filter is_app_send io = app_sends nd [g] (Packet_GetBlock h1 pkt)"
      using ForwardToFace_spec[OF ok] by metis
    with hit(3) run data_sends_to_apps[OF fwd(3), of L f] forwarded_face_table(2)[OF fwd(2)] show ?thesis
      by (auto simp: of_bool_def split: if_splits)
  next
    case (silent pit)
    with run add show ?thesis by auto
  next
    case (command pit)
    with run ProcessCommand_debt[OF ok1, of L R now g "iName i" h out s f] add[of h] show ?thesis by auto
  next
    case (forward pit pkt h1)
    obtain h2 nd2 io where fwd:
      "Node_ForwardToFaces R pkt (interest_faces L g i nd) (h1, ?nd, out) = Inr (h2, nd2, out @ io)"
      "forwarded ?nd h1 nd2 h2" "filter is_app_send io = app_sends ?nd (interest_faces L g i nd) (Packet_GetBlock h1 pkt)"
      using ForwardToFaces_spec[OF ok1] by metis
    have "data_in L (Packet_GetBlock h1 pkt) = None"
      using new_packet(2)[OF forward(6)] wire by simp
    from data_sends_none[OF fwd(3) this] have "data_sends L f io = 0" .
    with forward(3,7) run fwd add[of h2] forwarded_face_table(2)[OF fwd(2)] show ?thesis by auto
  qed
qed

lemma Dispatch_debt:
  assumes "codec_laws L" and "node_ok nd" and "Face_Dispatch L R now g b (h, nd, out) = Inr s"
  shows "debt L f s \<le> debt L f (h, nd, out) + of_bool (g = f \<and> interest_in L b \<noteq> None)"
proof (cases "interest_in L b")
  case None
  then show ?thesis
    using assms(3) HandleData_debt[OF assms(2), of L R now g _ h out s f]
    by (auto simp: Face_Dispatch_def interest_in_def split: if_splits option.splits)
next
  case (Some i)
  then have "encodeInterest L i = b" using assms(1) by (simp add: codec_laws_def)
  then have "data_in L (encodeInterest L i) = None" using interest_no_data[OF Some] by simp
  moreover have "Node_HandleInterest L R now g i (h, nd, out) = Inr s"
    using Some assms(3) by (auto simp: Face_Dispatch_def interest_in_def split: if_splits)
  ultimately show ?thesis using HandleInterest_debt[OF _ assms(2), of L i R now g h out s f] Some by simp
qed

interpretation dispatch: metered "Face_Dispatch L R now g" "debt L f" "\<lambda>b. of_bool (g = f \<and> interest_in L b \<noteq> None)"
  "\<lambda>s. codec_laws L \<and> node_ok (fst (snd s))"
  for L R now g f
proof
  fix s s' :: "'a node_state" and b
  obtain h nd out h' nd' out' where s: "s = (h, nd, out)" "s' = (h', nd', out')" by (cases s, cases s')
  assume good: "codec_laws L \<and> node_ok (fst (snd s))" and run: "Face_Dispatch L R now g b s = Inr s'"
  show "codec_laws L \<and> node_ok (fst (snd s'))" using good Dispatch_node_ok[of nd L R now g b h out] run s by auto
  show "debt L f s' \<le> debt L f s + of_bool (g = f \<and> interest_in L b \<noteq> None)"
    using Dispatch_debt[of L nd R now g b h out s' f] good run s by simp
qed

definition interests :: "('n, 'c) ndn \<Rightarrow> bytes list \<Rightarrow> nat" where
  "interests L bs = length (filter (\<lambda>b. interest_in L b \<noteq> None) bs)"

lemma interests_append [simp]: "interests L (xs @ ys) = interests L xs + interests L ys"
  by (simp add: interests_def)

lemma worth_interests: "sum_list (map (\<lambda>b. of_bool (g = f \<and> interest_in L b \<noteq> None)) bs) = (if g = f then interests L bs else 0)"
  by (induction bs) (auto simp: interests_def)

lemma HandleReceive_debt:
  assumes laws: "block_laws L" "0 < maxPacketSize L" "codec_laws L" and ok: "node_ok nd"
    and af: "map_of (ndFaceTable nd) g = Some (AppFc af)"
    and run: "Node_HandleReceive L R now g False rcv (h, nd, []) = Some (Inr (h', nd', out))"
  shows "data_sends L f out + owed f (ndPit nd') \<le>
      owed f (ndPit nd) + (if g = f then interests L (fst (frames L (afInput af @ rcv))) else 0)"
proof -
  let ?bs = "fst (frames L (afInput af @ rcv))"
  from run af obtain h1 nd1 io where each: "each (Face_Dispatch L R now g) ?bs (h, nd, []) = Inr (h1, nd1, io)"
    and res: "out = io @ [AppReceive g]" "ndPit nd' = ndPit nd1"
    by (auto simp: Node_HandleReceive_def HandleReceive_absorb[OF laws(1,2)] absorb_def and_then_Inr_iff split_beta
        split: if_splits)
  have "debt L f (h1, nd1, io) \<le> debt L f (h, nd, []) + (if g = f then interests L ?bs else 0)"
    using dispatch.each_meter[OF _ each, of f] laws(3) ok unfolding worth_interests by simp
  then show ?thesis using res by (simp add: data_sends_def)
qed

section \<open>The whole emulator\<close>

definition sent_data :: "('n, 'c) ndn \<Rightarrow> string \<Rightarrow> int \<Rightarrow> 'n world \<Rightarrow> nat" where
  "sent_data L n f w = length (filter (\<lambda>(m, g, bs). m = n \<and> g = f \<and> data_in L bs \<noteq> None) (wSent w))"

fun is_dispatch :: "task \<Rightarrow> bool" where
  "is_dispatch (RunDispatch n f wire) = True"
| "is_dispatch t = False"

definition timers_quiet :: "'n world \<Rightarrow> bool" where
  "timers_quiet w \<longleftrightarrow> (\<forall>x \<in> set (wTimers w). \<not> is_dispatch (snd (snd x)))"

text \<open>Only link faces dispatch through the queue of the io service.\<close>

definition link_dispatches :: "'n world \<Rightarrow> bool" where
  "link_dispatches w \<longleftrightarrow> (\<forall>n f wire. RunDispatch n f wire \<in> set (wReady w) \<longrightarrow>
     (\<exists>nd. map_of (emNodeTable (wEm w)) n = Some nd \<and> Node_link_face nd f \<noteq> None))"

definition balanced :: "('n, 'c) ndn \<Rightarrow> (string \<Rightarrow> int \<Rightarrow> bytes) \<Rightarrow> 'n world \<Rightarrow> bool" where
  "balanced L st w \<longleftrightarrow> timers_quiet w \<and> link_dispatches w \<and>
     (\<forall>n nd f. map_of (emNodeTable (wEm w)) n = Some nd \<and> Node_link_face nd f = None \<longrightarrow>
        sent_data L n f w + owed f (ndPit nd) \<le> interests L (fst (frames L (st n f))))"

lemma is_dispatch_cancelled [simp]: "is_dispatch (cancelled t) = is_dispatch t"
  by (cases t) auto

lemma timers_quiet_arm:
  assumes "timers_quiet w" and "\<not> is_dispatch t"
  shows "timers_quiet (arm tm dl t w)" and "RunDispatch n f wire \<in> set (wReady (arm tm dl t w)) \<longleftrightarrow> RunDispatch n f wire \<in> set (wReady w)"
proof -
  show "timers_quiet (arm tm dl t w)"
    using assms set_um_put[of tm "(wNow w + dl, t)" "wTimers w"] by (auto simp: timers_quiet_def arm_def)
  have "cancelled old \<noteq> RunDispatch n f wire" if "map_of (wTimers w) tm = Some (e, old)" for e old
  proof
    assume "cancelled old = RunDispatch n f wire"
    then have "is_dispatch (snd (snd (tm, e, old)))" by (metis is_dispatch.simps(1) is_dispatch_cancelled snd_conv)
    with assms(1) map_of_SomeD[OF that] show False unfolding timers_quiet_def by blast
  qed
  then show "RunDispatch n f wire \<in> set (wReady (arm tm dl t w)) \<longleftrightarrow> RunDispatch n f wire \<in> set (wReady w)"
    by (cases "map_of (wTimers w) tm") (auto simp: arm_def)
qed

lemma request_tasks:
  assumes "timers_quiet w"
  shows "timers_quiet (node_request n r w) \<and> (RunDispatch m f wire \<in> set (wReady (node_request n r w)) \<longrightarrow>
    RunDispatch m f wire \<in> set (wReady w) \<or> m = n \<and> (\<exists>d. r = DevIO d (PostDispatch f wire)))"
proof (cases r)
  case (DevIO d x)
  then show ?thesis
    using assms by (cases x) (auto simp: timers_quiet_arm, auto simp: post_def timers_quiet_def)
next
  case (ArmPitCleanUp t)
  then show ?thesis using assms by (auto simp: timers_quiet_arm)
qed (use assms in \<open>auto simp: timers_quiet_def\<close>)

lemma requests_tasks:
  "timers_quiet w \<Longrightarrow> timers_quiet (fold (node_request n) out w) \<and>
    (RunDispatch m f wire \<in> set (wReady (fold (node_request n) out w)) \<longrightarrow>
      RunDispatch m f wire \<in> set (wReady w) \<or> m = n \<and> (\<exists>d. DevIO d (PostDispatch f wire) \<in> set out))"
proof (induction out arbitrary: w)
  case (Cons r out)
  from request_tasks[OF Cons.prems, of n r m f wire] Cons.IH[of "node_request n r w"] show ?case by auto
qed simp

lemma request_sent:
  "sent_data L m f (node_request n r w) = sent_data L m f w + (if m = n then data_sends L f [r] else 0)"
proof (cases r)
  case (DevIO d x)
  then show ?thesis by (cases x) (simp_all add: sent_data_def data_sends_def arm_def post_def)
qed (auto simp: sent_data_def data_sends_def arm_def)

lemma requests_sent:
  "sent_data L m f (fold (node_request n) out w) = sent_data L m f w + (if m = n then data_sends L f out else 0)"
proof (induction out arbitrary: w)
  case (Cons r out)
  then show ?case using data_sends_append[of L f "[r]" out] by (simp add: request_sent)
qed (simp add: data_sends_def)

text \<open>A handler of the node \<open>n\<close> that pays for what it sends.\<close>

lemma on_node_balanced:
  assumes old: "balanced L st w" and nd: "map_of (emNodeTable (wEm w)) n = Some nd"
    and run: "on_node n handler w = Inr w'" and res: "handler (wHeap w) nd = Inr (h', nd', out)"
    and st: "\<And>m. m \<noteq> n \<Longrightarrow> st' m = st m"
    and links: "\<And>f. Node_link_face nd f \<noteq> None \<Longrightarrow> Node_link_face nd' f \<noteq> None"
    and posts: "\<And>d f wire. DevIO d (PostDispatch f wire) \<in> set out \<Longrightarrow> Node_link_face nd' f \<noteq> None"
    and pays: "\<And>f. Node_link_face nd f = None \<Longrightarrow> data_sends L f out + owed f (ndPit nd') + interests L (fst (frames L (st n f))) \<le>
      owed f (ndPit nd) + interests L (fst (frames L (st' n f)))"
  shows "balanced L st' w'"
proof -
  let ?w = "w\<lparr>wEm := with_node n nd' (wEm w), wHeap := h'\<rparr>"
  have w': "w' = fold (node_request n) out ?w" using run nd res by (simp add: on_node_def)
  have quiet: "timers_quiet ?w" using old by (simp add: balanced_def timers_quiet_def)
  have node: "map_of (emNodeTable (wEm w')) m = (if m = n then Some nd' else map_of (emNodeTable (wEm w)) m)" for m
    by (simp add: w' requests_fields kv_simps)
  have "\<exists>ndm. map_of (emNodeTable (wEm w')) m = Some ndm \<and> Node_link_face ndm f \<noteq> None"
    if task: "RunDispatch m f wire \<in> set (wReady w')" for m f wire
  proof -
    consider "RunDispatch m f wire \<in> set (wReady w)" | d where "m = n" "DevIO d (PostDispatch f wire) \<in> set out"
      using requests_tasks[OF quiet, of n out m f wire] task by (auto simp: w')
    then show ?thesis
    proof cases
      case 1
      then obtain ndm where "map_of (emNodeTable (wEm w)) m = Some ndm" "Node_link_face ndm f \<noteq> None"
        using old by (force simp: balanced_def link_dispatches_def)
      with nd links[of f] show ?thesis by (cases "m = n") (auto simp: node)
    next
      case 2
      with posts show ?thesis by (simp add: node)
    qed
  qed
  moreover have "sent_data L m f w' + owed f (ndPit ndm) \<le> interests L (fst (frames L (st' m f)))"
    if m: "map_of (emNodeTable (wEm w')) m = Some ndm" and none: "Node_link_face ndm f = None" for m ndm f
  proof (cases "m = n")
    case True
    then have "ndm = nd'" using m by (simp add: node)
    then have here: "Node_link_face nd f = None" using none links[of f] by blast
    then have "sent_data L n f w + owed f (ndPit nd) \<le> interests L (fst (frames L (st n f)))"
      using old nd by (simp add: balanced_def)
    moreover have "sent_data L n f w' = sent_data L n f w + data_sends L f out"
      unfolding w' requests_sent by (simp add: sent_data_def)
    ultimately show ?thesis using pays[OF here] True \<open>ndm = nd'\<close> by simp
  next
    case False
    have "sent_data L m f w' = sent_data L m f w" unfolding w' requests_sent using False by (simp add: sent_data_def)
    with False m none old st show ?thesis by (simp add: node balanced_def)
  qed
  ultimately show ?thesis
    using requests_tasks[OF quiet, of n out] by (auto simp: balanced_def link_dispatches_def w')
qed

lemma balanced_updates [simp]:
  "balanced L st (w\<lparr>wEm := (wEm w)\<lparr>emLinkTable := ls\<rparr>\<rparr>) = balanced L st w"
  "balanced L st (w\<lparr>wAccepts := x\<rparr>) = balanced L st w" "balanced L st (w\<lparr>wReceives := x\<rparr>) = balanced L st w"
  "balanced L st (w\<lparr>wNow := now\<rparr>) = balanced L st w"
  by (simp_all add: balanced_def timers_quiet_def link_dispatches_def sent_data_def)

lemma balanced_pop:
  assumes "balanced L st w" and "wReady w = t # ts"
  shows "balanced L st (w\<lparr>wReady := ts\<rparr>)"
  using assms by (simp add: balanced_def timers_quiet_def link_dispatches_def sent_data_def)

lemma link_face_same: "ndFaceTable nd' = ndFaceTable nd \<Longrightarrow> Node_link_face nd' = Node_link_face nd"
  by (simp add: Node_link_face_def fun_eq_iff)

text \<open>Handlers that send nothing to applications and dispatch nothing.\<close>

lemma silent_sends: "\<forall>r \<in> set out. silent_request r \<Longrightarrow> data_sends L f out = 0"
  by (induction out) (auto simp: data_sends_def elim!: silent_request.elims)

lemma silent_balanced:
  assumes old: "balanced L st w" and run: "on_node n (\<lambda>h. keep_heap (f h) h) w = Inr w'"
    and quiet: "\<And>nd nd' out. map_of (emNodeTable (wEm w)) n = Some nd \<Longrightarrow> f (wHeap w) nd = Inr (nd', out) \<Longrightarrow>
      (\<forall>g. owed g (ndPit nd') \<le> owed g (ndPit nd)) \<and> ndFaceTable nd' = ndFaceTable nd \<and> (\<forall>r \<in> set out. silent_request r)"
  shows "balanced L st w'"
proof -
  from run obtain nd h' nd' out where nd: "map_of (emNodeTable (wEm w)) n = Some nd"
    and res: "keep_heap (f (wHeap w)) (wHeap w) nd = Inr (h', nd', out)" by (rule on_node_cases)
  note q = quiet[OF nd conjunct2[OF keep_heap_cases[OF res]]]
  have "DevIO d (PostDispatch g wire) \<notin> set out" for d g wire using q by fastforce
  then show ?thesis
    using q link_face_same[of nd' nd]
    by (intro on_node_balanced[OF old nd run res]) (auto simp: silent_sends)
qed

lemma StartRx_balanced:
  assumes "balanced L st w" and "on_node n (\<lambda>h. keep_heap (Node_StartRx h p d) h) w = Inr w'"
  shows "balanced L st w'"
  by (rule silent_balanced[OF assms]) (auto simp: silently_def dest: StartRx_silent)

lemma Transmit_balanced:
  assumes "balanced L st w" and "World_Transmit R l n p w = Inr w'"
  shows "balanced L st w'"
  by (rule Transmit_invariant[OF assms(2), where I = "balanced L st"])
    (use assms(1) in \<open>auto intro: StartRx_balanced\<close>)

lemma DoCsma_balanced:
  assumes "balanced L st w" and "on_node n (\<lambda>h. keep_heap (Node_DoCsma R h NB BE err d) h) w = Inr w'"
  shows "balanced L st w'"
  by (rule silent_balanced[OF assms]) (auto simp: silently_def dest: DoCsma_silent)

lemma PitCleanUp_balanced:
  assumes "balanced L st w" and "on_node n (\<lambda>h. keep_heap (\<lambda>nd. Inr (Node_PitCleanUp err now nd)) h) w = Inr w'"
  shows "balanced L st w'"
proof (rule silent_balanced[OF assms])
  fix nd nd' and out
  assume "Inr (Node_PitCleanUp err now nd) = (Inr (nd', out) :: (_ \<times> _) result)"
  then show "(\<forall>g. owed g (ndPit nd') \<le> owed g (ndPit nd)) \<and> ndFaceTable nd' = ndFaceTable nd \<and> (\<forall>r \<in> set out. silent_request r)"
    using owed_CleanUp[of _ err now "ndPit nd"]
    by (auto simp: Node_PitCleanUp_def Let_def split: prod.splits option.splits)
qed

text \<open>A frame is dispatched on the link face for its source, which may be new.\<close>

lemma PostRx_face:
  assumes "LinkDevice_PostRx Node_AddLinkFace err h dv nd = Inr (dv', nd', io)" and "PostDispatch f wire \<in> set io"
    and "faces_known Node_link_face dv nd"
  shows "Node_link_face nd' f \<noteq> None"
  using assms
  by (auto simp: LinkDevice_PostRx_def receive_frame_def Let_def and_then_Inr_iff Node_AddLinkFace_def Node_link_face_def
      kv_simps split: if_splits phy_state.splits option.splits prod.splits dest: faces_knownD)

lemma PostRx_balanced:
  assumes old: "balanced L st w" and ok: "world_ok w"
    and run: "on_node n (\<lambda>h. keep_heap (Node_PostRx h err d) h) w = Inr w'"
  shows "balanced L st w'"
proof -
  from run obtain nd h' nd' out where nd: "map_of (emNodeTable (wEm w)) n = Some nd"
    and res: "keep_heap (Node_PostRx (wHeap w) err d) (wHeap w) nd = Inr (h', nd', out)" by (rule on_node_cases)
  have rx: "Node_PostRx (wHeap w) err d nd = Inr (nd', out)" using keep_heap_cases[OF res] by simp
  have tab: "tables_ok nd" using world_okD(3)[OF ok nd] by (simp add: node_okD(1))
  from rx[unfolded Node_PostRx_def] show ?thesis
  proof (cases rule: on_device_cases)
    case (1 dv dv' nd1 io)
    have links: "Node_link_face nd f \<noteq> None \<Longrightarrow> Node_link_face nd1 f \<noteq> None" and pit: "ndPit nd1 = ndPit nd" for f
      using node.PostRx_node[OF 1(2)]
      by (auto simp: Node_link_face_def kv_simps dest!: AddLinkFace_fields)
    have same: "Node_link_face nd' = Node_link_face nd1" "ndPit nd' = ndPit nd"
      using 1(4) link_face_same[of nd' nd1] pit by simp_all
    have none: "data_sends L f (map (DevIO d) io) = 0" for f by (simp add: data_sends_def filter_empty_conv)
    show ?thesis
      using PostRx_face[OF 1(2) _ tables_ok_device(4)[OF tab 1(1)]] links 1(3)
      by (intro on_node_balanced[OF old nd run res]) (auto simp: same none)
  qed
qed

lemma Dispatch_balanced:
  assumes old: "balanced L st w" and ok: "world_ok w" and codec: "codec_laws L"
    and face: "\<And>nd. map_of (emNodeTable (wEm w)) n = Some nd \<Longrightarrow> Node_link_face nd g \<noteq> None"
    and run: "on_node n (\<lambda>h nd. Face_Dispatch L R now g b (h, nd, [])) w = Inr w'"
  shows "balanced L st w'"
proof -
  from run obtain nd h' nd' out where nd: "map_of (emNodeTable (wEm w)) n = Some nd"
    and res: "Face_Dispatch L R now g b (wHeap w, nd, []) = Inr (h', nd', out)" by (rule on_node_cases)
  have ndok: "node_ok nd" using world_okD(3)[OF ok nd] by simp
  have same: "Node_link_face nd' = Node_link_face nd"
    using Dispatch_node_ok[OF ndok res] link_face_same[of nd' nd] by (simp add: same_node_def)
  have "packet_request r" if "r \<in> set out" for r
    using Dispatch_dev[OF res] that by (auto simp: dev_step_def)
  then have posts: "DevIO d (PostDispatch f wire) \<notin> set out" for d f wire by fastforce
  show ?thesis
  proof (rule on_node_balanced[OF old nd run res])
    fix f assume "Node_link_face nd f = None"
    then have "f \<noteq> g" using face[OF nd] by blast
    then show "data_sends L f out + owed f (ndPit nd') + interests L (fst (frames L (st n f))) \<le>
        owed f (ndPit nd) + interests L (fst (frames L (st n f)))"
      using Dispatch_debt[OF codec ndok res, of f] by (simp add: data_sends_def)
  qed (use same posts in auto)
qed

lemma accept_balanced:
  assumes old: "balanced L st w" and ok: "world_ok w" and mem: "(n, f) \<in> set (wAccepts w)"
    and run: "run_accept n f err (w\<lparr>wAccepts := remove1 (n, f) (wAccepts w)\<rparr>) = Inr w'"
  shows "balanced L st w'"
proof -
  let ?w = "w\<lparr>wAccepts := remove1 (n, f) (wAccepts w)\<rparr>"
  have old': "balanced L st ?w" using old by simp
  from run[unfolded run_accept_def] obtain nd h' nd' out where nd: "map_of (emNodeTable (wEm ?w)) n = Some nd"
    and res: "keep_heap (Node_HandleAccept f err) (wHeap ?w) nd = Inr (h', nd', out)"
    by (rule on_node_cases)
  have "Node_HandleAccept f err nd = Inr (nd', out)" using keep_heap_cases[OF res] by simp
  note h = HandleAccept_fields[OF this]
  have "f \<in> set (of_node n (wAccepts w))" using mem by (simp add: set_of_node)
  then have "map_of (ndFaceTable nd) f = None"
    using world_okD(2)[OF ok, of n nd] nd by (simp add: live_at_def node_live_def)
  then have "Node_link_face nd' = Node_link_face nd"
    by (auto simp: h(1) Node_link_face_def fun_eq_iff kv_simps)
  then show ?thesis
    by (intro on_node_balanced[OF old' nd run[unfolded run_accept_def] res]) (auto simp: h data_sends_def)
qed

lemma receive_balanced:
  assumes laws: "block_laws L" "0 < maxPacketSize L" "codec_laws L"
    and old: "balanced L st w" and buffers: "origins L G st w" and ok: "world_ok w"
    and st': "st' n f = st n f @ rcv" "\<And>m g. (m, g) \<noteq> (n, f) \<Longrightarrow> st' m g = st m g"
    and run: "run_receive L R n f False rcv (w\<lparr>wReceives := remove1 (n, f) (wReceives w)\<rparr>) = Inr w'"
  shows "balanced L st' w'"
proof -
  let ?w = "w\<lparr>wReceives := remove1 (n, f) (wReceives w)\<rparr>"
  have old': "balanced L st ?w" using old by simp
  from run[unfolded run_receive_def] obtain nd h' nd' out where nd: "map_of (emNodeTable (wEm ?w)) n = Some nd"
    and res: "(case Node_HandleReceive L R (wNow ?w) f False rcv (wHeap ?w, nd, []) of
      None \<Rightarrow> Inl (UndefinedBehaviour ''endless loop'') | Some r \<Rightarrow> r) = Inr (h', nd', out)"
    by (rule on_node_cases)
  then have hr: "Node_HandleReceive L R (wNow ?w) f False rcv (wHeap ?w, nd, []) = Some (Inr (h', nd', out))"
    by (auto split: option.splits)
  have ndok: "node_ok nd" using world_okD(3)[OF ok] nd by simp
  note faces = HandleReceive_faces[OF ndok hr]
  obtain af where af: "map_of (ndFaceTable nd) f = Some (AppFc af)"
    using faces by (auto simp: is_app_face_def split: option.splits face.splits)
  have rest: "afInput af = snd (frames L (st n f))" using buffers nd af by (simp add: origins_def reads_def)
  have links: "Node_link_face nd' g \<noteq> None" if "Node_link_face nd g \<noteq> None" for g
    using that faces af by (cases "g = f") (auto simp: Node_link_face_def same_others_def)
  obtain io tl where "out = io @ tl" "tl = [] \<or> tl = [AppReceive f]" "dev_step nd (wHeap ?w) nd' h' io"
    using HandleReceive_dev[OF hr] by auto
  then have posts: "DevIO d (PostDispatch g wire) \<notin> set out" for d g wire by (fastforce simp: dev_step_def)
  show ?thesis
  proof (rule on_node_balanced[OF old' nd run[unfolded run_receive_def] res])
    fix g
    have "data_sends L g out + owed g (ndPit nd') \<le>
        owed g (ndPit nd) + (if f = g then interests L (fst (frames L (afInput af @ rcv))) else 0)"
      by (rule HandleReceive_debt[OF laws ndok af hr])
    then show "data_sends L g out + owed g (ndPit nd') + interests L (fst (frames L (st n g))) \<le>
        owed g (ndPit nd) + interests L (fst (frames L (st' n g)))"
      using st' frames_append[OF laws(1), of "st n f" rcv] rest by (cases "g = f") auto
  qed (use links posts st'(2) in auto)
qed

lemma close_balanced:
  assumes old: "balanced L st w" and ok: "world_ok w"
    and run: "run_receive L R n f True [] (w\<lparr>wReceives := remove1 (n, f) (wReceives w)\<rparr>) = Inr w'"
  shows "balanced L st w'"
proof -
  let ?w = "w\<lparr>wReceives := remove1 (n, f) (wReceives w)\<rparr>"
  have old': "balanced L st ?w" using old by simp
  from run[unfolded run_receive_def] obtain nd h' nd' out where nd: "map_of (emNodeTable (wEm ?w)) n = Some nd"
    and res: "(case Node_HandleReceive L R (wNow ?w) f True [] (wHeap ?w, nd, []) of
      None \<Rightarrow> Inl (UndefinedBehaviour ''endless loop'') | Some r \<Rightarrow> r) = Inr (h', nd', out)"
    by (rule on_node_cases)
  then have hr: "Node_HandleReceive L R (wNow ?w) f True [] (wHeap ?w, nd, []) = Some (Inr (h', nd', out))"
    by (auto split: option.splits)
  note closed = HandleReceive_error[OF hr]
  have "is_app_face nd f"
    by (rule conjunct2[OF HandleReceive_faces[OF _ hr]]) (use world_okD(3)[OF ok] nd in simp)
  then have "Node_link_face nd' = Node_link_face nd"
    using closed
    by (auto simp: Node_link_face_def is_app_face_def fun_eq_iff om.lookup_erase split: option.splits face.splits)
  then show ?thesis
    using closed
    by (intro on_node_balanced[OF old' nd run[unfolded run_receive_def] res]) (auto simp: data_sends_def)
qed

lemma fire_balanced:
  assumes "balanced L st w" and "map_of (wTimers w) tm = Some (e, t)"
  shows "balanced L st (w\<lparr>wTimers := kv_erase tm (wTimers w), wReady := wReady w @ [t]\<rparr>)"
proof -
  have "\<not> is_dispatch (snd (snd (tm, e, t)))"
    using assms(1) map_of_SomeD[OF assms(2)] unfolding balanced_def timers_quiet_def by blast
  then have "RunDispatch n f wire \<noteq> t" for n f wire by auto
  with assms(1) show ?thesis
    by (simp add: balanced_def timers_quiet_def link_dispatches_def sent_data_def kv_erase_def)
qed

section \<open>Schedules\<close>

lemma run_task_balanced:
  assumes codec: "codec_laws L" and ok: "world_ok w" and ready: "wReady w = t # ts" and old: "balanced L st w"
    and run: "run_task L R t (w\<lparr>wReady := ts\<rparr>) = Inr w'"
  shows "balanced L st w'"
proof -
  note pop = balanced_pop[OF old ready]
  have ok1: "world_ok (w\<lparr>wReady := ts\<rparr>)" if "\<And>n d. completed t \<noteq> Some (CsmaTimer n d)"
    using pop_ok[OF ok ready] that by blast
  show ?thesis
  proof (cases t)
    case (RunPostRx n d err)
    with run ok1 show ?thesis by (auto intro: PostRx_balanced[OF pop])
  next
    case (RunDoCsma n d NB BE err)
    with run show ?thesis by (auto intro: DoCsma_balanced[OF pop])
  next
    case (RunPitCleanUp n err)
    with run show ?thesis by (auto intro: PitCleanUp_balanced[OF pop])
  next
    case (RunTransmit l n p)
    with run show ?thesis by (auto intro: Transmit_balanced[OF pop])
  next
    case (RunDispatch n f wire)
    then have "RunDispatch n f wire \<in> set (wReady w)" using ready by simp
    then have "\<exists>nd. map_of (emNodeTable (wEm w)) n = Some nd \<and> Node_link_face nd f \<noteq> None"
      using old unfolding balanced_def link_dispatches_def by blast
    then show ?thesis
      using run RunDispatch ok1 by (intro Dispatch_balanced[OF pop _ codec, of n f R "wNow w" wire]) auto
  qed
qed

lemma perform_balanced:
  assumes laws: "block_laws L" "0 < maxPacketSize L" "codec_laws L" and ok: "world_ok w"
    and buffers: "origins L G (\<lambda>n f. stream n f as) w" and old: "balanced L (\<lambda>n f. stream n f as) w"
    and run: "perform L R a w = Inr w'"
  shows "balanced L (\<lambda>n f. stream n f (as @ [a])) w'"
proof (cases a)
  case (Receive n f bs)
  then show ?thesis
    using run
    by (intro receive_balanced[OF laws old buffers ok, of _ n f bs R])
      (auto simp: not_enabled_def stream_append split: if_splits)
next
  case Run
  then obtain t ts where "wReady w = t # ts" "run_task L R t (w\<lparr>wReady := ts\<rparr>) = Inr w'"
    using run by (auto simp: not_enabled_def split: list.splits)
  from run_task_balanced[OF laws(3) ok this(1) old this(2)] Run show ?thesis by (simp add: stream_append)
next
  case (Fire tm)
  then show ?thesis using run fire_balanced[OF old] by (auto simp: not_enabled_def stream_append split: option.splits if_splits)
next
  case (Tick now)
  then show ?thesis using run old by (auto simp: not_enabled_def stream_append split: if_splits)
next
  case (Accept n f)
  then show ?thesis using run accept_balanced[OF old ok] by (auto simp: not_enabled_def stream_append split: if_splits)
next
  case (Close n f)
  then show ?thesis using run close_balanced[OF old ok] by (auto simp: not_enabled_def stream_append split: if_splits)
qed

lemma Start_balanced:
  assumes "unused_nodes em" and "Emulator_Start L em = Inr w"
  shows "balanced L (\<lambda>n f. []) w"
proof (rule each_invariant[OF assms(2)[unfolded Emulator_Start_def], where I = "balanced L (\<lambda>n f. [])"])
  have "pTable (ndPit nd) = []" if "map_of (emNodeTable em) n = Some nd" for n nd
    using assms(1) that by (simp add: unused_nodes_def unused_def)
  then show "balanced L (\<lambda>n f. []) (World_new em)"
    by (auto simp: balanced_def World_new_def timers_quiet_def link_dispatches_def sent_data_def owed_def)
  show "balanced L (\<lambda>n f. []) w'"
    if "balanced L (\<lambda>n f. []) w" "on_node n (\<lambda>h. keep_heap (Node_Start L) h) w = Inr w'" for n w w'
    by (rule silent_balanced[OF that]) (auto dest!: Start_keeps)
qed

lemma run_balanced:
  assumes laws: "block_laws L" "0 < maxPacketSize L" "codec_laws L" and rates: "rates_ok C config"
    and read: "Emulator_ReadNetworkConfig L C R seed config Emulator_new = Inr em"
    and start: "Emulator_Start L em = Inr w0" and run: "each (perform L R) as w0 = Inr w"
  shows "balanced L (\<lambda>n f. stream n f as) w"
  using run
proof (induction as arbitrary: w rule: rev_induct)
  case Nil
  then show ?case using Start_balanced[OF ReadNetworkConfig_unused[OF read] start] by simp
next
  case (snoc a as)
  then obtain w1 where before: "each (perform L R) as w0 = Inr w1" and a: "perform L R a w1 = Inr w"
    by (auto simp: each_append and_then_Inr_iff)
  have "world_ok w1" by (rule run_world[OF rates read perform_reachable[OF start before]])
  from perform_balanced[OF laws this run_origins[OF laws rates read start before] snoc.IH[OF before] a] show ?case .
qed

section \<open>Properties\<close>

text \<open>
  C2: One Interest brings at most one Data packet. In every state of every run, the number of Data
  packets an application has been sent, plus the number of records of its face that are still in
  the PIT of its node, is at most the number of Interests it has written to its socket: no Data is
  pushed to an application that has not asked, whatever the network does. That holds for every
  face number that is not a link face's, also after the application has closed its socket.
\<close>

theorem flow_balance:
  assumes "block_laws L" and "0 < maxPacketSize L" and "codec_laws L" and "rates_ok C config"
    and "Emulator_ReadNetworkConfig L C R seed config Emulator_new = Inr em"
    and "Emulator_Start L em = Inr w0" and "each (perform L R) as w0 = Inr w"
    and "map_of (emNodeTable (wEm w)) n = Some nd" and "Node_link_face nd f = None"
  shows "sent_data L n f w + owed f (ndPit nd) \<le> interests L (fst (frames L (stream n f as)))"
  using run_balanced[OF assms(1-7)] assms(8,9) by (simp add: balanced_def)

theorem flow_balance_witness:
  "\<exists>w0 w nd. Emulator_Start trio_lib trio_em = Inr w0 \<and>
     each (perform trio_lib counting_rng) trio_schedule w0 = Inr w \<and>
     map_of (emNodeTable (wEm w)) ''A'' = Some nd \<and> is_app_face nd 3 \<and>
     sent_data trio_lib ''A'' 3 w = 1 \<and> interests trio_lib [[5, 1, 7]] = 1 \<and> owed 3 (ndPit nd) = 0"
proof -
  obtain w0 w nd where run: "Emulator_Start trio_lib trio_em = Inr w0"
    "each (perform trio_lib counting_rng) trio_schedule w0 = Inr w"
    and sent: "wSent w = [(''C'', 2, [6, 1, 9]), (''C'', 2, [5, 1, 7]), (''A'', 3, [6, 1, 7])]"
    and nd: "map_of (emNodeTable (wEm w)) ''A'' = Some nd" and app: "is_app_face nd 3"
    by (rule trio_schedule_run)
  from app have "Node_link_face nd 3 = None"
    by (auto simp: is_app_face_def Node_link_face_def split: option.splits face.splits)
  note balance = flow_balance[OF trio_blocks trio_encodings trio_rates trio_read run nd this]
  have "data_in trio_lib [6, 1, 7] = Some trio_data"
    by (simp add: data_in_def trio_lib_def list_ndn_def trio_data_def trio_reply_def)
  then have "sent_data trio_lib ''A'' 3 w = 1" by (simp add: sent_data_def sent)
  moreover have "interest_in trio_lib [5, 1, 7] = Some trio_interest"
    by (simp add: interest_in_def trio_lib_def list_ndn_def trio_interest_def trio_register_def ask_def)
  then have "interests trio_lib [[5, 1, 7]] = 1" by (simp add: interests_def)
  moreover have "fst (frames trio_lib (stream ''A'' 3 trio_schedule)) = [[5, 1, 7]]"
    by (simp add: trio_streams trio_lib_def)
  ultimately show ?thesis
    using balance run nd app by auto
qed

end
