(* ===== verification/Spec2Isabelle.thy ===== *)
theory Spec2Isabelle
  imports Pit Fib Cache Device FibManager Forwarding World Scenario Refinement Program Simple Collect Summary Balance
begin

text \<open>
  A model of ndn-em, an emulator of networks that forward Named Data Networking packets, and of
  the small applications that come with it.

  The program. A configuration file describes links, nodes with devices on these links, static
  routes and the loss rates between nodes. \<^verbatim>\<open>core/main.cc\<close> reads it
  (\<^verbatim>\<open>Emulator::ReadNetworkConfig\<close>), starts the nodes and enters the io service, which runs
  all handlers in one thread. Every node forwards: its faces lead to local applications, through
  a socket (\<^verbatim>\<open>app-face\<close>), or to a neighbour, through a link device (\<^verbatim>\<open>link-face\<close>). An
  Interest that comes in is looked up in the content store, recorded in the PIT, looked up in the
  FIB and sent on; Data is matched with the PIT, sent to the waiting faces and cached; Interests
  under /localhost/nfd/rib are commands to the FIB manager. A device queues frames, waits for a clear
  channel (CSMA) and hands them to its link, which starts a reception at the neighbours. The
  applications in \<^verbatim>\<open>apps\<close> are a sensor, a repository that collects its readings, a consumer
  and a producer; they run as processes of their own on ndn-cxx.

  Theories and files.
  \<^item> Prelude: results with an error (\<open>and_then\<close>, \<open>each\<close>), maps and sets of the standard library
    as ordered lists (\<open>om_put\<close>, \<open>ss_insert\<close>) and hash tables (\<open>um_put\<close>), with the locales
    that state their laws.
  \<^item> Ndn: what the emulator uses of ndn-cxx and of the random engines, as records of parameters
    with named laws, and an instance on lists of strings for the witnesses.
  \<^item> Pit, Fib, Cache, Packet, Link, FibManager: one theory for each of the files
    \<^verbatim>\<open>core/pit\<close>, \<^verbatim>\<open>core/fib\<close> (with \<^verbatim>\<open>core/ndn-name-hash.h\<close>), \<^verbatim>\<open>core/cache-manager\<close>,
    \<^verbatim>\<open>core/packet.h\<close>, \<^verbatim>\<open>core/link\<close> (with \<^verbatim>\<open>core/link-attribute.h\<close>) and
    \<^verbatim>\<open>core/fib-manager\<close>. A class is a record, a member function the definition
    \<open>Class_Function\<close>, a loop a recursive function of its own.
  \<^item> Device: \<^verbatim>\<open>core/link-device\<close> and \<^verbatim>\<open>core/link-face\<close>. The calls of timers and of the io
    service are requests (\<open>io_req\<close>) in the result of each operation.
  \<^item> Node, AppFace, DeviceIO: \<^verbatim>\<open>core/node\<close>, \<^verbatim>\<open>core/face\<close> and \<^verbatim>\<open>core/app-face\<close>; what a
    handler asks of sockets, timers and devices is a list of \<open>node_out\<close>.
  \<^item> Forwarding: the properties of a node as a whole.
  \<^item> Emulator: \<^verbatim>\<open>core/emulator\<close>, the reading of a property tree.
  \<^item> World: the running emulator, a step relation over handlers, timers, accepts and receives.
  \<^item> Reachable, Schedule, Scenario: the invariant of all runs and its preservation by every
    handler, schedules of the io service that can be executed (handlers, timers, the clock, and
    applications that connect, write and close), which lead to exactly the reachable states, the
    properties of all runs, and one run to a failure.
  \<^item> Delivery, Network, Chain, Journey: packets on their way through the network. Delivery
    follows a frame from the queue of a device to the dispatch at its receivers, Network one hop
    of an Interest or of Data from node to node, Journey a path of any length and back; Chain is
    a run of three nodes in a row that the theorems are applied to.
  \<^item> Origin, Balance: what holds of the packets in all runs. Origin says where they come from,
    Balance how many Data packets an application can be sent.
  \<^item> Refinement: the PIT and the FIB as implementations of sets.
  \<^item> Logging, Program: \<^verbatim>\<open>core/logging\<close> and \<^verbatim>\<open>core/main.cc\<close>.
  \<^item> Client, Sensor, Repo, Simple: what the applications use of ndn-cxx, and the applications
    \<^verbatim>\<open>apps/dummy-sensor\<close>, \<^verbatim>\<open>apps/in-memory-repo\<close>, \<^verbatim>\<open>apps/simple-consumer\<close> and
    \<^verbatim>\<open>apps/simple-producer.cc\<close>.
  \<^item> Collect: the sensor and the repository on the emulated network.
  \<^item> Summary: what the program prints about the network, and the destructors.

  State and objects. A shared object is referred to by its key: a device by node and device id, a
  link by its id, a face by its number; packets, which several queues share and which faces write
  addresses into, live in an explicit store (\<open>heap\<close>) and are referred to by index. A
  packet that was decoded keeps its block, which \<open>wireEncode\<close> returns, so what is
  sent on is what came in. Integers that can wrap or overflow are words or carry the range check
  of their type, the face numbers of a node (\<open>int_succ\<close>) among them; undefined
  behaviour, exceptions and failed assertions are values of the type \<open>error\<close>. Not
  bounded are times, which are exact numbers of nanoseconds (64 bits of them are 292 years), and
  the time a frame is on the air, which is computed on the reals and taken to fit its
  \<open>long\<close>; a handler that reads the clock several times reads one value.

  What the lemmas show. Each component has an invariant (\<open>pit_ok\<close>,
  \<open>fib_ok\<close>, \<open>cache_ok\<close>, \<open>link_ok\<close>,
  \<open>device_ok\<close>, \<open>node_ok\<close>, \<open>emulator_ok\<close>,
  \<open>repo_ok\<close>) with one preservation lemma per operation, collected in
  \<open>inv_intros\<close>; the functional behaviour of its operations; and the cases in which
  they fail. Forwarding puts the components of a node together: what happens to an Interest, to
  Data, to a command and to a removed face. Reachable extends this to the whole emulator:
  \<open>world_ok\<close> says that no reference is dangling, that the outstanding accepts and
  receives are those of the faces, and that every device with packets to send has exactly one CSMA
  handler under way. From it follow the list of the failures of a run, the start with what the
  operating system may answer to it included, and the liveness of the queues. Delivery, Network
  and Journey say that packets arrive: in every reachable state with nothing on its way
  (\<open>calm\<close>) an Interest can travel over any path of nodes that route it one to the
  next over links without loss (\<open>way\<close>), and the Data back, each sent to one
  application once, as long as the nodes have numbers for new faces (\<open>face_room\<close>); a
  frame reaches every neighbour whose connection does not drop it (\<open>listeners\<close>).
  These say that there is such a run; its schedule is given handler by handler, and the state
  after each handler is described by what it leaves alone (\<open>evolves\<close>). Origin and
  Balance say what can arrive, for any schedule and any behaviour of the applications, which may
  close their sockets: only what some application has written, or a manager has answered
  (\<open>genuine\<close>), and at most one Data packet for an Interest; the invariants
  \<open>origins\<close> and \<open>balanced\<close> relate the state to the byte streams the
  schedule has delivered so far (\<open>stream\<close>). The locales, all interpreted on the
  definitions of the code, are \<open>kv_container\<close> in Prelude (the maps),
  \<open>link_face_provider\<close> in Device (what a device needs of its node to create a face),
  \<open>packet_dispatcher\<close> in AppFace (what the receive loop needs of
  \<open>Face::Dispatch\<close>), \<open>machine_refinement\<close> in Refinement and
  \<open>metered\<close> in Balance (what a packet handler may add to the debts of a node).

  Bounds and fuel. The only loop of the code with fuel is the receive loop of
  \<open>AppFace\<close>, \<open>None\<close> when it does not return; the termination property in
  AppFace shows that it always returns with a fuel of one more than the bytes in the buffer, since
  a complete block has at least one byte. All other loops run over finite containers.
  \<open>assessments\<close> in Device and \<open>sends\<close> in Simple take a number of
  handlers to run, over which their lemmas are quantified.

  Trusted. The io service: posted handlers run in order, a cancelled wait queues its handler with
  an error, a timer that has expired queues it without; time does not go back. Sockets deliver
  arbitrary bytes at any time, even more than the receive buffer has room for, so the properties
  of all runs hold for every behaviour of an application. Of ndn-cxx: the laws in Ndn, Origin and
  Client (names are built from components, blocks have a length, packets keep the block they are
  decoded from, integers can be read back from their text).

  Not modelled: the log statements inside operations; the parsing of XML and of the command line,
  which are libraries; the writing to sockets after a packet is handed to them, so the completion
  of a send (\<open>AppFace_HandleSend\<close>) is no step of the world; the failure of the
  constructor of a node whose path is too long for a socket; the format of floating-point numbers
  and of time points in the printed summary; the build script \<^verbatim>\<open>wscript\<close>
  and the scenario files.
\<close>

end
